(* ===== verification/Prelude.thy ===== *)
theory Prelude
  imports Complex_Main "HOL-Library.AList" "HOL-Library.Log_Nat" "HOL-Library.List_Lexorder"
    "HOL-Library.Char_ord" "HOL-Library.Product_Lexorder"
begin

text \<open>
  Shared vocabulary of the development: the named collections of facts, Python dictionaries as
  association lists in insertion order, results as sums, instants, and the generic lemmas the
  component theories rely on.
\<close>

declare split_paired_Ex [simp del] split_paired_All [simp del]

named_theorems op_defs "definitions of the operations of a component"
named_theorems inv_defs "definitions of the invariants of a component"
named_theorems frame_simps "fields an operation leaves alone"

section \<open>Python dictionaries in insertion order\<close>

text \<open>
  A Python dictionary is an association list with distinct keys: assignment to a present key
  updates the entry in place, assignment to a new key appends it, deletion keeps the order of
  the others. \<^const>\<open>AList.update\<close> and \<^const>\<open>AList.delete\<close> do exactly this.
\<close>

type_synonym ('k, 'v) dict = "('k \<times> 'v) list"

definition dict_get :: "'k \<Rightarrow> ('k, 'v) dict \<Rightarrow> 'v option" where
  "dict_get k d = map_of d k"

definition dict_set :: "'k \<Rightarrow> 'v \<Rightarrow> ('k, 'v) dict \<Rightarrow> ('k, 'v) dict" where
  "dict_set k v d = AList.update k v d"

definition dict_del :: "'k \<Rightarrow> ('k, 'v) dict \<Rightarrow> ('k, 'v) dict" where
  "dict_del k d = AList.delete k d"

definition dict_values :: "('k, 'v) dict \<Rightarrow> 'v list" where
  "dict_values d = List.map snd d"

definition dict_setdefault :: "'k \<Rightarrow> 'v \<Rightarrow> ('k, 'v) dict \<Rightarrow> ('k, 'v) dict" where
  "dict_setdefault k v d = (case dict_get k d of Some _ \<Rightarrow> d | None \<Rightarrow> dict_set k v d)"

definition dict_ok :: "('k, 'v) dict \<Rightarrow> bool" where
  "dict_ok d \<longleftrightarrow> distinct (List.map fst d)"

lemma dict_get_Nil [simp]: "dict_get k [] = None"
  by (simp add: dict_get_def)

lemma dict_get_set: "dict_get k (dict_set k' v d) = (if k = k' then Some v else dict_get k d)"
  by (simp add: dict_get_def dict_set_def update_conv')

lemma dict_get_set_same [simp]: "dict_get k (dict_set k v d) = Some v"
  by (simp add: dict_get_set)

lemma dict_get_set_other [simp]: "k \<noteq> k' \<Longrightarrow> dict_get k (dict_set k' v d) = dict_get k d"
  by (simp add: dict_get_set)

lemma dict_get_del: "dict_get k (dict_del k' d) = (if k = k' then None else dict_get k d)"
  by (simp add: dict_get_def dict_del_def delete_conv')

lemma dict_ok_Nil [simp]: "dict_ok []"
  by (simp add: dict_ok_def)

lemma dict_ok_set [simp]: "dict_ok d \<Longrightarrow> dict_ok (dict_set k v d)"
  by (simp add: dict_ok_def dict_set_def distinct_update)

lemma dict_ok_del [simp]: "dict_ok d \<Longrightarrow> dict_ok (dict_del k d)"
  by (simp add: dict_ok_def dict_del_def distinct_delete)

lemma dict_ok_filter [simp]: "dict_ok d \<Longrightarrow> dict_ok (filter P d)"
  by (simp add: dict_ok_def distinct_map_filter)

lemma dict_ok_map_values:
  "dict_ok d \<Longrightarrow> dict_ok (List.map (\<lambda>(k, v). (k, f k v)) d)"
  by (simp add: dict_ok_def comp_def case_prod_unfold)

lemma dict_get_Some_in: "dict_get k d = Some v \<Longrightarrow> (k, v) \<in> set d"
  by (simp add: dict_get_def map_of_SomeD)

lemma dict_get_iff_in: "dict_ok d \<Longrightarrow> dict_get k d = Some v \<longleftrightarrow> (k, v) \<in> set d"
  by (simp add: dict_get_def dict_ok_def)

lemma dict_get_None_iff: "dict_get k d = None \<longleftrightarrow> k \<notin> fst ` set d"
  by (simp add: dict_get_def map_of_eq_None_iff)

lemma dict_get_filter_key:
  "dict_get k (filter (\<lambda>(k', v). P k') d) = (if P k then dict_get k d else None)"
  by (induction d) (auto simp: dict_get_def)

lemma dict_get_map_values:
  "dict_get k (List.map (\<lambda>(k', v). (k', f k' v)) d) = map_option (f k) (dict_get k d)"
  by (induction d) (auto simp: dict_get_def)

text \<open>Assignment to a new key appends, so the order of the other entries is untouched.\<close>

lemma dict_set_new: "dict_get k d = None \<Longrightarrow> dict_set k v d = d @ [(k, v)]"
  by (induction d) (auto simp: dict_get_def dict_set_def split: if_splits)

lemma set_dict_set:
  "dict_ok d \<Longrightarrow> set (dict_set k v d) = {(k', v') \<in> set d. k' \<noteq> k} \<union> {(k, v)}"
proof (induction d)
  case Nil
  then show ?case by (simp add: dict_set_def)
next
  case (Cons p d)
  then show ?case by (cases p) (auto simp: dict_set_def dict_ok_def image_iff)
qed

lemma set_dict_del: "set (dict_del k d) = {(k', v') \<in> set d. k' \<noteq> k}"
  by (auto simp: dict_del_def AList.delete_eq)

lemma fst_set_dict_set: "fst ` set (dict_set k v d) = insert k (fst ` set d)"
  by (simp add: dict_set_def dom_update)

lemma dict_set_same: "dict_get k d = Some v \<Longrightarrow> dict_set k v d = d"
  by (induction d) (auto simp: dict_get_def dict_set_def split: if_splits)

lemma dict_del_filter: "dict_del k d = filter (\<lambda>(k', v). k' \<noteq> k) d"
  by (auto simp: dict_del_def AList.delete_eq intro: filter_cong)

lemma dict_values_filter_key_append:
  "dict_get k d = None \<Longrightarrow> dict_values (dict_set k v d) = dict_values d @ [v]"
  by (simp add: dict_set_new dict_values_def)

lemma dict_ok_sort: "dict_ok d \<Longrightarrow> dict_ok (sort_key f d)"
  by (simp add: dict_ok_def distinct_map)

lemma dict_del_set_new: "dict_get k d = None \<Longrightarrow> dict_del k (dict_set k v d) = d"
proof (induction d)
  case Nil
  then show ?case by (simp add: dict_set_def dict_del_def)
next
  case (Cons p d)
  then show ?case
    by (cases p) (auto simp: dict_get_def dict_set_def dict_del_def split: if_splits)
qed

section \<open>Results\<close>

text \<open>A raised exception is \<open>Inl\<close>, a returned value \<open>Inr\<close>; \<open>check\<close> is a guard that raises.\<close>

definition bind_res :: "'e + 'a \<Rightarrow> ('a \<Rightarrow> 'e + 'b) \<Rightarrow> 'e + 'b" where
  "bind_res r f = (case r of Inl e \<Rightarrow> Inl e | Inr v \<Rightarrow> f v)"

definition check :: "bool \<Rightarrow> 'e \<Rightarrow> 'e + unit" where
  "check ok e = (if ok then Inr () else Inl e)"

lemma bind_res_simps [simp]:
  "bind_res (Inl e) f = Inl e"
  "bind_res (Inr v) f = f v"
  by (simp_all add: bind_res_def)

lemma bind_res_Inr: "bind_res r f = Inr w \<longleftrightarrow> (\<exists>v. r = Inr v \<and> f v = Inr w)"
  by (cases r) auto

lemma check_Inr [simp]: "check ok e = Inr u \<longleftrightarrow> ok"
  by (cases u) (simp add: check_def)

lemma check_Inl [simp]: "check ok e = Inl e' \<longleftrightarrow> \<not> ok \<and> e' = e"
  by (auto simp: check_def)

definition is_ok :: "'e + 'a \<Rightarrow> bool" where
  "is_ok r = (case r of Inl _ \<Rightarrow> False | Inr _ \<Rightarrow> True)"

lemma is_ok_simps [simp]: "is_ok (Inr v)" "\<not> is_ok (Inl e)"
  by (simp_all add: is_ok_def)

section \<open>Actions\<close>

text \<open>
  An action threads a state and may raise: what it wrote before raising stays written. The
  handlers of the program are sequences of actions.
\<close>

type_synonym ('s, 'e, 'a) action = "'s \<Rightarrow> 's \<times> ('e + 'a)"

definition act_return :: "'a \<Rightarrow> ('s, 'e, 'a) action" where
  "act_return v s = (s, Inr v)"

definition act_raise :: "'e \<Rightarrow> ('s, 'e, 'a) action" where
  "act_raise e s = (s, Inl e)"

definition act_bind :: "('s, 'e, 'a) action \<Rightarrow> ('a \<Rightarrow> ('s, 'e, 'b) action) \<Rightarrow> ('s, 'e, 'b) action" where
  "act_bind m f s = (case m s of (s', Inl e) \<Rightarrow> (s', Inl e) | (s', Inr v) \<Rightarrow> f v s')"

definition act_then :: "('s, 'e, 'a) action \<Rightarrow> ('s, 'e, 'b) action \<Rightarrow> ('s, 'e, 'b) action" where
  "act_then m m' = act_bind m (\<lambda>_. m')"

text \<open>Reading the state, replacing it, and lifting a result.\<close>

definition act_get :: "('s \<Rightarrow> 'a) \<Rightarrow> ('s, 'e, 'a) action" where
  "act_get g s = (s, Inr (g s))"

definition act_modify :: "('s \<Rightarrow> 's) \<Rightarrow> ('s, 'e, unit) action" where
  "act_modify g s = (g s, Inr ())"

definition act_lift :: "'e + 'a \<Rightarrow> ('s, 'e, 'a) action" where
  "act_lift r s = (s, r)"

text \<open>A write that may fail leaves the state alone when it does.\<close>

definition act_write :: "('f \<Rightarrow> 'e) \<Rightarrow> ('s \<Rightarrow> 'f + 's) \<Rightarrow> ('s, 'e, unit) action" where
  "act_write err g s = (case g s of Inl e \<Rightarrow> (s, Inl (err e)) | Inr s' \<Rightarrow> (s', Inr ()))"

lemma act_simps [simp]:
  "act_return v s = (s, Inr v)" "act_raise e s = (s, Inl e)" "act_get g s = (s, Inr (g s))"
  "act_modify h s = (h s, Inr ())" "act_lift r s = (s, r)"
  by (simp_all add: act_return_def act_raise_def act_get_def act_modify_def act_lift_def)

lemma act_bind_Inr:
  "act_bind m f s = (s', Inr w) \<longleftrightarrow> (\<exists>s1 v. m s = (s1, Inr v) \<and> f v s1 = (s', Inr w))"
  by (auto simp: act_bind_def split: prod.splits sum.splits)

lemma act_bind_Inl:
  "act_bind m f s = (s', Inl e) \<longleftrightarrow>
     m s = (s', Inl e) \<or> (\<exists>s1 v. m s = (s1, Inr v) \<and> f v s1 = (s', Inl e))"
  by (auto simp: act_bind_def split: prod.splits sum.splits)

lemma act_bind_run [simp]:
  "m s = (s1, Inr v) \<Longrightarrow> act_bind m f s = f v s1"
  "m s = (s1, Inl e) \<Longrightarrow> act_bind m f s = (s1, Inl e)"
  by (simp_all add: act_bind_def)

lemma act_then_eq: "act_then m m' s = act_bind m (\<lambda>_. m') s"
  by (simp add: act_then_def)

lemma act_write_Inr: "act_write err g s = (s', Inr u) \<longleftrightarrow> g s = Inr s'"
  by (cases u) (auto simp: act_write_def split: sum.splits)

lemma act_write_Inl: "act_write err g s = (s', Inl e) \<longleftrightarrow> s' = s \<and> (\<exists>f. g s = Inl f \<and> e = err f)"
  by (auto simp: act_write_def split: sum.splits)

section \<open>Instants\<close>

text \<open>
  An aware Python datetime is compared, hashed and subtracted by its UTC instant; an instant is
  a number of microseconds since 1970-01-01T00:00Z, the resolution of datetime.
\<close>

type_synonym instant = int

abbreviation (input) microseconds_per_second :: int where
  "microseconds_per_second \<equiv> 1000000"

definition minutes :: "int \<Rightarrow> int" where
  "minutes n = n * 60 * microseconds_per_second"

definition seconds :: "int \<Rightarrow> int" where
  "seconds n = n * microseconds_per_second"

definition days :: "int \<Rightarrow> int" where
  "days n = n * 86400 * microseconds_per_second"

section \<open>Generic list lemmas\<close>

lemma sort_key_empty_iff [simp]: "sort_key f xs = [] \<longleftrightarrow> xs = []"
  by (metis length_0_conv length_sort)

lemma distinct_map_sort_key: "distinct (List.map g (sort_key f xs)) = distinct (List.map g xs)"
  by (metis distinct_map distinct_sort set_sort)

lemma foldl_invariant:
  assumes "P s" and "\<And>s x. P s \<Longrightarrow> x \<in> set xs \<Longrightarrow> P (f s x)"
  shows "P (foldl f s xs)"
  using assms
proof (induction xs arbitrary: s)
  case Nil
  then show ?case by simp
next
  case (Cons x xs)
  show ?case by (simp, rule Cons.IH) (auto intro: Cons.prems)
qed

end
