(* ===== verification/Binary64.thy ===== *)
theory Binary64
  imports Prelude
begin

text \<open>
  Python floats: IEEE binary64 values as the rationals they denote, with every arithmetic
  operation rounded to nearest, ties to even, down to the subnormal range. Also the two pieces of
  the standard library the program leans on: \<open>round(x, n)\<close>, which is correctly rounded, and
  \<open>sum\<close>, which since Python 3.12 is Neumaier's compensated summation. Overflow to infinity is
  not modelled inside the arithmetic (the quantities are bounded far below \<open>2 ^ 1024\<close>); the
  special values exist at the boundary, in \<open>pyfloat\<close>. The sign of zero is not modelled:
  no comparison of the program sees it.
\<close>

section \<open>Rounding\<close>

definition ilog2 :: "rat \<Rightarrow> int" where
  "ilog2 x = (if 1 \<le> x then bitlen \<lfloor>x\<rfloor> - 1 else - bitlen (\<lceil>1 / x\<rceil> - 1))"

definition round_half_even :: "rat \<Rightarrow> int" where
  "round_half_even x = (let n = \<lfloor>x\<rfloor>; d = x - of_int n in
     if d < 1/2 then n else if 1/2 < d then n + 1 else if even n then n else n + 1)"

definition ulp_exp :: "rat \<Rightarrow> int" where
  "ulp_exp x = max (ilog2 \<bar>x\<bar> - 52) (- 1074)"

definition rnd64 :: "rat \<Rightarrow> rat" where
  "rnd64 x = (if x = 0 then 0
     else of_int (round_half_even (x / 2 powi ulp_exp x)) * 2 powi ulp_exp x)"

definition is_f64 :: "rat \<Rightarrow> bool" where
  "is_f64 x \<longleftrightarrow> (\<exists>m e. x = of_int m * 2 powi e \<and> \<bar>m\<bar> \<le> 2 ^ 53 \<and> - 1074 \<le> e)"

definition fadd :: "rat \<Rightarrow> rat \<Rightarrow> rat" where "fadd a b = rnd64 (a + b)"
definition fsub :: "rat \<Rightarrow> rat \<Rightarrow> rat" where "fsub a b = rnd64 (a - b)"
definition fmul :: "rat \<Rightarrow> rat \<Rightarrow> rat" where "fmul a b = rnd64 (a * b)"
definition fdiv :: "rat \<Rightarrow> rat \<Rightarrow> rat" where "fdiv a b = rnd64 (a / b)"

definition py_round :: "rat \<Rightarrow> nat \<Rightarrow> rat" where
  "py_round x n = rnd64 (of_int (round_half_even (x * 10 ^ n)) / 10 ^ n)"

fun neumaier :: "rat \<Rightarrow> rat \<Rightarrow> rat list \<Rightarrow> rat" where
  "neumaier s c [] = (if c = 0 then s else fadd s c)"
| "neumaier s c (x # xs) =
     (let t = fadd s x;
          c' = (if \<bar>s\<bar> \<ge> \<bar>x\<bar> then fadd c (fadd (fsub s t) x) else fadd c (fadd (fsub x t) s))
      in neumaier t c' xs)"

fun fsum :: "rat list \<Rightarrow> rat" where
  "fsum [] = 0"
| "fsum (x # xs) = neumaier x 0 xs"

text \<open>A float as it arrives from outside, before the finiteness checks.\<close>

datatype pyfloat = Fin rat | PosInf | NegInf | NaN

definition isfinite :: "pyfloat \<Rightarrow> bool" where
  "isfinite x = (case x of Fin _ \<Rightarrow> True | _ \<Rightarrow> False)"

definition fin_val :: "pyfloat \<Rightarrow> rat" where
  "fin_val x = (case x of Fin r \<Rightarrow> r | _ \<Rightarrow> 0)"

lemma isfinite_Fin [simp]: "isfinite x \<longleftrightarrow> (\<exists>r. x = Fin r)"
  by (cases x) (auto simp: isfinite_def)

section \<open>The exponent\<close>

lemma powi_pos [simp]: "0 < (2::rat) powi e"
  by simp

lemma powi_2_add: "(2::rat) powi (a + b) = 2 powi a * 2 powi b"
  by (simp add: power_int_add)

lemma powi_2_mono: "a \<le> b \<Longrightarrow> (2::rat) powi a \<le> 2 powi b"
  by (simp add: power_int_increasing)

lemma powi_2_less_iff: "(2::rat) powi a < 2 powi b \<longleftrightarrow> a < b"
  by (meson leD leI power_int_strict_increasing one_less_numeral_iff powi_2_mono semiring_norm(76))

lemma powi_nat: "0 \<le> e \<Longrightarrow> (2::rat) powi e = of_int (2 ^ nat e)"
  by (simp add: power_int_def)

lemma bitlen_pos: "0 < n \<Longrightarrow> 1 \<le> bitlen n"
  by (metis bitlen_nonneg bitlen_eq_zero_iff le_less not_le zless_imp_add1_zle add_0)

lemma ilog2_bounds_ge1:
  assumes "1 \<le> x"
  shows "2 powi ilog2 x \<le> x \<and> x < 2 powi (ilog2 x + 1)"
proof -
  let ?n = "\<lfloor>x\<rfloor>"
  from assms have n: "0 < ?n" by linarith
  then have b: "2 ^ nat (bitlen ?n - 1) \<le> ?n" "?n < 2 ^ nat (bitlen ?n)"
    using bitlen_bounds [of ?n] by auto
  have "2 powi ilog2 x = (of_int (2 ^ nat (bitlen ?n - 1)) :: rat)"
    "2 powi (ilog2 x + 1) = (of_int (2 ^ nat (bitlen ?n)) :: rat)"
    using assms bitlen_pos [OF n] by (simp_all add: ilog2_def power_int_def)
  moreover have "of_int (2 ^ nat (bitlen ?n - 1)) \<le> x"
    using b(1) by (meson le_floor_iff)
  moreover have "x < of_int (2 ^ nat (bitlen ?n))"
    using b(2) by (meson floor_less_iff)
  ultimately show ?thesis by simp
qed

lemma ilog2_bounds_lt1:
  assumes "0 < x" "\<not> 1 \<le> x"
  shows "2 powi ilog2 x \<le> x \<and> x < 2 powi (ilog2 x + 1)"
proof -
  let ?n = "\<lceil>1 / x\<rceil> - 1"
  from assms have "1 < 1 / x" by (simp add: field_simps)
  then have n: "0 < ?n" by linarith
  then have b: "2 ^ nat (bitlen ?n - 1) \<le> ?n" "?n < 2 ^ nat (bitlen ?n)"
    using bitlen_bounds [of ?n] by auto
  note l = bitlen_pos [OF n]
  have lo: "1 / x \<le> of_int (2 ^ nat (bitlen ?n))"
    using b(2) by (simp add: ceiling_le_iff [symmetric] del: of_int_power)
  have hi: "of_int (2 ^ nat (bitlen ?n - 1)) < 1 / x"
    using b(1) by (simp add: less_ceiling_iff [symmetric] del: of_int_power)
  have i: "ilog2 x = - bitlen ?n" "ilog2 x + 1 = - (bitlen ?n - 1)"
    using assms by (simp_all add: ilog2_def)
  have "1 / (of_int (2 ^ nat (bitlen ?n)) :: rat) = 2 powi ilog2 x"
    unfolding i(1) power_int_minus_divide using l by (simp add: power_int_def)
  moreover have "1 / (of_int (2 ^ nat (bitlen ?n - 1)) :: rat) = 2 powi (ilog2 x + 1)"
    unfolding i(2) power_int_minus_divide using l by (simp add: power_int_def)
  moreover have "1 / (of_int (2 ^ nat (bitlen ?n)) :: rat) \<le> x"
    using lo assms(1) by (simp add: pos_divide_le_eq mult.commute)
  moreover have "x < 1 / (of_int (2 ^ nat (bitlen ?n - 1)) :: rat)"
    using hi assms(1) by (simp add: pos_less_divide_eq mult.commute)
  ultimately show ?thesis by simp
qed

lemma ilog2_bounds:
  assumes "0 < x"
  shows "2 powi ilog2 x \<le> x" "x < 2 powi (ilog2 x + 1)"
  using ilog2_bounds_ge1 [of x] ilog2_bounds_lt1 [OF assms] by blast+

lemma ilog2_mono:
  assumes "0 < x" "x \<le> y"
  shows "ilog2 x \<le> ilog2 y"
proof -
  have "2 powi ilog2 x \<le> x" using assms by (intro ilog2_bounds)
  also have "\<dots> \<le> y" by fact
  also have "y < 2 powi (ilog2 y + 1)" using assms by (intro ilog2_bounds) linarith
  finally show ?thesis by (simp add: powi_2_less_iff)
qed

section \<open>Rounding to an integer\<close>

lemma round_half_even_error: "\<bar>of_int (round_half_even x) - x\<bar> \<le> 1 / 2"
  using floor_correct [of x] by (auto simp: round_half_even_def Let_def abs_le_iff)

lemma round_half_even_of_int [simp]: "round_half_even (of_int n) = n"
  by (simp add: round_half_even_def)

lemma round_half_even_tie:
  "\<bar>of_int (round_half_even x) - x\<bar> = 1 / 2 \<Longrightarrow> even (round_half_even x)"
proof -
  assume t: "\<bar>of_int (round_half_even x) - x\<bar> = 1 / 2"
  let ?d = "x - of_int \<lfloor>x\<rfloor>"
  have d: "0 \<le> ?d" "?d < 1" using floor_correct [of x] by linarith+
  have "?d = 1 / 2"
  proof (rule ccontr)
    assume ne: "?d \<noteq> 1 / 2"
    show False
    proof (cases "?d < 1 / 2")
      case True
      then have "round_half_even x = \<lfloor>x\<rfloor>" by (simp add: round_half_even_def)
      then show False using t d True by linarith
    next
      case False
      then have "round_half_even x = \<lfloor>x\<rfloor> + 1" using ne by (simp add: round_half_even_def)
      then show False using t d False ne by simp
    qed
  qed
  then show ?thesis by (simp add: round_half_even_def Let_def)
qed

lemma round_half_even_unique:
  assumes "\<bar>of_int n - x\<bar> \<le> 1 / 2" and "\<bar>of_int n - x\<bar> = 1 / 2 \<Longrightarrow> even n"
  shows "round_half_even x = n"
proof -
  let ?m = "round_half_even x"
  have e: "\<bar>of_int ?m - x\<bar> \<le> 1 / 2" by (rule round_half_even_error)
  have "\<bar>(of_int ?m :: rat) - of_int n\<bar> \<le> 1" using e assms(1) by linarith
  then have "\<bar>?m - n\<bar> \<le> 1" by (metis of_int_abs of_int_diff of_int_le_1_iff)
  then consider "?m = n" | "?m = n + 1" | "?m = n - 1" by linarith
  then show ?thesis
  proof cases
    case 2
    then have "\<bar>of_int ?m - x\<bar> = 1 / 2" "\<bar>of_int n - x\<bar> = 1 / 2" using e assms(1) by auto
    then show ?thesis using 2 assms(2) round_half_even_tie [of x] by simp
  next
    case 3
    then have "\<bar>of_int ?m - x\<bar> = 1 / 2" "\<bar>of_int n - x\<bar> = 1 / 2" using e assms(1) by auto
    then show ?thesis using 3 assms(2) round_half_even_tie [of x] by simp
  qed simp
qed

lemma round_half_even_minus [simp]: "round_half_even (- x) = - round_half_even x"
proof (rule round_half_even_unique)
  show "\<bar>of_int (- round_half_even x) - - x\<bar> \<le> 1 / 2"
    using round_half_even_error [of x] by (simp add: abs_minus_commute)
  assume "\<bar>of_int (- round_half_even x) - - x\<bar> = 1 / 2"
  then show "even (- round_half_even x)"
    using round_half_even_tie [of x] by (simp add: abs_minus_commute)
qed

lemma round_half_even_mono:
  assumes "x \<le> y"
  shows "round_half_even x \<le> round_half_even y"
proof (rule ccontr)
  assume "\<not> ?thesis"
  then have "(of_int (round_half_even y) :: rat) + 1 \<le> of_int (round_half_even x)"
    by (metis not_le of_int_1 of_int_add of_int_le_iff zless_imp_add1_zle)
  then have "y \<le> x" using round_half_even_error [of x] round_half_even_error [of y] by linarith
  with assms have "x = y" by simp
  with \<open>\<not> ?thesis\<close> show False by simp
qed

lemma round_half_even_le_int: "x \<le> of_int n \<Longrightarrow> round_half_even x \<le> n"
  by (metis round_half_even_mono round_half_even_of_int)

lemma round_half_even_ge_int: "of_int n \<le> x \<Longrightarrow> n \<le> round_half_even x"
  by (metis round_half_even_mono round_half_even_of_int)

section \<open>Rounding to a float\<close>

lemma ulp_exp_minus [simp]: "ulp_exp (- x) = ulp_exp x"
  by (simp add: ulp_exp_def)

lemma rnd64_0 [simp]: "rnd64 0 = 0"
  by (simp add: rnd64_def)

lemma rnd64_minus [simp]: "rnd64 (- x) = - rnd64 x"
  by (simp add: rnd64_def)

lemma rnd64_nonneg: "0 \<le> x \<Longrightarrow> 0 \<le> rnd64 x"
  by (simp add: rnd64_def round_half_even_ge_int)

lemma rnd64_error: "\<bar>rnd64 x - x\<bar> \<le> 2 powi ulp_exp x / 2"
proof (cases "x = 0")
  case False
  let ?u = "2 powi ulp_exp x :: rat"
  have "rnd64 x - x = (of_int (round_half_even (x / ?u)) - x / ?u) * ?u"
    using False by (simp add: rnd64_def field_simps)
  then have "\<bar>rnd64 x - x\<bar> = \<bar>of_int (round_half_even (x / ?u)) - x / ?u\<bar> * ?u"
    by (simp add: abs_mult)
  also have "\<dots> \<le> 1 / 2 * ?u"
    by (intro mult_right_mono round_half_even_error) simp
  finally show ?thesis by simp
qed simp

lemma ulp_exp_mono: "0 < x \<Longrightarrow> x \<le> y \<Longrightarrow> ulp_exp x \<le> ulp_exp y"
  using ilog2_mono [of x y] by (simp add: ulp_exp_def)

lemma rnd64_le_binade:
  assumes "0 < x"
  shows "rnd64 x \<le> 2 powi (ulp_exp x + 53)"
proof -
  let ?u = "2 powi ulp_exp x :: rat"
  have "x < 2 powi (ilog2 x + 1)" using assms by (rule ilog2_bounds)
  also have "\<dots> \<le> 2 powi (ulp_exp x + 53)"
    using assms by (intro powi_2_mono) (simp add: ulp_exp_def)
  finally have "x / ?u \<le> of_int (2 ^ 53)"
    by (simp add: powi_2_add field_simps)
  then have "of_int (round_half_even (x / ?u)) \<le> (of_int (2 ^ 53) :: rat)"
    using round_half_even_le_int of_int_le_iff by blast
  then have "of_int (round_half_even (x / ?u)) * ?u \<le> of_int (2 ^ 53) * ?u"
    by (rule mult_right_mono) simp
  then show ?thesis using assms by (simp add: rnd64_def powi_2_add mult.commute)
qed

lemma rnd64_ge_binade:
  assumes "0 < x" "- 1074 < ulp_exp x"
  shows "2 powi (ulp_exp x + 52) \<le> rnd64 x"
proof -
  let ?u = "2 powi ulp_exp x :: rat"
  have "ilog2 x = ulp_exp x + 52" using assms by (simp add: ulp_exp_def)
  then have "2 powi (ulp_exp x + 52) \<le> x" using ilog2_bounds(1) [OF assms(1)] by simp
  then have "of_int (2 ^ 52) \<le> x / ?u"
    by (simp add: powi_2_add field_simps)
  then have "(of_int (2 ^ 52) :: rat) \<le> of_int (round_half_even (x / ?u))"
    using round_half_even_ge_int of_int_le_iff by blast
  then have "of_int (2 ^ 52) * ?u \<le> of_int (round_half_even (x / ?u)) * ?u"
    by (rule mult_right_mono) simp
  then show ?thesis using assms by (simp add: rnd64_def powi_2_add mult.commute)
qed

lemma rnd64_mono_pos:
  assumes "0 < x" "x \<le> y"
  shows "rnd64 x \<le> rnd64 y"
proof (cases "ulp_exp x = ulp_exp y")
  case True
  have "round_half_even (x / 2 powi ulp_exp y) \<le> round_half_even (y / 2 powi ulp_exp y)"
    using assms by (intro round_half_even_mono divide_right_mono) auto
  then show ?thesis using assms True by (simp add: rnd64_def)
next
  case False
  then have less: "ulp_exp x < ulp_exp y" using ulp_exp_mono [OF assms] by simp
  then have sub: "- 1074 < ulp_exp y" by (simp add: ulp_exp_def)
  have "rnd64 x \<le> 2 powi (ulp_exp x + 53)" using assms by (intro rnd64_le_binade)
  also have "\<dots> \<le> 2 powi (ulp_exp y + 52)" using less by (intro powi_2_mono) simp
  also have "\<dots> \<le> rnd64 y" using assms sub by (intro rnd64_ge_binade) auto
  finally show ?thesis .
qed

lemma rnd64_mono: "x \<le> y \<Longrightarrow> rnd64 x \<le> rnd64 y"
proof -
  assume le: "x \<le> y"
  consider "0 < x" | "x \<le> 0" "0 \<le> y" | "y < 0" by linarith
  then show ?thesis
  proof cases
    case 1
    then show ?thesis using le by (rule rnd64_mono_pos)
  next
    case 2
    then have "rnd64 x \<le> 0" using rnd64_nonneg [of "- x"] by simp
    also have "0 \<le> rnd64 y" using 2 by (simp add: rnd64_nonneg)
    finally show ?thesis .
  next
    case 3
    then have "rnd64 (- y) \<le> rnd64 (- x)" using le by (intro rnd64_mono_pos) auto
    then show ?thesis by simp
  qed
qed


section \<open>Representable values\<close>

lemma is_f64_0 [simp]: "is_f64 0"
  unfolding is_f64_def by (rule exI [of _ 0]) auto

lemma is_f64_minus [simp]: "is_f64 (- x) \<longleftrightarrow> is_f64 x"
proof -
  have "is_f64 (- y)" if "is_f64 y" for y
  proof -
    from that obtain m e where "y = of_int m * 2 powi e" "\<bar>m\<bar> \<le> 2 ^ 53" "- 1074 \<le> e"
      by (auto simp: is_f64_def)
    then have "- y = of_int (- m) * 2 powi e" "\<bar>- m\<bar> \<le> 2 ^ 53" "- 1074 \<le> e" by auto
    then show ?thesis unfolding is_f64_def by blast
  qed
  from this [of x] this [of "- x"] show ?thesis by auto
qed

lemma is_f64_of_int: "\<bar>n\<bar> \<le> 2 ^ 53 \<Longrightarrow> is_f64 (of_int n)"
  unfolding is_f64_def by (rule exI [of _ n], rule exI [of _ 0]) simp

lemma is_f64_rnd64 [simp]: "is_f64 (rnd64 x)"
proof -
  have pos: "is_f64 (rnd64 y)" if "0 < y" for y
  proof -
    let ?u = "2 powi ulp_exp y :: rat"
    let ?m = "round_half_even (y / ?u)"
    have "of_int ?m * ?u \<le> of_int (2 ^ 53) * ?u"
      using rnd64_le_binade [OF that] that by (simp add: rnd64_def powi_2_add mult.commute)
    then have "?m \<le> 2 ^ 53" by (simp add: mult_le_cancel_right_pos)
    moreover have "0 \<le> ?m" using that by (intro round_half_even_ge_int) simp
    ultimately have "\<bar>?m\<bar> \<le> 2 ^ 53" by simp
    moreover have "rnd64 y = of_int ?m * ?u" using that by (simp add: rnd64_def)
    moreover have "- 1074 \<le> ulp_exp y" by (simp add: ulp_exp_def)
    ultimately show ?thesis unfolding is_f64_def by blast
  qed
  consider "0 < x" | "x = 0" | "x < 0" by linarith
  then show ?thesis using pos [of x] pos [of "- x"] by cases auto
qed

lemma multiple_of_ulp:
  assumes "0 < x" "x = of_int m * 2 powi e" "\<bar>m\<bar> \<le> 2 ^ 53" "- 1074 \<le> e"
  shows "\<exists>k. x / 2 powi ulp_exp x = of_int k"
proof (cases "ulp_exp x \<le> e")
  case True
  have "x / 2 powi ulp_exp x = of_int m * 2 powi (e - ulp_exp x)"
    using assms(2) by (simp add: power_int_diff)
  also have "\<dots> = of_int (m * 2 ^ nat (e - ulp_exp x))"
    using True by (simp add: power_int_def)
  finally show ?thesis by blast
next
  case False
  then have i: "ilog2 x = ulp_exp x + 52" using assms by (simp add: ulp_exp_def)
  have "2 powi (ulp_exp x + 52) \<le> x" using ilog2_bounds(1) [OF assms(1)] i by simp
  moreover have "2 powi (e + 53) \<le> (2 powi (ulp_exp x + 52) :: rat)"
    using False by (intro powi_2_mono) simp
  moreover have "x \<le> of_int (2 ^ 53) * 2 powi e"
    unfolding assms(2) using assms(3) by (intro mult_right_mono) (auto simp del: of_int_power)
  moreover have "(2 powi (e + 53) :: rat) = of_int (2 ^ 53) * 2 powi e"
    by (simp add: powi_2_add)
  ultimately have "x = 2 powi (ulp_exp x + 52)" by linarith
  then have "x / 2 powi ulp_exp x = of_int (2 ^ 52)" by (metis (no_types, lifting) powi_2_add nonzero_mult_div_cancel_left powi_pos less_irrefl of_int_power of_int_numeral power_int_numeral)
  then show ?thesis by blast
qed

lemma rnd64_exact: "is_f64 x \<Longrightarrow> rnd64 x = x"
proof -
  have pos: "rnd64 y = y" if y: "0 < y" "is_f64 y" for y
  proof -
    from y(2) obtain m e where "y = of_int m * 2 powi e" "\<bar>m\<bar> \<le> 2 ^ 53" "- 1074 \<le> e"
      by (auto simp: is_f64_def)
    then obtain k where k: "y / 2 powi ulp_exp y = of_int k"
      using multiple_of_ulp [OF y(1)] by blast
    then have "rnd64 y = y / 2 powi ulp_exp y * 2 powi ulp_exp y"
      using y(1) by (simp only: rnd64_def k round_half_even_of_int) simp
    then show ?thesis by simp
  qed
  assume "is_f64 x"
  consider "0 < x" | "x = 0" | "x < 0" by linarith
  then show "rnd64 x = x" using \<open>is_f64 x\<close> pos [of x] pos [of "- x"] by cases auto
qed

lemma rnd64_error_relative: "\<bar>rnd64 x - x\<bar> \<le> \<bar>x\<bar> / 2 ^ 53 + 1 / 2 ^ 1075"
proof (cases "x = 0")
  case False
  have "2 powi ulp_exp x / 2 \<le> \<bar>x\<bar> / 2 ^ 53 + (1 / 2 ^ 1075 :: rat)"
  proof (cases "ilog2 \<bar>x\<bar> - 52 \<le> - 1074")
    case True
    then have "ulp_exp x = - 1074" by (simp add: ulp_exp_def)
    then have "2 powi ulp_exp x / 2 = (1 / 2 ^ 1075 :: rat)"
      by (simp add: power_int_def power_one_over)
    moreover have "0 \<le> \<bar>x\<bar> / 2 ^ 53" by simp
    ultimately show ?thesis by linarith
  next
    case False
    then have "ulp_exp x = ilog2 \<bar>x\<bar> + (- 52)" by (simp add: ulp_exp_def)
    then have "2 powi ulp_exp x / 2 = 2 powi ilog2 \<bar>x\<bar> / (2 ^ 53 :: rat)"
      by (simp only: powi_2_add) (simp add: power_int_def power_one_over)
    also have "\<dots> \<le> \<bar>x\<bar> / 2 ^ 53"
      using ilog2_bounds(1) [of "\<bar>x\<bar>"] \<open>x \<noteq> 0\<close> by (intro divide_right_mono) auto
    finally have "2 powi ulp_exp x / 2 \<le> \<bar>x\<bar> / 2 ^ 53" .
    moreover have "(0::rat) \<le> 1 / 2 ^ 1075" by simp
    ultimately show ?thesis by linarith
  qed
  then show ?thesis using rnd64_error [of x] by linarith
qed simp

section \<open>The interface of a rounding mode\<close>

text \<open>
  What the component proofs use of rounding: it is monotone and fixes the representable values.
\<close>

locale rounding =
  fixes rnd :: "rat \<Rightarrow> rat" and rep :: "rat \<Rightarrow> bool"
  assumes mono: "x \<le> y \<Longrightarrow> rnd x \<le> rnd y"
    and exact: "rep x \<Longrightarrow> rnd x = x"
    and closed: "rep (rnd x)"
    and rep_zero: "rep 0"
begin

lemma idem: "rnd (rnd x) = rnd x"
  by (simp add: exact closed)

lemma le_rep: "x \<le> f \<Longrightarrow> rep f \<Longrightarrow> rnd x \<le> f"
  using mono [of x f] exact [of f] by simp

lemma ge_rep: "f \<le> x \<Longrightarrow> rep f \<Longrightarrow> f \<le> rnd x"
  using mono [of f x] exact [of f] by simp

lemma nonneg: "0 \<le> x \<Longrightarrow> 0 \<le> rnd x"
  by (rule ge_rep) (simp_all add: rep_zero)

lemma nonpos: "x \<le> 0 \<Longrightarrow> rnd x \<le> 0"
  by (rule le_rep) (simp_all add: rep_zero)

lemma add_grows: "rep a \<Longrightarrow> 0 \<le> b \<Longrightarrow> a \<le> rnd (a + b)"
  by (rule ge_rep) simp_all

lemma sub_shrinks: "rep a \<Longrightarrow> 0 \<le> b \<Longrightarrow> rnd (a - b) \<le> a"
  by (rule le_rep) simp_all

end

interpretation f64: rounding rnd64 is_f64
  by unfold_locales (auto simp: rnd64_mono rnd64_exact)

lemma is_f64_ops [simp]:
  "is_f64 (fadd a b)" "is_f64 (fsub a b)" "is_f64 (fmul a b)" "is_f64 (fdiv a b)"
  by (simp_all add: fadd_def fsub_def fmul_def fdiv_def)

lemma is_f64_py_round [simp]: "is_f64 (py_round x n)"
  by (simp add: py_round_def)

lemma is_f64_min: "is_f64 a \<Longrightarrow> is_f64 b \<Longrightarrow> is_f64 (min a b)"
  by (simp add: min_def)

lemma is_f64_max: "is_f64 a \<Longrightarrow> is_f64 b \<Longrightarrow> is_f64 (max a b)"
  by (simp add: max_def)

lemma fadd_mono: "a \<le> a' \<Longrightarrow> b \<le> b' \<Longrightarrow> fadd a b \<le> fadd a' b'"
  unfolding fadd_def by (rule f64.mono) simp

lemma fsub_mono: "a \<le> a' \<Longrightarrow> b' \<le> b \<Longrightarrow> fsub a b \<le> fsub a' b'"
  unfolding fsub_def by (rule f64.mono) simp

lemma fadd_nonneg: "0 \<le> a \<Longrightarrow> 0 \<le> b \<Longrightarrow> 0 \<le> fadd a b"
  unfolding fadd_def by (rule f64.nonneg) simp

lemma fmul_nonneg: "0 \<le> a \<Longrightarrow> 0 \<le> b \<Longrightarrow> 0 \<le> fmul a b"
  unfolding fmul_def by (rule f64.nonneg) simp

lemma fdiv_nonneg: "0 \<le> a \<Longrightarrow> 0 \<le> b \<Longrightarrow> 0 \<le> fdiv a b"
  unfolding fdiv_def by (rule f64.nonneg) simp

lemma fadd_grows: "is_f64 a \<Longrightarrow> 0 \<le> b \<Longrightarrow> a \<le> fadd a b"
  unfolding fadd_def by (rule f64.add_grows)

lemma fsub_shrinks: "is_f64 a \<Longrightarrow> 0 \<le> b \<Longrightarrow> fsub a b \<le> a"
  unfolding fsub_def by (rule f64.sub_shrinks)

lemma fadd_0 [simp]: "is_f64 a \<Longrightarrow> fadd a 0 = a" "is_f64 a \<Longrightarrow> fadd 0 a = a"
  by (simp_all add: fadd_def rnd64_exact)

lemma fsub_self [simp]: "fsub a a = 0"
  by (simp add: fsub_def)

lemma fsub_nonneg: "b \<le> a \<Longrightarrow> 0 \<le> fsub a b"
  unfolding fsub_def by (rule f64.nonneg) simp

lemma fsub_nonpos: "a \<le> b \<Longrightarrow> fsub a b \<le> 0"
  unfolding fsub_def by (rule f64.nonpos) simp

text \<open>Gradual underflow: the difference of two distinct floats never rounds to zero.\<close>

lemma f64_multiple_of_least:
  assumes "is_f64 x"
  shows "\<exists>k. x = of_int k * 2 powi (- 1074)"
proof -
  from assms obtain m e where x: "x = of_int m * 2 powi e" "- 1074 \<le> e"
    by (auto simp: is_f64_def)
  have "(2 powi e :: rat) = of_int (2 ^ nat (e + 1074)) * 2 powi (- 1074)"
    using x(2) powi_2_add [of "e + 1074" "- 1074"] powi_nat [of "e + 1074"] by simp
  then have "x = of_int (m * 2 ^ nat (e + 1074)) * 2 powi (- 1074)"
    using x(1) by simp
  then show ?thesis by blast
qed

lemma fsub_pos:
  assumes "is_f64 a" "is_f64 b" "b < a"
  shows "0 < fsub a b"
proof -
  let ?u = "2 powi (- 1074) :: rat"
  obtain k l where k: "a = of_int k * ?u" and l: "b = of_int l * ?u"
    using f64_multiple_of_least [OF assms(1)] f64_multiple_of_least [OF assms(2)] by blast
  have "0 < k - l" using assms(3) unfolding k l by (simp add: mult_less_cancel_right)
  then have "1 * ?u \<le> of_int (k - l) * ?u" by (intro mult_right_mono) auto
  then have "?u \<le> a - b" unfolding k l by (simp add: left_diff_distrib)
  moreover have "is_f64 ?u" unfolding is_f64_def by (rule exI [of _ 1], rule exI [of _ "- 1074"]) simp
  ultimately have "?u \<le> fsub a b" unfolding fsub_def by (rule f64.ge_rep)
  then show ?thesis using powi_pos [of "- 1074"] by linarith
qed

lemma fsub_pos_iff: "is_f64 a \<Longrightarrow> is_f64 b \<Longrightarrow> 0 < fsub a b \<longleftrightarrow> b < a"
  using fsub_pos fsub_nonpos by (meson leD leI)

section \<open>Evaluation\<close>

text \<open>
  The evaluator's equation for \<^const>\<open>rnd64\<close>: values with few fractional bits are returned at
  once, others are scaled by integer powers of two.
\<close>

function pow2 :: "int \<Rightarrow> int" where
  "pow2 n = (if n \<le> 0 then 1 else if even n then pow2 (n div 2) * pow2 (n div 2)
     else 2 * (pow2 (n div 2) * pow2 (n div 2)))"
  by auto
termination by (relation "measure nat") auto

declare pow2.simps [simp del]

lemma pow2_power: "pow2 n = 2 ^ nat n"
proof (induction n rule: pow2.induct)
  case (1 n)
  show ?case
  proof (cases "n \<le> 0")
    case False
    then have n: "nat n = nat (n div 2) + nat (n div 2) + (if even n then 0 else 1)"
      by (cases "even n") (auto elim!: evenE oddE)
    have "(2::int) ^ nat n = 2 ^ nat (n div 2) * 2 ^ nat (n div 2) * (if even n then 1 else 2)"
      unfolding n by (simp add: power_add)
    then show ?thesis using False 1 by (subst pow2.simps) (auto simp: algebra_simps)
  qed (subst pow2.simps, simp)
qed

lemma pow2_code [code]:
  "pow2 n = (if n \<le> 0 then 1 else let h = pow2 (n div 2) in if even n then h * h else 2 * (h * h))"
  by (subst pow2.simps) (simp add: Let_def)

lemma is_f64_dyadic:
  assumes "\<bar>p\<bar> \<le> 2 ^ 33" "0 < q" "q dvd 2 ^ 20"
  shows "is_f64 (of_int p / of_int q)"
proof -
  from assms(3) obtain m where m: "(2 ^ 20 :: int) = q * m" by (rule dvdE)
  have "0 < q * m" unfolding m [symmetric] by simp
  then have m0: "0 < m" using assms(2) by (simp add: zero_less_mult_iff)
  then have "m \<le> 2 ^ 20" using m assms(2) mult_right_mono [of 1 q m] by simp
  then have "\<bar>p\<bar> * m \<le> 2 ^ 33 * 2 ^ 20" using assms(1) m0 by (intro mult_mono) simp_all
  then have bound: "\<bar>p * m\<bar> \<le> 2 ^ 53" using m0 by (simp add: abs_mult)
  have "(of_int q :: rat) * of_int m = 2 ^ 20" using m by (metis of_int_mult of_int_numeral of_int_power)
  then have "(of_int p / of_int q :: rat) = of_int (p * m) * 2 powi (- 20)"
    using assms(2) m0 by (simp add: field_simps)
  then show ?thesis unfolding is_f64_def using bound by (intro exI [of _ "p * m"] exI [of _ "- 20"]) simp
qed

lemma rnd64_code [code]:
  "rnd64 x = (let (p, q) = quotient_of x in
     if \<bar>p\<bar> \<le> 8589934592 \<and> q dvd 1048576 then of_int p / of_int q
     else let y = of_int p / of_int q; e = ulp_exp y in
       if 0 \<le> e then of_int (round_half_even (y / of_int (pow2 e)) * pow2 e)
       else of_int (round_half_even (y * of_int (pow2 (- e)))) / of_int (pow2 (- e)))"
proof (cases "quotient_of x")
  case (Pair p q)
  have x: "x = of_int p / of_int q" using quotient_of_div [OF Pair] .
  have q: "0 < q" using quotient_of_denom_pos [OF Pair] .
  have exact: "rnd64 x = x" if "\<bar>p\<bar> \<le> 8589934592" "q dvd 1048576"
    using rnd64_exact [OF is_f64_dyadic [OF _ q, of p]] that x by simp
  have e: "(2::rat) powi e = of_int (pow2 e)" if "0 \<le> e" for e
    using that by (simp add: pow2_power power_int_def)
  have e': "(2::rat) powi e = inverse (of_int (pow2 (- e)))" if "e < 0" for e
    using that by (simp add: pow2_power power_int_def power_inverse inverse_eq_divide power_divide)
  show ?thesis
  proof (cases "\<bar>p\<bar> \<le> 8589934592 \<and> q dvd 1048576")
    case True
    then show ?thesis using exact x Pair by simp
  next
    case False
    then have "x \<noteq> 0" using Pair by auto
    then have "rnd64 x = of_int (round_half_even (x / 2 powi ulp_exp x)) * 2 powi ulp_exp x" (is "_ = ?r")
      by (simp add: rnd64_def)
    also have "?r = (let e = ulp_exp x in
       if 0 \<le> e then of_int (round_half_even (x / of_int (pow2 e)) * pow2 e)
       else of_int (round_half_even (x * of_int (pow2 (- e)))) / of_int (pow2 (- e)))"
      using e [of "ulp_exp x"] e' [of "ulp_exp x"] by (simp add: Let_def divide_inverse)
    finally show ?thesis using False unfolding Pair x [symmetric] Let_def prod.case by (simp only: if_False)
  qed
qed

section \<open>Filling a capacity\<close>

text \<open>
  Adding to \<open>x\<close> at most what the rounded difference to the capacity leaves ends within two rounding
  errors of the capacity.
\<close>

lemma reserve_bound:
  assumes "0 \<le> x" "0 < a" "a \<le> fsub cap x"
  shows "fadd x a \<le> cap + cap / 2 ^ 51 + 1 / 2 ^ 1070"
proof -
  have cap: "x < cap" using assms fsub_nonpos [of cap x] by (cases "x < cap") auto
  have "fsub cap x \<le> (cap - x) + ((cap - x) / 2 ^ 53 + 1 / 2 ^ 1075)"
    using rnd64_error_relative [of "cap - x"] cap by (simp add: fsub_def abs_le_iff)
  moreover have "(cap - x) / 2 ^ 53 \<le> cap / 2 ^ 53" using assms(1) by (simp add: divide_right_mono)
  ultimately have y: "x + a \<le> cap + cap / 2 ^ 53 + 1 / 2 ^ 1075" using assms(3) by linarith
  have "fadd x a \<le> (x + a) + ((x + a) / 2 ^ 53 + 1 / 2 ^ 1075)"
    using rnd64_error_relative [of "x + a"] assms(1,2) by (simp add: fadd_def abs_le_iff)
  also have "\<dots> \<le> (cap + cap / 2 ^ 53 + 1 / 2 ^ 1075) + ((cap + cap / 2 ^ 53 + 1 / 2 ^ 1075) / 2 ^ 53 + 1 / 2 ^ 1075)"
    by (rule add_mono [OF y add_mono [OF divide_right_mono [OF y] order_refl]]) simp
  also have "\<dots> \<le> cap + cap / 2 ^ 51 + 1 / 2 ^ 1070" using cap assms(1) by (simp add: field_simps)
  finally show ?thesis .
qed

end
