(* ===== verification/Models.thy ===== *)
theory Models
  imports Binary64
begin

text \<open>
  The protocol-independent domain model, \<open>domain/models.py\<close>: the enumerations, the Pydantic
  models and their validators. A model is a record over the type of its timestamps and of its
  numbers, so that the input of a constructor (possibly naive datetimes, possibly non-finite
  floats) and the validated value (UTC instants, finite floats) share their fields.
\<close>

section \<open>Enumerations\<close>

datatype consequence = VANISH | DEFER
datatype direction = UPWARD | DOWNWARD
datatype product_class = BEST_EFFORT_PEBC
datatype reservation_status = CONFIRMED | ACTIVATED | COMPLETED | CANCELLED | EXPIRED | FAILED
datatype activation_status = ACT_PENDING | ACT_COMPLETED | ACT_FAILED

text \<open>The literals are strings, and Python orders them as such.\<close>

definition consequence_str :: "consequence \<Rightarrow> string" where
  "consequence_str c = (case c of VANISH \<Rightarrow> ''VANISH'' | DEFER \<Rightarrow> ''DEFER'')"

definition direction_str :: "direction \<Rightarrow> string" where
  "direction_str d = (case d of UPWARD \<Rightarrow> ''UPWARD'' | DOWNWARD \<Rightarrow> ''DOWNWARD'')"

definition activation_status_str :: "activation_status \<Rightarrow> string" where
  "activation_status_str s =
     (case s of ACT_PENDING \<Rightarrow> ''PENDING'' | ACT_COMPLETED \<Rightarrow> ''COMPLETED'' | ACT_FAILED \<Rightarrow> ''FAILED'')"

lemma consequence_str_inject [simp]: "consequence_str a = consequence_str b \<longleftrightarrow> a = b"
  by (cases a; cases b) (simp_all add: consequence_str_def)

lemma direction_str_inject [simp]: "direction_str a = direction_str b \<longleftrightarrow> a = b"
  by (cases a; cases b) (simp_all add: direction_str_def)

instantiation consequence :: linorder
begin

definition less_eq_consequence :: "consequence \<Rightarrow> consequence \<Rightarrow> bool" where
  "less_eq_consequence a b \<longleftrightarrow> consequence_str a \<le> consequence_str b"

definition less_consequence :: "consequence \<Rightarrow> consequence \<Rightarrow> bool" where
  "less_consequence a b \<longleftrightarrow> consequence_str a < consequence_str b"

instance
  by standard (auto simp: less_eq_consequence_def less_consequence_def order.strict_iff_order)

end

section \<open>Datetimes\<close>

text \<open>
  \<open>Aware t off\<close> is the aware datetime of the UTC instant \<open>t\<close> written with UTC offset \<open>off\<close>
  (microseconds); \<open>Naive w\<close> has no time zone. Comparing an aware with a naive datetime raises
  TypeError.
\<close>

datatype datetime = Aware instant int | Naive int

definition tz_aware :: "datetime \<Rightarrow> bool" where
  "tz_aware d = (case d of Aware _ _ \<Rightarrow> True | Naive _ \<Rightarrow> False)"

definition instant_of :: "datetime \<Rightarrow> instant" where
  "instant_of d = (case d of Aware t _ \<Rightarrow> t | Naive w \<Rightarrow> w)"

datatype model_error = ValidationError | TypeError

definition dt_compare :: "(int \<Rightarrow> int \<Rightarrow> bool) \<Rightarrow> datetime \<Rightarrow> datetime \<Rightarrow> model_error + bool" where
  "dt_compare r a b =
     (if tz_aware a = tz_aware b then Inr (r (instant_of a) (instant_of b)) else Inl TypeError)"

section \<open>FlexibilityOffer\<close>

record ('t, 'n) offer_of =
  o_resource_id :: string
  o_zone_id :: string
  o_interval_start :: 't
  o_interval_end :: 't
  o_baseline_power_kw :: 'n
  o_upward_capacity_kw :: 'n
  o_downward_capacity_kw :: 'n
  o_upward_energy_kwh :: 'n
  o_downward_energy_kwh :: 'n
  o_confidence :: 'n
  o_product_class :: product_class
  o_consequence_type :: consequence
  o_source_version :: string
  o_source_epoch :: int
  o_source_sequence :: int
  o_observed_at :: 't
  o_expires_at :: 't
  o_tenant_id :: string

type_synonym offer_input = "(datetime, pyfloat) offer_of"
type_synonym offer = "(instant, rat) offer_of"

text \<open>The numeric field constraints of Pydantic: finite, and \<open>ge\<close>/\<open>le\<close> bounds.\<close>

definition num_ge :: "pyfloat \<Rightarrow> rat \<Rightarrow> bool" where
  "num_ge x lo = (case x of Fin r \<Rightarrow> lo \<le> r | _ \<Rightarrow> False)"

definition num_between :: "pyfloat \<Rightarrow> rat \<Rightarrow> rat \<Rightarrow> bool" where
  "num_between x lo hi = (case x of Fin r \<Rightarrow> lo \<le> r \<and> r \<le> hi | _ \<Rightarrow> False)"

definition offer_fields_ok :: "offer_input \<Rightarrow> bool" where
  "offer_fields_ok i \<longleftrightarrow>
     isfinite (o_baseline_power_kw i) \<and>
     num_ge (o_upward_capacity_kw i) 0 \<and> num_ge (o_downward_capacity_kw i) 0 \<and>
     num_ge (o_upward_energy_kwh i) 0 \<and> num_ge (o_downward_energy_kwh i) 0 \<and>
     num_between (o_confidence i) 0 1 \<and>
     0 \<le> o_source_epoch i \<and> 0 \<le> o_source_sequence i"

definition validate_times :: "offer_input \<Rightarrow> model_error + unit" where
  "validate_times i =
     (if \<not> tz_aware (o_interval_start i) \<or> \<not> tz_aware (o_interval_end i)
         \<or> \<not> tz_aware (o_observed_at i) then Inl ValidationError
      else bind_res (dt_compare (\<le>) (o_interval_end i) (o_interval_start i)) (\<lambda>inverted.
        if inverted then Inl ValidationError
        else bind_res (dt_compare (<) (o_expires_at i) (o_interval_end i)) (\<lambda>early.
          if early then Inl ValidationError else Inr ())))"

definition offer_values :: "offer_input \<Rightarrow> offer" where
  "offer_values i = \<lparr> o_resource_id = o_resource_id i, o_zone_id = o_zone_id i,
     o_interval_start = instant_of (o_interval_start i),
     o_interval_end = instant_of (o_interval_end i),
     o_baseline_power_kw = fin_val (o_baseline_power_kw i),
     o_upward_capacity_kw = fin_val (o_upward_capacity_kw i),
     o_downward_capacity_kw = fin_val (o_downward_capacity_kw i),
     o_upward_energy_kwh = fin_val (o_upward_energy_kwh i),
     o_downward_energy_kwh = fin_val (o_downward_energy_kwh i),
     o_confidence = fin_val (o_confidence i),
     o_product_class = o_product_class i, o_consequence_type = o_consequence_type i,
     o_source_version = o_source_version i, o_source_epoch = o_source_epoch i,
     o_source_sequence = o_source_sequence i, o_observed_at = instant_of (o_observed_at i),
     o_expires_at = instant_of (o_expires_at i), o_tenant_id = o_tenant_id i \<rparr>"

definition mk_offer :: "offer_input \<Rightarrow> model_error + offer" where
  "mk_offer i =
     (if \<not> offer_fields_ok i then Inl ValidationError
      else bind_res (validate_times i) (\<lambda>_. Inr (offer_values i)))"

text \<open>What every validated offer satisfies.\<close>

definition offer_ok :: "offer \<Rightarrow> bool" where
  "offer_ok f \<longleftrightarrow>
     0 \<le> o_upward_capacity_kw f \<and> 0 \<le> o_downward_capacity_kw f \<and>
     0 \<le> o_upward_energy_kwh f \<and> 0 \<le> o_downward_energy_kwh f \<and>
     0 \<le> o_confidence f \<and> o_confidence f \<le> 1 \<and>
     0 \<le> o_source_epoch f \<and> 0 \<le> o_source_sequence f \<and>
     o_interval_start f < o_interval_end f \<and> o_interval_end f \<le> o_expires_at f"

lemma num_geD: "num_ge x lo \<Longrightarrow> lo \<le> fin_val x"
  by (cases x) (auto simp: num_ge_def fin_val_def)

lemma num_betweenD: "num_between x lo hi \<Longrightarrow> lo \<le> fin_val x \<and> fin_val x \<le> hi"
  by (cases x) (auto simp: num_between_def fin_val_def)

lemma validate_times_Inr:
  "validate_times i = Inr u \<longleftrightarrow>
     tz_aware (o_interval_start i) \<and> tz_aware (o_interval_end i) \<and> tz_aware (o_observed_at i) \<and>
     tz_aware (o_expires_at i) \<and>
     instant_of (o_interval_start i) < instant_of (o_interval_end i) \<and>
     instant_of (o_interval_end i) \<le> instant_of (o_expires_at i)"
  by (cases u) (auto simp: validate_times_def dt_compare_def)

lemma mk_offer_Inr:
  "mk_offer i = Inr f \<longleftrightarrow> offer_fields_ok i \<and> validate_times i = Inr () \<and> f = offer_values i"
  by (auto simp: mk_offer_def bind_res_Inr)

lemma mk_offer_ok: "mk_offer i = Inr f \<Longrightarrow> offer_ok f"
  by (auto simp: mk_offer_Inr validate_times_Inr offer_ok_def offer_values_def offer_fields_ok_def
      dest: num_geD num_betweenD)

section \<open>FlexibilityAggregate\<close>

record aggregate =
  g_zone_id :: string
  g_interval_start :: instant
  g_interval_end :: instant
  g_baseline_power_kw :: rat
  g_upward_capacity_kw :: rat
  g_downward_capacity_kw :: rat
  g_upward_energy_kwh :: rat
  g_downward_energy_kwh :: rat
  g_participant_count :: int
  g_confidence :: rat
  g_product_class :: product_class
  g_consequence_type :: consequence
  g_generated_at :: instant
  g_tenant_id :: string

definition aggregate_ok :: "aggregate \<Rightarrow> bool" where
  "aggregate_ok g \<longleftrightarrow>
     0 \<le> g_upward_capacity_kw g \<and> 0 \<le> g_downward_capacity_kw g \<and>
     0 \<le> g_upward_energy_kwh g \<and> 0 \<le> g_downward_energy_kwh g \<and>
     1 \<le> g_participant_count g \<and> 0 \<le> g_confidence g \<and> g_confidence g \<le> 1"

definition mk_aggregate :: "aggregate \<Rightarrow> model_error + aggregate" where
  "mk_aggregate g = (if aggregate_ok g then Inr g else Inl ValidationError)"

section \<open>Reservation and Activation\<close>

type_synonym uuid = nat

record reservation =
  r_reservation_id :: uuid
  r_correlation_id :: uuid
  r_zone_id :: string
  r_interval_start :: instant
  r_interval_end :: instant
  r_direction :: direction
  r_requested_power_kw :: rat
  r_allocated_power_kw :: rat
  r_participant_count :: int
  r_consequence_type :: consequence
  r_product_class :: product_class
  r_status :: reservation_status
  r_created_at :: instant
  r_expires_at :: instant
  r_tenant_id :: string

definition reservation_ok :: "reservation \<Rightarrow> bool" where
  "reservation_ok r \<longleftrightarrow> 0 < r_requested_power_kw r \<and> 0 \<le> r_allocated_power_kw r
     \<and> 1 \<le> r_participant_count r"

definition mk_reservation :: "reservation \<Rightarrow> model_error + reservation" where
  "mk_reservation r = (if reservation_ok r then Inr r else Inl ValidationError)"

record activation =
  ac_activation_id :: uuid
  ac_reservation_id :: uuid
  ac_correlation_id :: uuid
  ac_status :: activation_status
  ac_instruction_count :: int
  ac_accepted_instruction_count :: int
  ac_rejected_instruction_count :: int
  ac_created_at :: instant
  ac_completed_at :: "instant option"

definition activation_ok :: "activation \<Rightarrow> bool" where
  "activation_ok a \<longleftrightarrow> 0 \<le> ac_instruction_count a \<and> 0 \<le> ac_accepted_instruction_count a
     \<and> 0 \<le> ac_rejected_instruction_count a"

lemmas model_Inr = mk_aggregate_def mk_reservation_def

text \<open>
  The cell of an aggregate or a reservation: tenant, zone, interval and consequence type, the key
  of the privacy bookkeeping in both stores.
\<close>

type_synonym cell = "string \<times> string \<times> instant \<times> instant \<times> consequence"

definition offer_cell :: "offer \<Rightarrow> cell" where
  "offer_cell f = (o_tenant_id f, o_zone_id f, o_interval_start f, o_interval_end f,
     o_consequence_type f)"

definition aggregate_cell :: "aggregate \<Rightarrow> cell" where
  "aggregate_cell g = (g_tenant_id g, g_zone_id g, g_interval_start g, g_interval_end g,
     g_consequence_type g)"

end
