(* ===== verification/Registry.thy ===== *)
theory Registry
  imports Models
begin

text \<open>
  The provisioning trust boundary, \<open>domain/resources.py\<close>: the physical envelope of one resource,
  its validation, the versioned in-memory registry, and the interface the normaliser relies on.
\<close>

section \<open>ProvisionedResource\<close>

datatype resource_type = BATTERY | EVSE | HEAT_PUMP

record ('t, 'n) resource_of =
  p_resource_id :: string
  p_zone_id :: string
  p_resource_type :: resource_type
  p_min_power_kw :: 'n
  p_max_power_kw :: 'n
  p_min_energy_kwh :: 'n
  p_max_energy_kwh :: 'n
  p_initial_energy_kwh :: 'n
  p_ramp_rate_kw_per_min :: 'n
  p_provisioning_version :: int
  p_provisioned_at :: 't
  p_enabled :: bool
  p_tenant_id :: string

type_synonym resource_input = "(datetime, pyfloat) resource_of"
type_synonym resource = "(instant, rat) resource_of"

definition resource_fields_ok :: "resource_input \<Rightarrow> bool" where
  "resource_fields_ok i \<longleftrightarrow>
     1 \<le> length (p_resource_id i) \<and> length (p_resource_id i) \<le> 128 \<and>
     1 \<le> length (p_zone_id i) \<and> length (p_zone_id i) \<le> 128 \<and>
     num_between (p_min_power_kw i) (-100000) 100000 \<and>
     num_between (p_max_power_kw i) (-100000) 100000 \<and>
     num_between (p_min_energy_kwh i) 0 1000000000 \<and>
     num_between (p_max_energy_kwh i) 0 1000000000 \<and>
     num_between (p_initial_energy_kwh i) 0 1000000000 \<and>
     num_between (p_ramp_rate_kw_per_min i) 0 100000 \<and>
     1 \<le> p_provisioning_version i"

definition resource_values :: "resource_input \<Rightarrow> resource" where
  "resource_values i = \<lparr> p_resource_id = p_resource_id i, p_zone_id = p_zone_id i,
     p_resource_type = p_resource_type i,
     p_min_power_kw = fin_val (p_min_power_kw i), p_max_power_kw = fin_val (p_max_power_kw i),
     p_min_energy_kwh = fin_val (p_min_energy_kwh i),
     p_max_energy_kwh = fin_val (p_max_energy_kwh i),
     p_initial_energy_kwh = fin_val (p_initial_energy_kwh i),
     p_ramp_rate_kw_per_min = fin_val (p_ramp_rate_kw_per_min i),
     p_provisioning_version = p_provisioning_version i,
     p_provisioned_at = instant_of (p_provisioned_at i),
     p_enabled = p_enabled i, p_tenant_id = p_tenant_id i \<rparr>"

definition validate_envelope :: "resource_input \<Rightarrow> model_error + unit" where
  "validate_envelope i =
     (if \<not> (isfinite (p_min_power_kw i) \<and> isfinite (p_max_power_kw i) \<and>
            isfinite (p_min_energy_kwh i) \<and> isfinite (p_max_energy_kwh i) \<and>
            isfinite (p_initial_energy_kwh i) \<and> isfinite (p_ramp_rate_kw_per_min i))
        then Inl ValidationError
      else if fin_val (p_min_power_kw i) > fin_val (p_max_power_kw i) then Inl ValidationError
      else if \<not> (fin_val (p_min_energy_kwh i) \<le> fin_val (p_initial_energy_kwh i) \<and>
                 fin_val (p_initial_energy_kwh i) \<le> fin_val (p_max_energy_kwh i))
        then Inl ValidationError
      else if \<not> tz_aware (p_provisioned_at i) then Inl ValidationError
      else Inr ())"

definition mk_resource :: "resource_input \<Rightarrow> model_error + resource" where
  "mk_resource i =
     (if \<not> resource_fields_ok i then Inl ValidationError
      else bind_res (validate_envelope i) (\<lambda>_. Inr (resource_values i)))"

text \<open>The physical envelope the rest of the program may rely on.\<close>

definition resource_ok :: "resource \<Rightarrow> bool" where
  "resource_ok p \<longleftrightarrow>
     p_resource_id p \<noteq> [] \<and> p_zone_id p \<noteq> [] \<and> 1 \<le> p_provisioning_version p \<and>
     - 100000 \<le> p_min_power_kw p \<and> p_min_power_kw p \<le> p_max_power_kw p \<and>
     p_max_power_kw p \<le> 100000 \<and>
     0 \<le> p_min_energy_kwh p \<and> p_min_energy_kwh p \<le> p_initial_energy_kwh p \<and>
     p_initial_energy_kwh p \<le> p_max_energy_kwh p \<and> p_max_energy_kwh p \<le> 1000000000 \<and>
     0 \<le> p_ramp_rate_kw_per_min p \<and> p_ramp_rate_kw_per_min p \<le> 100000"

lemma mk_resource_envelope: "mk_resource i = Inr p \<Longrightarrow> resource_ok p"
  by (auto simp: mk_resource_def bind_res_Inr validate_envelope_def resource_fields_ok_def
      resource_ok_def resource_values_def split: if_splits dest!: num_betweenD)

section \<open>InMemoryResourceRegistry\<close>

datatype registry_error =
    UnknownResourceError string
  | DisabledResourceError string
  | ResourceZoneMismatch string string
  | ResourceProvisioningConflict
  | StaleProvisioningRecord

type_synonym registry = "(string, resource) dict"

definition register :: "resource \<Rightarrow> registry \<Rightarrow> registry_error + registry" where
  "register record d =
     (case dict_get (p_resource_id record) d of
        None \<Rightarrow> Inr (dict_set (p_resource_id record) record d)
      | Some current \<Rightarrow>
          if p_provisioning_version record < p_provisioning_version current
            then Inl StaleProvisioningRecord
          else if p_provisioning_version record = p_provisioning_version current
            then if record = current then Inr d else Inl ResourceProvisioningConflict
          else Inr (dict_set (p_resource_id record) record d))"

definition require :: "string \<Rightarrow> string \<Rightarrow> string \<Rightarrow> registry \<Rightarrow> registry_error + resource" where
  "require resource_id zone_id tenant_id d =
     (case dict_get resource_id d of
        None \<Rightarrow> Inl (UnknownResourceError resource_id)
      | Some record \<Rightarrow>
          if \<not> p_enabled record then Inl (DisabledResourceError resource_id)
          else if p_tenant_id record \<noteq> tenant_id then Inl (UnknownResourceError resource_id)
          else if p_zone_id record \<noteq> zone_id then Inl (ResourceZoneMismatch resource_id zone_id)
          else Inr record)"

text \<open>The constructor registers its records in order and propagates the first error.\<close>

fun register_all :: "resource list \<Rightarrow> registry \<Rightarrow> registry_error + registry" where
  "register_all [] d = Inr d"
| "register_all (r # rs) d = bind_res (register r d) (register_all rs)"

section \<open>Invariant\<close>

definition registry_inv :: "registry \<Rightarrow> bool" where
  "registry_inv d \<longleftrightarrow> dict_ok d \<and> (\<forall>(k, p) \<in> set d. p_resource_id p = k \<and> resource_ok p)"

lemma registry_inv_Nil [simp]: "registry_inv []"
  by (simp add: registry_inv_def)

lemma register_inv:
  assumes "registry_inv d" "resource_ok p" "register p d = Inr d'"
  shows "registry_inv d'"
  using assms
  by (auto simp: registry_inv_def register_def set_dict_set split: option.splits if_splits)

lemma register_all_inv:
  "registry_inv d \<Longrightarrow> \<forall>p \<in> set rs. resource_ok p \<Longrightarrow> register_all rs d = Inr d' \<Longrightarrow> registry_inv d'"
  by (induction rs arbitrary: d) (auto simp: bind_res_Inr intro: register_inv)

lemma register_get:
  "register p d = Inr d' \<Longrightarrow>
     dict_get k d' = (if k = p_resource_id p then Some p else dict_get k d)"
  by (auto simp: register_def dict_get_set split: option.splits if_splits)

lemma require_Inr:
  "require rid z t d = Inr p \<longleftrightarrow>
     dict_get rid d = Some p \<and> p_enabled p \<and> p_tenant_id p = t \<and> p_zone_id p = z"
  by (auto simp: require_def split: option.splits if_splits)

text \<open>
  The version of a resource never decreases, whatever is registered.
\<close>

lemma register_version_mono:
  assumes "register p d = Inr d'" "dict_get k d = Some q"
  shows "\<exists>q'. dict_get k d' = Some q' \<and> p_provisioning_version q \<le> p_provisioning_version q' \<and>
    (p_provisioning_version q = p_provisioning_version q' \<longrightarrow> q = q')"
proof (cases "k = p_resource_id p")
  case True
  then show ?thesis using assms by (auto simp: register_def split: if_splits)
next
  case False
  then show ?thesis using assms register_get [OF assms(1), of k] by simp
qed

section \<open>The interface\<close>

text \<open>
  \<open>ResourceRegistry\<close> is a protocol: the normaliser only calls \<open>require\<close>. What it relies on:
  a resource is returned for its own identifier, zone and tenant only, and within a sane physical
  envelope.
\<close>

locale resource_registry =
  fixes req :: "string \<Rightarrow> string \<Rightarrow> string \<Rightarrow> 's \<Rightarrow> registry_error + resource"
    and inv :: "'s \<Rightarrow> bool"
  assumes req_identity: "inv s \<Longrightarrow> req rid z t s = Inr p \<Longrightarrow>
      p_resource_id p = rid \<and> p_zone_id p = z \<and> p_tenant_id p = t"
    and req_enabled: "inv s \<Longrightarrow> req rid z t s = Inr p \<Longrightarrow> p_enabled p"
    and req_envelope: "inv s \<Longrightarrow> req rid z t s = Inr p \<Longrightarrow> resource_ok p"
begin

lemma req_one_zone:
  assumes "inv s" "req rid z t s = Inr p" "req rid z' t' s = Inr p"
  shows "z = z'" "t = t'"
  using req_identity [OF assms(1,2)] req_identity [OF assms(1,3)] by auto

lemma req_power_bounds:
  assumes "inv s" "req rid z t s = Inr p"
  shows "- 100000 \<le> p_min_power_kw p" "p_max_power_kw p \<le> 100000"
  using req_envelope [OF assms] by (auto simp: resource_ok_def)

end

interpretation mem_registry: resource_registry require registry_inv
  by unfold_locales (auto simp: require_Inr registry_inv_def dest!: dict_get_Some_in)

section \<open>Properties\<close>

text \<open>What a sequence of registrations, each either accepted or refused, leaves behind.\<close>

definition try_register :: "registry \<Rightarrow> resource \<Rightarrow> registry" where
  "try_register d p = (case register p d of Inl _ \<Rightarrow> d | Inr d' \<Rightarrow> d')"

lemma try_register_inv: "registry_inv d \<Longrightarrow> resource_ok p \<Longrightarrow> registry_inv (try_register d p)"
  by (auto simp: try_register_def intro: register_inv split: sum.splits)

lemma try_register_mono:
  assumes "dict_get k d = Some q"
  shows "\<exists>q'. dict_get k (try_register d p) = Some q' \<and>
    p_provisioning_version q \<le> p_provisioning_version q' \<and>
    (p_provisioning_version q = p_provisioning_version q' \<longrightarrow> q = q')"
  using assms register_version_mono [OF _ assms] by (auto simp: try_register_def split: sum.splits)

text \<open>
  C25 provisioning_monotone. Whatever sequence of provisioning records is offered to the registry,
  the record of a resource is only ever replaced by one with a strictly larger version: versions
  never go back, and no two different records share one.
\<close>

theorem provisioning_monotone:
  assumes "dict_get k d = Some q"
  shows "\<exists>q'. dict_get k (foldl try_register d ps) = Some q' \<and>
    p_provisioning_version q \<le> p_provisioning_version q' \<and>
    (p_provisioning_version q = p_provisioning_version q' \<longrightarrow> q = q')"
  using assms
proof (induction ps arbitrary: d q)
  case (Cons p ps)
  obtain q1 where q1: "dict_get k (try_register d p) = Some q1"
    "p_provisioning_version q \<le> p_provisioning_version q1"
    "p_provisioning_version q = p_provisioning_version q1 \<longrightarrow> q = q1"
    using try_register_mono [OF Cons.prems] by blast
  from Cons.IH [OF q1(1)] obtain q2 where "dict_get k (foldl try_register (try_register d p) ps) = Some q2"
    "p_provisioning_version q1 \<le> p_provisioning_version q2"
    "p_provisioning_version q1 = p_provisioning_version q2 \<longrightarrow> q1 = q2" by blast
  then show ?case using q1 by (intro exI [of _ q2]) auto
qed simp

definition ex_resource :: "string \<Rightarrow> int \<Rightarrow> resource" where
  "ex_resource rid n = \<lparr> p_resource_id = rid, p_zone_id = ''Z'', p_resource_type = BATTERY,
     p_min_power_kw = -5, p_max_power_kw = 5, p_min_energy_kwh = 1, p_max_energy_kwh = 13,
     p_initial_energy_kwh = 7, p_ramp_rate_kw_per_min = 5, p_provisioning_version = n,
     p_provisioned_at = 0, p_enabled = True, p_tenant_id = ''T'' \<rparr>"

definition ex_registry :: registry where
  "ex_registry = foldl try_register [] [ex_resource ''a'' 2, ex_resource ''b'' 1]"

theorem provisioning_monotone_witness:
  "\<exists>q'. dict_get ''a'' (foldl try_register ex_registry [ex_resource ''a'' 1, ex_resource ''a'' 3]) = Some q' \<and>
    2 \<le> p_provisioning_version q'"
proof -
  have "dict_get ''a'' ex_registry = Some (ex_resource ''a'' 2)" by code_simp
  moreover have "p_provisioning_version (ex_resource ''a'' 2) = 2" by (simp add: ex_resource_def)
  ultimately show ?thesis using provisioning_monotone [of "''a''" ex_registry "ex_resource ''a'' 2"] by metis
qed

text \<open>
  C26 require_authorised. From an empty registry, through any sequence of validated provisioning
  records, \<open>require\<close> returns a record only for the resource, tenant and zone it was asked for, only
  while that resource is enabled, and only within the validated physical envelope.
\<close>

theorem require_authorised:
  assumes "\<forall>p \<in> set ps. \<exists>i. mk_resource i = Inr p"
    and "require rid z t (foldl try_register [] ps) = Inr p"
  shows "p_resource_id p = rid \<and> p_zone_id p = z \<and> p_tenant_id p = t \<and> p_enabled p \<and> resource_ok p"
proof -
  have "registry_inv (foldl try_register [] ps)"
    by (rule foldl_invariant) (use assms(1) mk_resource_envelope in \<open>auto intro: try_register_inv\<close>)
  then show ?thesis
    using mem_registry.req_identity mem_registry.req_enabled mem_registry.req_envelope assms(2) by blast
qed

definition ex_resource_input :: "string \<Rightarrow> int \<Rightarrow> resource_input" where
  "ex_resource_input rid n = \<lparr> p_resource_id = rid, p_zone_id = ''Z'', p_resource_type = BATTERY,
     p_min_power_kw = Fin (-5), p_max_power_kw = Fin 5, p_min_energy_kwh = Fin 1,
     p_max_energy_kwh = Fin 13, p_initial_energy_kwh = Fin 7, p_ramp_rate_kw_per_min = Fin 5,
     p_provisioning_version = n, p_provisioned_at = Aware 0 0, p_enabled = True,
     p_tenant_id = ''T'' \<rparr>"

lemma ex_resource_made: "1 \<le> n \<Longrightarrow> 1 \<le> length rid \<Longrightarrow> length rid \<le> 128 \<Longrightarrow>
    mk_resource (ex_resource_input rid n) = Inr (ex_resource rid n)"
  by (simp add: mk_resource_def resource_fields_ok_def ex_resource_input_def num_between_def
      validate_envelope_def fin_val_def tz_aware_def resource_values_def ex_resource_def instant_of_def)

theorem require_authorised_witness:
  "\<exists>p. require ''a'' ''Z'' ''T'' ex_registry = Inr p \<and> p_enabled p \<and> p_max_power_kw p \<le> 100000"
proof -
  let ?ps = "[ex_resource ''a'' 2, ex_resource ''b'' 1]"
  have made: "\<forall>p \<in> set ?ps. \<exists>i. mk_resource i = Inr p"
    using ex_resource_made [of 2 "''a''"] ex_resource_made [of 1 "''b''"] by auto
  have "require ''a'' ''Z'' ''T'' (foldl try_register [] ?ps) = Inr (ex_resource ''a'' 2)" by code_simp
  from require_authorised [OF made this] this show ?thesis
    by (auto simp: ex_registry_def resource_ok_def)
qed

end
