(* ===== verification/OfferStore.thy ===== *)
theory OfferStore
  imports Models
begin

text \<open>
  The in-memory offer store, \<open>domain/store.py\<close>: normalised offers per resource with monotone
  source positions, the published cohorts and suppressed cells that protect publication, the
  privacy query budget and the publication snapshots. The methods run under one lock, so each is
  one atomic step on the state.
\<close>

section \<open>State\<close>

type_synonym offer_key = "string \<times> string \<times> string \<times> instant \<times> consequence"
type_synonym position = "int \<times> int"
type_synonym resource_key = "string \<times> string"
type_synonym group_key = "instant \<times> instant \<times> consequence"
type_synonym snapshot_key = "string \<times> string \<times> instant \<times> instant \<times> instant \<times> consequence"

record offer_store =
  minimum_participants :: int
  offers :: "(offer_key, offer) dict"
  source_positions :: "(resource_key, position) dict"
  disconnected_resources :: "resource_key set"
  published_cohorts :: "(cell, string set) dict"
  suppressed_cells :: "cell set"
  privacy_query_counts :: "(string \<times> instant, int) dict"
  privacy_snapshots :: "(snapshot_key, aggregate) dict"

datatype store_error = StaleOfferError | OfferVersionConflict | StoreValueError

definition new_store :: "int \<Rightarrow> store_error + offer_store" where
  "new_store k =
     (if k < 1 then Inl StoreValueError
      else Inr \<lparr> minimum_participants = k, offers = [], source_positions = [],
        disconnected_resources = {}, published_cohorts = [], suppressed_cells = {},
        privacy_query_counts = [], privacy_snapshots = [] \<rparr>)"

definition offer_key :: "offer \<Rightarrow> offer_key" where
  "offer_key f = (o_tenant_id f, o_resource_id f, o_zone_id f, o_interval_start f,
     o_consequence_type f)"

definition offer_position :: "offer \<Rightarrow> position" where
  "offer_position f = (o_source_epoch f, o_source_sequence f)"

definition offer_resource_key :: "offer \<Rightarrow> resource_key" where
  "offer_resource_key f = (o_tenant_id f, o_resource_id f)"

section \<open>Privacy budget and snapshots\<close>

definition consume_privacy_query ::
    "string \<Rightarrow> instant \<Rightarrow> int \<Rightarrow> offer_store \<Rightarrow> offer_store \<times> bool" where
  "consume_privacy_query tenant_id window_start limit s =
     (let key = (tenant_id, window_start);
          current = (case dict_get key (privacy_query_counts s) of None \<Rightarrow> 0 | Some n \<Rightarrow> n)
      in if current \<ge> limit then (s, False)
         else (s\<lparr>privacy_query_counts := dict_set key (current + 1) (privacy_query_counts s)\<rparr>,
               True))"

definition snapshot_key :: "string \<Rightarrow> string \<Rightarrow> instant \<Rightarrow> aggregate \<Rightarrow> snapshot_key" where
  "snapshot_key tenant_id zone_id epoch g =
     (tenant_id, zone_id, epoch, g_interval_start g, g_interval_end g, g_consequence_type g)"

definition snapshot_matches ::
    "string \<Rightarrow> string \<Rightarrow> instant \<Rightarrow> instant \<Rightarrow> instant \<Rightarrow> snapshot_key \<Rightarrow> bool" where
  "snapshot_matches tenant_id zone_id epoch start finish k =
     (case k of (t, z, e, interval_start, interval_end, _) \<Rightarrow>
        t = tenant_id \<and> z = zone_id \<and> e = epoch \<and> interval_start \<ge> start \<and> interval_end \<le> finish)"

definition aggregate_order :: "aggregate \<Rightarrow> instant \<times> instant \<times> consequence" where
  "aggregate_order g = (g_interval_start g, g_interval_end g, g_consequence_type g)"

definition publish_privacy_snapshot ::
    "string \<Rightarrow> string \<Rightarrow> instant \<Rightarrow> instant \<Rightarrow> instant \<Rightarrow> aggregate list \<Rightarrow> offer_store
     \<Rightarrow> offer_store \<times> aggregate list" where
  "publish_privacy_snapshot tenant_id zone_id epoch start finish candidates s =
     (let snapshots = foldl (\<lambda>d c. dict_setdefault (snapshot_key tenant_id zone_id epoch c) c d)
            (privacy_snapshots s) candidates
      in (s\<lparr>privacy_snapshots := snapshots\<rparr>,
          sort_key aggregate_order
            (dict_values (filter (\<lambda>(k, g). snapshot_matches tenant_id zone_id epoch start finish k)
               snapshots))))"

section \<open>Upsert and removal\<close>

definition suppress_if_published :: "cell \<Rightarrow> offer_store \<Rightarrow> offer_store" where
  "suppress_if_published c s =
     (case dict_get c (published_cohorts s) of
        None \<Rightarrow> s
      | Some _ \<Rightarrow> s\<lparr>suppressed_cells := insert c (suppressed_cells s)\<rparr>)"

text \<open>Taking one offer out of the store, suppressing its cell if that was ever published.\<close>

definition drop_offer :: "offer_store \<Rightarrow> offer_key \<Rightarrow> offer_store" where
  "drop_offer s k =
     (case dict_get k (offers s) of
        None \<Rightarrow> s
      | Some f \<Rightarrow> (suppress_if_published (offer_cell f) s)\<lparr>offers := dict_del k (offers s)\<rparr>)"

definition obsolete_keys :: "offer \<Rightarrow> offer_store \<Rightarrow> offer_key list" where
  "obsolete_keys f s =
     List.map fst (filter (\<lambda>(k, e). o_resource_id e = o_resource_id f \<and> o_tenant_id e = o_tenant_id f
       \<and> offer_position e < offer_position f) (offers s))"

definition store_offer :: "offer \<Rightarrow> offer_store \<Rightarrow> offer_store \<times> (store_error + unit)" where
  "store_offer f s =
     (case dict_get (offer_key f) (offers s) of
        Some previous \<Rightarrow>
          if previous = f then (s, Inr ())
          else if offer_position f = offer_position previous then (s, Inl OfferVersionConflict)
          else ((suppress_if_published (offer_cell f) s)
                  \<lparr>offers := dict_set (offer_key f) f (offers s)\<rparr>, Inr ())
      | None \<Rightarrow> ((suppress_if_published (offer_cell f) s)
                  \<lparr>offers := dict_set (offer_key f) f (offers s)\<rparr>, Inr ()))"

definition advance_source :: "offer \<Rightarrow> offer_store \<Rightarrow> offer_store" where
  "advance_source f s =
     s\<lparr>source_positions := dict_set (offer_resource_key f) (offer_position f) (source_positions s),
       disconnected_resources := disconnected_resources s - {offer_resource_key f}\<rparr>"

definition upsert :: "offer \<Rightarrow> offer_store \<Rightarrow> offer_store \<times> (store_error + unit)" where
  "upsert f s =
     (case dict_get (offer_resource_key f) (source_positions s) of
        None \<Rightarrow> store_offer f (advance_source f s)
      | Some p \<Rightarrow>
          if offer_resource_key f \<in> disconnected_resources s \<and> offer_position f \<le> p
            then (s, Inl StaleOfferError)
          else if offer_position f < p then (s, Inl StaleOfferError)
          else if offer_position f > p
            then store_offer f (advance_source f (foldl drop_offer s (obsolete_keys f s)))
          else store_offer f (advance_source f s))"

definition resource_offer_keys :: "string \<Rightarrow> string \<Rightarrow> offer_store \<Rightarrow> offer_key list" where
  "resource_offer_keys resource_id tenant_id s =
     List.map fst (filter (\<lambda>(k, f). o_resource_id f = resource_id \<and> o_tenant_id f = tenant_id)
       (offers s))"

definition remove_resource :: "string \<Rightarrow> string \<Rightarrow> offer_store \<Rightarrow> offer_store \<times> nat" where
  "remove_resource resource_id tenant_id s =
     (let ks = resource_offer_keys resource_id tenant_id s; s' = foldl drop_offer s ks
      in (if ks \<noteq> [] then
            s'\<lparr>disconnected_resources := insert (tenant_id, resource_id) (disconnected_resources s')\<rparr>
          else s', length ks))"

section \<open>Zones, eligible offers and the aggregate query\<close>

definition add_participant ::
    "string \<Rightarrow> instant \<Rightarrow> (string, string set) dict \<Rightarrow> offer \<Rightarrow> (string, string set) dict" where
  "add_participant tenant_id now counts f =
     (if o_tenant_id f = tenant_id \<and> o_expires_at f \<ge> now then
        dict_set (o_zone_id f) (insert (o_resource_id f)
          (case dict_get (o_zone_id f) counts of None \<Rightarrow> {} | Some ps \<Rightarrow> ps)) counts
      else counts)"

definition zones :: "string \<Rightarrow> instant \<Rightarrow> offer_store \<Rightarrow> string list" where
  "zones tenant_id now s =
     sort (List.map fst (filter (\<lambda>(z, ps). int (card ps) \<ge> minimum_participants s)
       (foldl (add_participant tenant_id now) [] (dict_values (offers s)))))"

definition eligible_offers ::
    "string \<Rightarrow> string \<Rightarrow> instant \<Rightarrow> instant \<Rightarrow> consequence \<Rightarrow> instant \<Rightarrow> offer_store \<Rightarrow> offer list" where
  "eligible_offers tenant_id zone_id start finish consequence_type now s =
     sort_key o_resource_id (filter (\<lambda>f. o_zone_id f = zone_id \<and> o_tenant_id f = tenant_id \<and>
       o_interval_start f = start \<and> o_interval_end f = finish \<and>
       o_consequence_type f = consequence_type \<and> o_expires_at f \<ge> now) (dict_values (offers s)))"

definition in_window :: "string \<Rightarrow> string \<Rightarrow> instant \<Rightarrow> instant \<Rightarrow> instant \<Rightarrow> offer \<Rightarrow> bool" where
  "in_window tenant_id zone_id start finish now f \<longleftrightarrow>
     \<not> (o_tenant_id f \<noteq> tenant_id \<or> o_zone_id f \<noteq> zone_id \<or> o_expires_at f < now) \<and>
     \<not> (o_interval_start f < start \<or> o_interval_end f > finish)"

definition offer_group :: "offer \<Rightarrow> group_key" where
  "offer_group f = (o_interval_start f, o_interval_end f, o_consequence_type f)"

definition add_to_group ::
    "(group_key, offer list) dict \<Rightarrow> offer \<Rightarrow> (group_key, offer list) dict" where
  "add_to_group groups f =
     dict_set (offer_group f)
       ((case dict_get (offer_group f) groups of None \<Rightarrow> [] | Some fs \<Rightarrow> fs) @ [f]) groups"

definition cohort_of :: "offer list \<Rightarrow> string set" where
  "cohort_of fs = set (List.map o_resource_id fs)"

definition adjacent_change :: "cell \<Rightarrow> string set \<Rightarrow> (cell, string set) dict \<Rightarrow> bool" where
  "adjacent_change c cohort published \<longleftrightarrow>
     (case c of (tenant_id, zone_id, interval_start, interval_end, consequence_type) \<Rightarrow>
        list_ex (\<lambda>((t, z, published_start, published_end, q), published_cohort).
          t = tenant_id \<and> z = zone_id \<and> q = consequence_type \<and>
          (published_end = interval_start \<or> interval_end = published_start) \<and>
          published_cohort \<noteq> cohort) published)"

definition offer_weight :: "offer \<Rightarrow> rat" where
  "offer_weight f = fadd (o_upward_capacity_kw f) (o_downward_capacity_kw f)"

definition mean_confidence :: "offer list \<Rightarrow> rat" where
  "mean_confidence fs =
     (let total_weight = fsum (List.map offer_weight fs)
      in if total_weight \<noteq> 0
         then fdiv (fsum (List.map (\<lambda>f. fmul (o_confidence f) (offer_weight f)) fs)) total_weight
         else Min (set (List.map o_confidence fs)))"

definition aggregate_offers :: "cell \<Rightarrow> instant \<Rightarrow> offer list \<Rightarrow> aggregate" where
  "aggregate_offers c now fs =
     (case c of (tenant_id, zone_id, interval_start, interval_end, consequence_type) \<Rightarrow>
        \<lparr> g_zone_id = zone_id, g_interval_start = interval_start, g_interval_end = interval_end,
          g_baseline_power_kw = py_round (fsum (List.map o_baseline_power_kw fs)) 6,
          g_upward_capacity_kw = py_round (fsum (List.map o_upward_capacity_kw fs)) 6,
          g_downward_capacity_kw = py_round (fsum (List.map o_downward_capacity_kw fs)) 6,
          g_upward_energy_kwh = py_round (fsum (List.map o_upward_energy_kwh fs)) 6,
          g_downward_energy_kwh = py_round (fsum (List.map o_downward_energy_kwh fs)) 6,
          g_participant_count = int (card (cohort_of fs)),
          g_confidence = py_round (mean_confidence fs) 6,
          g_product_class = BEST_EFFORT_PEBC, g_consequence_type = consequence_type,
          g_generated_at = now, g_tenant_id = tenant_id \<rparr>)"

text \<open>One iteration of the loop over the groups: \<open>None\<close> is \<open>continue\<close>.\<close>

definition query_suppress :: "cell \<Rightarrow> string set \<Rightarrow> offer_store \<Rightarrow> offer_store" where
  "query_suppress c cohort s =
     (let changed = (case dict_get c (published_cohorts s) of
              None \<Rightarrow> False | Some previous \<Rightarrow> previous \<noteq> cohort)
      in if changed \<or> adjacent_change c cohort (published_cohorts s)
         then s\<lparr>suppressed_cells := insert c (suppressed_cells s)\<rparr> else s)"

definition query_group ::
    "string \<Rightarrow> string \<Rightarrow> instant \<Rightarrow> group_key \<times> offer list \<Rightarrow> offer_store
     \<Rightarrow> offer_store \<times> (model_error + aggregate option)" where
  "query_group tenant_id zone_id now grp s =
     (let c = (tenant_id, zone_id, fst grp); fs = snd grp; cohort = cohort_of fs;
          s1 = query_suppress c cohort s
      in if c \<in> suppressed_cells s1 \<or> int (card cohort) < minimum_participants s1
         then (s1, Inr None)
         else case mk_aggregate (aggregate_offers c now fs) of
                Inl e \<Rightarrow> (s1, Inl e)
              | Inr g \<Rightarrow> (s1\<lparr>published_cohorts := dict_set c cohort (published_cohorts s1)\<rparr>,
                           Inr (Some g)))"

fun query_groups ::
    "string \<Rightarrow> string \<Rightarrow> instant \<Rightarrow> (group_key \<times> offer list) list \<Rightarrow> offer_store
     \<Rightarrow> offer_store \<times> (model_error + aggregate list)" where
  "query_groups tenant_id zone_id now [] s = (s, Inr [])"
| "query_groups tenant_id zone_id now (grp # groups) s =
     (case query_group tenant_id zone_id now grp s of
        (s', Inl e) \<Rightarrow> (s', Inl e)
      | (s', Inr r) \<Rightarrow>
          (case query_groups tenant_id zone_id now groups s' of
             (s'', Inl e) \<Rightarrow> (s'', Inl e)
           | (s'', Inr gs) \<Rightarrow> (s'', Inr ((case r of None \<Rightarrow> [] | Some g \<Rightarrow> [g]) @ gs))))"

definition window_groups ::
    "string \<Rightarrow> string \<Rightarrow> instant \<Rightarrow> instant \<Rightarrow> instant \<Rightarrow> offer_store
     \<Rightarrow> (group_key, offer list) dict" where
  "window_groups tenant_id zone_id start finish now s =
     sort_key fst (foldl add_to_group []
       (filter (in_window tenant_id zone_id start finish now) (dict_values (offers s))))"

definition query ::
    "string \<Rightarrow> instant \<Rightarrow> instant \<Rightarrow> string \<Rightarrow> instant \<Rightarrow> offer_store
     \<Rightarrow> offer_store \<times> (model_error + aggregate list)" where
  "query zone_id start finish tenant_id now s =
     query_groups tenant_id zone_id now (window_groups tenant_id zone_id start finish now s) s"

section \<open>Frame and fold lemmas\<close>

lemma suppress_if_published_frame [frame_simps, simp]:
  "offers (suppress_if_published c s) = offers s"
  "minimum_participants (suppress_if_published c s) = minimum_participants s"
  "source_positions (suppress_if_published c s) = source_positions s"
  "disconnected_resources (suppress_if_published c s) = disconnected_resources s"
  "published_cohorts (suppress_if_published c s) = published_cohorts s"
  "privacy_query_counts (suppress_if_published c s) = privacy_query_counts s"
  "privacy_snapshots (suppress_if_published c s) = privacy_snapshots s"
  by (simp_all add: suppress_if_published_def split: option.splits)

lemma suppressed_suppress_if_published:
  "suppressed_cells (suppress_if_published c s) =
     suppressed_cells s \<union> (if dict_get c (published_cohorts s) = None then {} else {c})"
  by (auto simp: suppress_if_published_def split: option.splits)

lemma drop_offer_offers: "offers (drop_offer s k) = filter (\<lambda>(k', f). k' \<noteq> k) (offers s)"
proof (cases "dict_get k (offers s)")
  case None
  then have "filter (\<lambda>(k', f). k' \<noteq> k) (offers s) = offers s"
    by (force simp: dict_get_None_iff filter_id_conv)
  then show ?thesis using None by (simp add: drop_offer_def)
next
  case (Some f)
  then show ?thesis by (simp add: drop_offer_def dict_del_filter)
qed

lemma drop_offer_frame [frame_simps, simp]:
  "minimum_participants (drop_offer s k) = minimum_participants s"
  "source_positions (drop_offer s k) = source_positions s"
  "disconnected_resources (drop_offer s k) = disconnected_resources s"
  "published_cohorts (drop_offer s k) = published_cohorts s"
  "privacy_query_counts (drop_offer s k) = privacy_query_counts s"
  "privacy_snapshots (drop_offer s k) = privacy_snapshots s"
  by (simp_all add: drop_offer_def split: option.splits)

lemma drop_offer_suppressed:
  "suppressed_cells (drop_offer s k) = suppressed_cells s \<union>
     {c. \<exists>f. dict_get k (offers s) = Some f \<and> c = offer_cell f \<and> dict_get c (published_cohorts s) \<noteq> None}"
  by (auto simp: drop_offer_def suppressed_suppress_if_published split: option.splits)

lemma drop_offers_offers:
  "offers (foldl drop_offer s ks) = filter (\<lambda>(k, f). k \<notin> set ks) (offers s)"
proof (induction ks arbitrary: s)
  case (Cons k ks)
  show ?case
    by (simp add: Cons.IH drop_offer_offers) (rule filter_cong, auto)
qed simp

lemma drop_offers_frame [frame_simps, simp]:
  "minimum_participants (foldl drop_offer s ks) = minimum_participants s"
  "source_positions (foldl drop_offer s ks) = source_positions s"
  "disconnected_resources (foldl drop_offer s ks) = disconnected_resources s"
  "published_cohorts (foldl drop_offer s ks) = published_cohorts s"
  "privacy_query_counts (foldl drop_offer s ks) = privacy_query_counts s"
  "privacy_snapshots (foldl drop_offer s ks) = privacy_snapshots s"
  by (induction ks arbitrary: s) simp_all

lemma drop_offers_suppressed:
  "dict_ok (offers s) \<Longrightarrow> suppressed_cells (foldl drop_offer s ks) = suppressed_cells s \<union>
     {c. \<exists>k \<in> set ks. \<exists>f. dict_get k (offers s) = Some f \<and> c = offer_cell f
       \<and> dict_get c (published_cohorts s) \<noteq> None}"
proof (induction ks arbitrary: s)
  case (Cons k ks)
  have ok: "dict_ok (offers (drop_offer s k))"
    using Cons.prems by (simp add: drop_offer_offers)
  have get: "dict_get k' (offers (drop_offer s k)) = (if k' \<noteq> k then dict_get k' (offers s) else None)" for k'
    unfolding drop_offer_offers by (subst dict_get_filter_key) auto
  show ?case
    by (simp add: Cons.IH [OF ok] drop_offer_suppressed get) auto
qed simp

section \<open>The invariant of the store\<close>

definition store_inv :: "offer_store \<Rightarrow> bool" where
  "store_inv s \<longleftrightarrow> 1 \<le> minimum_participants s \<and> dict_ok (offers s) \<and>
     (\<forall>(k, f) \<in> set (offers s). k = offer_key f \<and> offer_ok f \<and>
        dict_get (offer_resource_key f) (source_positions s) = Some (offer_position f) \<and>
        offer_resource_key f \<notin> disconnected_resources s)"

lemma store_inv_new: "new_store k = Inr s \<Longrightarrow> store_inv s"
  by (auto simp: new_store_def store_inv_def split: if_splits)

lemma store_invD:
  assumes "store_inv s" "(k, f) \<in> set (offers s)"
  shows "k = offer_key f" "offer_ok f"
    "dict_get (offer_resource_key f) (source_positions s) = Some (offer_position f)"
    "offer_resource_key f \<notin> disconnected_resources s"
  using assms by (auto simp: store_inv_def)

lemma offer_key_resource_key: "offer_key f = offer_key g \<Longrightarrow> offer_resource_key f = offer_resource_key g"
  by (simp add: offer_key_def offer_resource_key_def)

text \<open>The offers that survive the arrival of \<open>f\<close>.\<close>

definition surviving :: "offer \<Rightarrow> offer_store \<Rightarrow> (offer_key, offer) dict" where
  "surviving f s = filter (\<lambda>(k, e). \<not> (offer_resource_key e = offer_resource_key f
     \<and> offer_position e < offer_position f)) (offers s)"

lemma obsolete_keys_set:
  assumes "store_inv s"
  shows "k \<in> set (obsolete_keys f s) \<longleftrightarrow>
    (\<exists>e. (k, e) \<in> set (offers s) \<and> offer_resource_key e = offer_resource_key f
      \<and> offer_position e < offer_position f)"
  by (force simp: obsolete_keys_def offer_resource_key_def)

lemma drop_obsolete_offers:
  assumes "store_inv s"
  shows "offers (foldl drop_offer s (obsolete_keys f s)) = surviving f s"
proof -
  have ok: "dict_ok (offers s)" using assms by (simp add: store_inv_def)
  show ?thesis unfolding drop_offers_offers surviving_def
  proof (rule filter_cong [OF refl])
    fix p assume p: "p \<in> set (offers s)"
    obtain k e where [simp]: "p = (k, e)" by (cases p)
    have "e' = e" if "(k, e') \<in> set (offers s)" for e'
      using p that ok by (metis \<open>p = (k, e)\<close> dict_get_iff_in option.inject)
    then have "k \<in> set (obsolete_keys f s) \<longleftrightarrow>
        offer_resource_key e = offer_resource_key f \<and> offer_position e < offer_position f"
      using obsolete_keys_set [OF assms, of k f] p \<open>p = (k, e)\<close> by metis
    then show "(case p of (k, f') \<Rightarrow> k \<notin> set (obsolete_keys f s)) =
      (case p of (k, e) \<Rightarrow> \<not> (offer_resource_key e = offer_resource_key f \<and> offer_position e < offer_position f))"
      by simp
  qed
qed

lemma surviving_id:
  assumes "store_inv s"
    and "\<And>p. dict_get (offer_resource_key f) (source_positions s) = Some p \<Longrightarrow> \<not> p < offer_position f"
  shows "surviving f s = offers s"
proof -
  have "\<not> (offer_resource_key e = offer_resource_key f \<and> offer_position e < offer_position f)"
    if "(k, e) \<in> set (offers s)" for k e
    using store_invD(3) [OF assms(1) that] assms(2) [of "offer_position e"] by force
  then show ?thesis unfolding surviving_def filter_id_conv by blast
qed

lemma store_inv_key_resource:
  assumes "store_inv s" "dict_get (offer_key f) (offers s) = Some e"
  shows "offer_resource_key e = offer_resource_key f"
    "dict_get (offer_resource_key f) (source_positions s) = Some (offer_position e)"
proof -
  note e = store_invD [OF assms(1) dict_get_Some_in [OF assms(2)]]
  show "offer_resource_key e = offer_resource_key f"
    using e(1) offer_key_resource_key by metis
  then show "dict_get (offer_resource_key f) (source_positions s) = Some (offer_position e)"
    using e(3) by simp
qed

lemma surviving_none:
  assumes "store_inv s"
    and "dict_get (offer_resource_key f) (source_positions s) = Some p" "p < offer_position f"
  shows "dict_get (offer_key f) (surviving f s) = None"
proof (rule ccontr)
  assume "\<not> ?thesis"
  then obtain e where e: "dict_get (offer_key f) (surviving f s) = Some e" by auto
  then have surv: "(offer_key f, e) \<in> set (surviving f s)" by (rule dict_get_Some_in)
  then have mem: "(offer_key f, e) \<in> set (offers s)" by (simp add: surviving_def)
  have "dict_ok (offers s)" using assms(1) by (simp add: store_inv_def)
  then have "dict_get (offer_key f) (offers s) = Some e" using mem by (simp add: dict_get_iff_in)
  note k = store_inv_key_resource [OF assms(1) this]
  then show False using surv assms(2,3) by (auto simp: surviving_def)
qed

text \<open>
  The four outcomes of an upsert under the invariant: rejected as stale, rejected as a conflict or
  accepted as a replay with the state unchanged, or accepted as a new entry at the end of the
  dictionary.
\<close>

definition upsert_stored :: "offer \<Rightarrow> offer_store \<Rightarrow> offer_store \<Rightarrow> bool" where
  "upsert_stored f s s' \<longleftrightarrow>
     offers s' = surviving f s @ [(offer_key f, f)] \<and>
     dict_get (offer_key f) (surviving f s) = None \<and>
     (\<forall>p. dict_get (offer_resource_key f) (source_positions s) = Some p \<longrightarrow> p \<le> offer_position f) \<and>
     source_positions s' = dict_set (offer_resource_key f) (offer_position f) (source_positions s) \<and>
     disconnected_resources s' = disconnected_resources s - {offer_resource_key f} \<and>
     minimum_participants s' = minimum_participants s \<and>
     published_cohorts s' = published_cohorts s \<and>
     privacy_query_counts s' = privacy_query_counts s \<and>
     privacy_snapshots s' = privacy_snapshots s \<and>
     suppressed_cells s' = suppressed_cells s \<union>
       {c. dict_get c (published_cohorts s) \<noteq> None \<and>
           (c = offer_cell f \<or> (\<exists>k e. (k, e) \<in> set (offers s) - set (surviving f s) \<and> c = offer_cell e))}"

lemma store_offer_new:
  assumes "dict_get (offer_key f) (offers s) = None"
  shows "store_offer f s = ((suppress_if_published (offer_cell f) s)
    \<lparr>offers := offers s @ [(offer_key f, f)]\<rparr>, Inr ())"
  using assms by (simp add: store_offer_def dict_set_new)

lemma guarded_insert:
  "S = A \<union> {c. P c \<noteq> None \<and> Q c} \<union> (if P x = None then {} else {x}) \<Longrightarrow>
     S = A \<union> {c. P c \<noteq> None \<and> (c = x \<or> Q c)}"
  by auto

lemma store_offer_stored:
  assumes "offers s1 = surviving f s" "dict_get (offer_key f) (surviving f s) = None"
    and "\<And>p. dict_get (offer_resource_key f) (source_positions s) = Some p \<Longrightarrow> p \<le> offer_position f"
    and "source_positions s1 = source_positions s" "disconnected_resources s1 = disconnected_resources s"
      "minimum_participants s1 = minimum_participants s" "published_cohorts s1 = published_cohorts s"
      "privacy_query_counts s1 = privacy_query_counts s" "privacy_snapshots s1 = privacy_snapshots s"
    and supp: "suppressed_cells s1 = suppressed_cells s \<union> {c. dict_get c (published_cohorts s) \<noteq> None \<and>
          (\<exists>k e. (k, e) \<in> set (offers s) - set (surviving f s) \<and> c = offer_cell e)}"
  shows "\<exists>s'. store_offer f (advance_source f s1) = (s', Inr ()) \<and> upsert_stored f s s'"
proof -
  let ?s2 = "advance_source f s1"
  let ?s3 = "(suppress_if_published (offer_cell f) ?s2)\<lparr>offers := offers ?s2 @ [(offer_key f, f)]\<rparr>"
  have "dict_get (offer_key f) (offers ?s2) = None" using assms(1,2) by (simp add: advance_source_def)
  then have "store_offer f ?s2 = (?s3, Inr ())" by (rule store_offer_new)
  moreover have "suppressed_cells ?s3 = suppressed_cells s1 \<union>
      (if dict_get (offer_cell f) (published_cohorts s) = None then {} else {offer_cell f})"
    using assms(7) by (simp add: suppressed_suppress_if_published advance_source_def)
  then have "suppressed_cells ?s3 = suppressed_cells s \<union> {c. dict_get c (published_cohorts s) \<noteq> None \<and>
      (c = offer_cell f \<or> (\<exists>k e. (k, e) \<in> set (offers s) - set (surviving f s) \<and> c = offer_cell e))}"
    unfolding supp by (rule guarded_insert)
  then have "upsert_stored f s ?s3"
    unfolding upsert_stored_def using assms by (simp add: advance_source_def)
  ultimately show ?thesis by blast
qed

lemma store_offer_stored_id:
  assumes "surviving f s = offers s" "dict_get (offer_key f) (offers s) = None"
    and "\<And>p. dict_get (offer_resource_key f) (source_positions s) = Some p \<Longrightarrow> p \<le> offer_position f"
  shows "\<exists>s'. store_offer f (advance_source f s) = (s', Inr ()) \<and> upsert_stored f s s'"
  by (rule store_offer_stored) (simp_all add: assms)

lemma upsert_outcome:
  assumes inv: "store_inv s"
  shows "(\<exists>e. upsert f s = (s, Inl e)) \<or>
    (upsert f s = (s, Inr ()) \<and> dict_get (offer_key f) (offers s) = Some f) \<or>
    (\<exists>s'. upsert f s = (s', Inr ()) \<and> upsert_stored f s s')"
proof -
  let ?rk = "offer_resource_key f" and ?pos = "offer_position f"
  have ok: "dict_ok (offers s)" using inv by (simp add: store_inv_def)
  show ?thesis
  proof (cases "dict_get ?rk (source_positions s)")
    case None
    have surv: "surviving f s = offers s" using inv None by (intro surviving_id) simp_all
    have none: "dict_get (offer_key f) (offers s) = None"
      using None store_inv_key_resource(2) [OF inv] by (cases "dict_get (offer_key f) (offers s)") auto
    have "upsert f s = store_offer f (advance_source f s)" using None by (simp add: upsert_def)
    then show ?thesis using store_offer_stored_id [OF surv none] None by simp
  next
    case (Some p)
    consider (old) "?pos < p \<or> (?rk \<in> disconnected_resources s \<and> ?pos \<le> p)"
      | (same) "?pos = p" "?rk \<notin> disconnected_resources s" | (new) "p < ?pos"
      using linorder_less_linear [of ?pos p] by blast
    then show ?thesis
    proof cases
      case old
      then have "upsert f s = (s, Inl StaleOfferError)" using Some by (auto simp: upsert_def)
      then show ?thesis by blast
    next
      case same
      have s1: "advance_source f s = s" using Some same by (simp add: advance_source_def dict_set_same)
      then have up: "upsert f s = store_offer f s" using Some same by (simp add: upsert_def)
      have surv: "surviving f s = offers s" using inv Some same by (intro surviving_id) simp_all
      show ?thesis
      proof (cases "dict_get (offer_key f) (offers s)")
        case None
        then show ?thesis using store_offer_stored_id [OF surv None] up s1 Some same by simp
      next
        case prev: (Some g)
        have "offer_position f = offer_position g"
          using store_inv_key_resource(2) [OF inv prev] same Some by simp
        then show ?thesis using up prev by (simp add: store_offer_def)
      qed
    next
      case new
      let ?s1 = "foldl drop_offer s (obsolete_keys f s)"
      have surv: "offers ?s1 = surviving f s" by (rule drop_obsolete_offers [OF inv])
      have none: "dict_get (offer_key f) (surviving f s) = None" by (rule surviving_none [OF inv Some new])
      have "(k, e) \<in> set (offers s) - set (surviving f s) \<longleftrightarrow>
        k \<in> set (obsolete_keys f s) \<and> dict_get k (offers s) = Some e" for k e
        unfolding surv [symmetric] drop_offers_offers using ok by (auto simp: dict_get_iff_in)
      then have supp: "suppressed_cells ?s1 = suppressed_cells s \<union> {c. dict_get c (published_cohorts s) \<noteq> None \<and>
          (\<exists>k e. (k, e) \<in> set (offers s) - set (surviving f s) \<and> c = offer_cell e)}"
        unfolding drop_offers_suppressed [OF ok] by blast
      have "\<not> ?pos \<le> p" "\<not> ?pos < p" using new by (simp_all add: not_le leD less_imp_le)
      then have "upsert f s = store_offer f (advance_source f ?s1)"
        using Some new by (simp add: upsert_def)
      then show ?thesis
        using store_offer_stored [OF surv none _ _ _ _ _ _ _ supp] Some new by (simp add: less_imp_le)
    qed
  qed
qed

lemma upsert_stored_sets:
  assumes "upsert_stored f s s'"
  shows "set (offers s') = set (surviving f s) \<union> {(offer_key f, f)}"
    "\<And>p. dict_get (offer_resource_key f) (source_positions s) = Some p \<Longrightarrow> p \<le> offer_position f"
    "dict_get rk (source_positions s') =
       (if rk = offer_resource_key f then Some (offer_position f) else dict_get rk (source_positions s))"
    "disconnected_resources s' = disconnected_resources s - {offer_resource_key f}"
    "offers s' = dict_set (offer_key f) f (surviving f s)"
  using assms by (simp_all add: upsert_stored_def dict_get_set dict_set_new)

lemma survivingD:
  assumes "(k, e) \<in> set (surviving f s)"
  shows "(k, e) \<in> set (offers s)"
    "offer_resource_key e = offer_resource_key f \<Longrightarrow> offer_position f \<le> offer_position e"
proof -
  show "(k, e) \<in> set (offers s)" using assms by (simp add: surviving_def)
  assume "offer_resource_key e = offer_resource_key f"
  then have "\<not> offer_position e < offer_position f" using assms by (simp add: surviving_def)
  then show "offer_position f \<le> offer_position e" by (rule leI)
qed

lemma store_invI:
  assumes "1 \<le> minimum_participants s" "dict_ok (offers s)"
    and "\<And>k f. (k, f) \<in> set (offers s) \<Longrightarrow> k = offer_key f \<and> offer_ok f \<and>
        dict_get (offer_resource_key f) (source_positions s) = Some (offer_position f) \<and>
        offer_resource_key f \<notin> disconnected_resources s"
  shows "store_inv s"
  unfolding store_inv_def by (intro conjI ballI case_prodI2) (use assms in blast)+

lemma upsert_stored_inv:
  assumes inv: "store_inv s" and f: "offer_ok f" and st: "upsert_stored f s s'"
  shows "store_inv s'"
proof (rule store_invI)
  show "1 \<le> minimum_participants s'" using inv st by (simp add: store_inv_def upsert_stored_def)
  have "dict_ok (surviving f s)" using inv by (simp add: surviving_def store_inv_def)
  then show "dict_ok (offers s')"
    unfolding upsert_stored_sets(5) [OF st] by (rule dict_ok_set)
  fix k e assume "(k, e) \<in> set (offers s')"
  then consider "k = offer_key f" "e = f" | (surv) "(k, e) \<in> set (surviving f s)"
    unfolding upsert_stored_sets(1) [OF st] by blast
  then show "k = offer_key e \<and> offer_ok e \<and>
      dict_get (offer_resource_key e) (source_positions s') = Some (offer_position e) \<and>
      offer_resource_key e \<notin> disconnected_resources s'"
  proof cases
    case 1
    then show ?thesis using f by (simp add: upsert_stored_sets(3,4) [OF st])
  next
    case surv
    note e = store_invD [OF inv survivingD(1) [OF surv]]
    have "offer_position e = offer_position f" if same: "offer_resource_key e = offer_resource_key f"
      using order_antisym [OF _ survivingD(2) [OF surv same]] e(3) same
        upsert_stored_sets(2) [OF st, of "offer_position e"] by simp
    then show ?thesis using e by (simp add: upsert_stored_sets(3,4) [OF st])
  qed
qed

lemma upsert_inv:
  assumes "store_inv s" "offer_ok f"
  shows "store_inv (fst (upsert f s))"
  using upsert_outcome [OF assms(1), of f] assms upsert_stored_inv by (metis fst_conv)

section \<open>Removal\<close>

lemma remove_resource_fields:
  assumes "remove_resource rid t s = (s', n)"
  shows "offers s' = filter (\<lambda>(k, f). k \<notin> set (resource_offer_keys rid t s)) (offers s)"
    "source_positions s' = source_positions s" "published_cohorts s' = published_cohorts s"
    "minimum_participants s' = minimum_participants s"
    "privacy_query_counts s' = privacy_query_counts s" "privacy_snapshots s' = privacy_snapshots s"
    "suppressed_cells s' = suppressed_cells (foldl drop_offer s (resource_offer_keys rid t s))"
    "disconnected_resources s' = disconnected_resources s \<union> (if n = 0 then {} else {(t, rid)})"
    "n = length (resource_offer_keys rid t s)"
  using assms by (cases "resource_offer_keys rid t s = []";
      clarsimp simp: remove_resource_def Let_def drop_offers_offers)+

lemma remove_keeps:
  assumes "store_inv s"
  shows "(k, f) \<in> set (filter (\<lambda>(k, f). k \<notin> set (resource_offer_keys rid t s)) (offers s)) \<longleftrightarrow>
    (k, f) \<in> set (offers s) \<and> offer_resource_key f \<noteq> (t, rid)"
proof -
  have ok: "dict_ok (offers s)" using assms by (simp add: store_inv_def)
  have keys: "k \<in> set (resource_offer_keys rid t s) \<longleftrightarrow>
      (\<exists>e. (k, e) \<in> set (offers s) \<and> offer_resource_key e = (t, rid))"
    unfolding resource_offer_keys_def offer_resource_key_def by (auto intro: rev_image_eqI)
  have uniq: "(k, f) \<in> set (offers s) \<Longrightarrow> (k, e) \<in> set (offers s) \<Longrightarrow> f = e" for e
    using ok by (metis dict_get_iff_in option.inject)
  have "(k, f) \<in> set (filter (\<lambda>(k, f). k \<notin> set (resource_offer_keys rid t s)) (offers s)) \<longleftrightarrow>
    (k, f) \<in> set (offers s) \<and> k \<notin> set (resource_offer_keys rid t s)" by simp
  then show ?thesis using keys uniq by metis
qed

lemma remove_resource_inv:
  assumes inv: "store_inv s" and rm: "remove_resource rid t s = (s', n)"
  shows "store_inv s'"
proof (rule store_invI)
  note fields = remove_resource_fields [OF rm]
  show "1 \<le> minimum_participants s'" using inv by (simp add: fields store_inv_def)
  show "dict_ok (offers s')" using inv unfolding fields(1) by (simp add: store_inv_def)
  fix k f assume "(k, f) \<in> set (offers s')"
  then have kept: "(k, f) \<in> set (offers s)" "offer_resource_key f \<noteq> (t, rid)"
    unfolding fields(1) remove_keeps [OF inv] by auto
  show "k = offer_key f \<and> offer_ok f \<and>
      dict_get (offer_resource_key f) (source_positions s') = Some (offer_position f) \<and>
      offer_resource_key f \<notin> disconnected_resources s'"
    using store_invD [OF inv kept(1)] kept(2) by (simp add: fields)
qed

section \<open>Grouping\<close>

lemma dict_ok_add_to_group: "dict_ok d \<Longrightarrow> dict_ok (foldl add_to_group d fs)"
  by (induction fs arbitrary: d) (auto simp: add_to_group_def)

lemma dict_get_add_to_groups:
  "dict_get g (foldl add_to_group d fs) =
     (let new = filter (\<lambda>f. offer_group f = g) fs
      in case dict_get g d of None \<Rightarrow> if new = [] then None else Some new | Some old \<Rightarrow> Some (old @ new))"
proof (induction fs arbitrary: d)
  case Nil
  then show ?case by (simp split: option.splits)
next
  case (Cons f fs)
  show ?case
    unfolding foldl.simps Cons.IH
    by (cases "offer_group f = g"; cases "dict_get g d")
      (simp_all add: add_to_group_def Let_def dict_get_set)
qed

lemma nonempty_Some_iff: "(if xs = [] then None else Some xs) = Some ys \<longleftrightarrow> ys = xs \<and> ys \<noteq> []"
  by auto

lemma window_groups_in:
  "(g, fs) \<in> set (window_groups t z a b now s) \<longleftrightarrow>
     fs = filter (\<lambda>f. in_window t z a b now f \<and> offer_group f = g) (dict_values (offers s)) \<and> fs \<noteq> []"
proof -
  let ?d = "foldl add_to_group [] (filter (in_window t z a b now) (dict_values (offers s)))"
  have "dict_ok ?d" by (simp add: dict_ok_add_to_group)
  then have "(g, fs) \<in> set (window_groups t z a b now s) \<longleftrightarrow> dict_get g ?d = Some fs"
    unfolding window_groups_def by (simp only: set_sort dict_get_iff_in)
  moreover have "dict_get g ?d = (let new = filter (\<lambda>f. in_window t z a b now f \<and> offer_group f = g)
      (dict_values (offers s)) in if new = [] then None else Some new)"
    unfolding dict_get_add_to_groups by (simp only: filter_filter dict_get_Nil option.case)
  ultimately show ?thesis unfolding Let_def by (simp only: nonempty_Some_iff)
qed

lemma dict_ok_window_groups: "dict_ok (window_groups t z a b now s)"
  by (simp add: window_groups_def dict_ok_sort dict_ok_add_to_group)

text \<open>The offers of one cell, in dictionary order, and what a query sees of them.\<close>

definition cell_offers :: "cell \<Rightarrow> offer_store \<Rightarrow> offer list" where
  "cell_offers c s = filter (\<lambda>f. offer_cell f = c) (dict_values (offers s))"

lemma window_group_cell_offers:
  assumes "(g, fs) \<in> set (window_groups t z a b now s)"
  shows "fs = filter (\<lambda>f. now \<le> o_expires_at f) (cell_offers (t, z, g) s)"
proof -
  have fs: "fs = filter (\<lambda>f. in_window t z a b now f \<and> offer_group f = g) (dict_values (offers s))"
    and ne: "fs \<noteq> []" using assms unfolding window_groups_in by blast+
  from ne obtain e where "e \<in> set fs" by (cases fs) auto
  then have e: "in_window t z a b now e" "offer_group e = g" using fs by auto
  have "filter (\<lambda>f. in_window t z a b now f \<and> offer_group f = g) (dict_values (offers s)) =
     filter (\<lambda>f. offer_cell f = (t, z, g) \<and> now \<le> o_expires_at f) (dict_values (offers s))"
    using e by (intro filter_cong) (auto simp: in_window_def offer_group_def offer_cell_def)
  then show ?thesis unfolding fs cell_offers_def by simp
qed

section \<open>Publication\<close>

lemma query_suppress_frame [frame_simps, simp]:
  "offers (query_suppress c C s) = offers s"
  "minimum_participants (query_suppress c C s) = minimum_participants s"
  "source_positions (query_suppress c C s) = source_positions s"
  "disconnected_resources (query_suppress c C s) = disconnected_resources s"
  "published_cohorts (query_suppress c C s) = published_cohorts s"
  "privacy_query_counts (query_suppress c C s) = privacy_query_counts s"
  "privacy_snapshots (query_suppress c C s) = privacy_snapshots s"
  by (simp_all add: query_suppress_def Let_def)

lemma query_suppress_suppressed:
  "suppressed_cells (query_suppress c C s) = suppressed_cells s \<union>
     (if (\<exists>p. dict_get c (published_cohorts s) = Some p \<and> p \<noteq> C) \<or> adjacent_change c C (published_cohorts s)
      then {c} else {})"
  by (auto simp: query_suppress_def Let_def split: option.splits)

lemma query_group_cases:
  assumes "query_group t z now (g, fs) s = (s', r)"
  obtains (skip) "s' = query_suppress (t, z, g) (cohort_of fs) s" "r = Inr None"
  | (invalid) e where "s' = query_suppress (t, z, g) (cohort_of fs) s" "r = Inl e"
  | (publish) "s' = (query_suppress (t, z, g) (cohort_of fs) s)
        \<lparr>published_cohorts := dict_set (t, z, g) (cohort_of fs) (published_cohorts s)\<rparr>"
      "r = Inr (Some (aggregate_offers (t, z, g) now fs))"
      "(t, z, g) \<notin> suppressed_cells (query_suppress (t, z, g) (cohort_of fs) s)"
      "minimum_participants s \<le> int (card (cohort_of fs))"
      "aggregate_ok (aggregate_offers (t, z, g) now fs)"
  using assms by (auto simp: query_group_def Let_def mk_aggregate_def split: if_splits)

lemma query_group_frame:
  assumes "query_group t z now p s = (s', r)"
  shows "offers s' = offers s" "minimum_participants s' = minimum_participants s"
    "source_positions s' = source_positions s" "disconnected_resources s' = disconnected_resources s"
    "privacy_query_counts s' = privacy_query_counts s" "privacy_snapshots s' = privacy_snapshots s"
    "suppressed_cells s \<subseteq> suppressed_cells s'"
  using assms by (cases p, auto elim!: query_group_cases simp: query_suppress_suppressed)+

lemma query_groups_frame:
  assumes "query_groups t z now ps s = (s', r)"
  shows "offers s' = offers s \<and> minimum_participants s' = minimum_participants s \<and>
    source_positions s' = source_positions s \<and> disconnected_resources s' = disconnected_resources s \<and>
    privacy_query_counts s' = privacy_query_counts s \<and> privacy_snapshots s' = privacy_snapshots s \<and>
    suppressed_cells s \<subseteq> suppressed_cells s'"
  using assms
proof (induction ps arbitrary: s s' r)
  case (Cons p ps)
  obtain s1 r1 where 1: "query_group t z now p s = (s1, r1)" by (cases "query_group t z now p s")
  note f1 = query_group_frame [OF 1]
  show ?case
  proof (cases r1)
    case (Inl e)
    then show ?thesis using Cons.prems 1 f1 by simp
  next
    case (Inr x)
    obtain s2 r2 where 2: "query_groups t z now ps s1 = (s2, r2)" by (cases "query_groups t z now ps s1")
    then have "s' = s2" using Cons.prems 1 Inr by (cases r2) auto
    then show ?thesis using Cons.IH [OF 2] f1 by auto
  qed
qed simp

lemma query_frame:
  assumes "query z a b t now s = (s', r)"
  shows "offers s' = offers s" "minimum_participants s' = minimum_participants s"
    "source_positions s' = source_positions s" "disconnected_resources s' = disconnected_resources s"
    "privacy_query_counts s' = privacy_query_counts s" "privacy_snapshots s' = privacy_snapshots s"
    "suppressed_cells s \<subseteq> suppressed_cells s'"
  using query_groups_frame [OF assms [unfolded query_def]] by auto

lemma query_inv: "store_inv s \<Longrightarrow> query z a b t now s = (s', r) \<Longrightarrow> store_inv s'"
  by (simp add: store_inv_def query_frame)

lemma aggregate_cell_aggregate_offers [simp]: "aggregate_cell (aggregate_offers c now fs) = c"
  by (cases c) (simp add: aggregate_offers_def aggregate_cell_def)


lemma query_group_effect:
  assumes "query_group t z now p s = (s', r)"
  shows "suppressed_cells s' = suppressed_cells (query_suppress (t, z, fst p) (cohort_of (snd p)) s)"
    "published_cohorts s' = published_cohorts s \<or>
     published_cohorts s' = dict_set (t, z, fst p) (cohort_of (snd p)) (published_cohorts s)"
proof -
  have "query_group t z now (fst p, snd p) s = (s', r)" using assms by simp
  then have "suppressed_cells s' = suppressed_cells (query_suppress (t, z, fst p) (cohort_of (snd p)) s) \<and>
    (published_cohorts s' = published_cohorts s \<or>
     published_cohorts s' = dict_set (t, z, fst p) (cohort_of (snd p)) (published_cohorts s))"
    by (cases rule: query_group_cases) simp_all
  then show "suppressed_cells s' = suppressed_cells (query_suppress (t, z, fst p) (cohort_of (snd p)) s)"
    "published_cohorts s' = published_cohorts s \<or>
     published_cohorts s' = dict_set (t, z, fst p) (cohort_of (snd p)) (published_cohorts s)"
    by blast+
qed

lemma query_group_other:
  assumes "query_group t z now p s = (s', r)" "c \<noteq> (t, z, fst p)"
  shows "c \<in> suppressed_cells s' \<longleftrightarrow> c \<in> suppressed_cells s"
    "dict_get c (published_cohorts s') = dict_get c (published_cohorts s)"
  using query_group_effect [OF assms(1)] assms(2)
  by (simp add: query_suppress_suppressed, metis dict_get_set_other)

lemma query_groups_other:
  assumes "query_groups t z now ps s = (s', r)" "\<And>g. c = (t, z, g) \<Longrightarrow> g \<notin> fst ` set ps"
  shows "(c \<in> suppressed_cells s' \<longleftrightarrow> c \<in> suppressed_cells s) \<and>
    dict_get c (published_cohorts s') = dict_get c (published_cohorts s)"
  using assms
proof (induction ps arbitrary: s s' r)
  case (Cons p ps)
  obtain s1 r1 where 1: "query_group t z now p s = (s1, r1)" by (cases "query_group t z now p s")
  have "c \<noteq> (t, z, fst p)" using Cons.prems(2) [of "fst p"] by (metis imageI list.set_intros(1))
  note o1 = query_group_other [OF 1 this]
  show ?case
  proof (cases r1)
    case (Inl e)
    then show ?thesis using Cons.prems(1) 1 o1 by simp
  next
    case (Inr x)
    obtain s2 r2 where 2: "query_groups t z now ps s1 = (s2, r2)" by (cases "query_groups t z now ps s1")
    then have "s' = s2" using Cons.prems(1) 1 Inr by (cases r2) auto
    moreover have "(c \<in> suppressed_cells s2 \<longleftrightarrow> c \<in> suppressed_cells s1) \<and>
        dict_get c (published_cohorts s2) = dict_get c (published_cohorts s1)"
    proof (rule Cons.IH [OF 2])
      fix g assume "c = (t, z, g)"
      then have "g \<notin> fst ` set (p # ps)" by (rule Cons.prems(2))
      then show "g \<notin> fst ` set ps" by simp
    qed
    ultimately show ?thesis using o1 by simp
  qed
qed simp

text \<open>What a published aggregate guarantees about its cell and the state it leaves.\<close>

definition publication_ok ::
    "string \<Rightarrow> string \<Rightarrow> instant \<Rightarrow> group_key \<Rightarrow> offer list \<Rightarrow> offer_store \<Rightarrow> offer_store \<Rightarrow> bool" where
  "publication_ok t z now g fs s s' \<longleftrightarrow>
     aggregate_ok (aggregate_offers (t, z, g) now fs) \<and>
     minimum_participants s \<le> int (card (cohort_of fs)) \<and>
     (t, z, g) \<notin> suppressed_cells s' \<and>
     dict_get (t, z, g) (published_cohorts s') = Some (cohort_of fs) \<and>
     (dict_get (t, z, g) (published_cohorts s) = None \<or>
      dict_get (t, z, g) (published_cohorts s) = Some (cohort_of fs))"

lemma query_groups_published:
  assumes "query_groups t z now ps s = (s', Inr gs)" "distinct (List.map fst ps)" "g \<in> set gs"
  shows "\<exists>k fs. (k, fs) \<in> set ps \<and> g = aggregate_offers (t, z, k) now fs \<and> publication_ok t z now k fs s s'"
  using assms
proof (induction ps arbitrary: s gs)
  case (Cons p ps)
  obtain k fs where p: "p = (k, fs)" by (cases p)
  obtain s1 r1 where 1: "query_group t z now (k, fs) s = (s1, r1)" by (cases "query_group t z now (k, fs) s")
  obtain x where r1: "r1 = Inr x" using Cons.prems(1) 1 p by (cases r1) auto
  obtain gs2 where 2: "query_groups t z now ps s1 = (s', Inr gs2)"
    and gs: "gs = (case x of None \<Rightarrow> [] | Some g \<Rightarrow> [g]) @ gs2"
    using Cons.prems(1) 1 p r1 by (auto split: prod.splits sum.splits)
  have fresh: "k \<notin> fst ` set ps" using Cons.prems(2) p by auto
  show ?case
  proof (cases "g \<in> set gs2")
    case True
    have "distinct (List.map fst ps)" using Cons.prems(2) by simp
    from Cons.IH [OF 2 this True] obtain k' fs' where
      k': "(k', fs') \<in> set ps" "g = aggregate_offers (t, z, k') now fs'" "publication_ok t z now k' fs' s1 s'"
      by blast
    then have "k' \<noteq> k" using fresh by force
    then have "publication_ok t z now k' fs' s s'"
      using k'(3) query_group_other [OF 1, of "(t, z, k')"] query_group_frame(2) [OF 1]
      by (simp add: publication_ok_def)
    then show ?thesis using k'(1,2) by (metis list.set_intros(2))
  next
    case False
    then have x: "x = Some g" using Cons.prems(3) gs by (cases x) auto
    have other: "((t, z, k) \<in> suppressed_cells s' \<longleftrightarrow> (t, z, k) \<in> suppressed_cells s1) \<and>
        dict_get (t, z, k) (published_cohorts s') = dict_get (t, z, k) (published_cohorts s1)"
      using fresh by (intro query_groups_other [OF 2]) auto
    show ?thesis using 1 r1 x
    proof (cases rule: query_group_cases)
      case publish
      then have "publication_ok t z now k fs s s'"
        using other
        by (cases "dict_get (t, z, k) (published_cohorts s)")
          (auto simp: publication_ok_def query_suppress_suppressed split: if_splits)
      then show ?thesis using publish(2) r1 x p by (metis list.set_intros(1) option.inject sum.inject(2))
    qed auto
  qed
qed simp

lemma query_published:
  assumes "query z a b t now s = (s', Inr gs)" "g \<in> set gs"
  shows "\<exists>k. aggregate_cell g = (t, z, k) \<and>
    g = aggregate_offers (t, z, k) now (filter (\<lambda>f. now \<le> o_expires_at f) (cell_offers (t, z, k) s)) \<and>
    publication_ok t z now k (filter (\<lambda>f. now \<le> o_expires_at f) (cell_offers (t, z, k) s)) s s'"
proof -
  have "distinct (List.map fst (window_groups t z a b now s))"
    using dict_ok_window_groups by (simp add: dict_ok_def)
  from query_groups_published [OF assms(1) [unfolded query_def] this assms(2)]
  obtain k fs where "(k, fs) \<in> set (window_groups t z a b now s)" "g = aggregate_offers (t, z, k) now fs"
    "publication_ok t z now k fs s s'" by blast
  then show ?thesis using window_group_cell_offers by auto
qed

section \<open>Stability of publication\<close>

definition cell_stable :: "cell \<Rightarrow> string set \<Rightarrow> offer list \<Rightarrow> offer_store \<Rightarrow> bool" where
  "cell_stable c C L s \<longleftrightarrow> c \<in> suppressed_cells s \<or>
     (dict_get c (published_cohorts s) = Some C \<and> cell_offers c s = L)"

lemma filter_values_filter:
  assumes "\<And>k e. (k, e) \<in> set d \<Longrightarrow> P e \<Longrightarrow> Q (k, e)"
  shows "filter P (dict_values (filter Q d)) = filter P (dict_values d)"
  using assms by (induction d) (auto simp: dict_values_def)

lemma upsert_cell_stable:
  assumes inv: "store_inv s" and st: "cell_stable c C L s"
  shows "cell_stable c C L (fst (upsert f s))"
  using upsert_outcome [OF inv, of f]
proof (elim disjE exE conjE)
  fix s' assume up: "upsert f s = (s', Inr ())" and u: "upsert_stored f s s'"
  show ?thesis
  proof (cases "c \<in> suppressed_cells s'")
    case False
    then have "c \<notin> suppressed_cells s" and supp: "dict_get c (published_cohorts s) \<noteq> None \<Longrightarrow>
        c \<noteq> offer_cell f \<and> (\<forall>k e. (k, e) \<in> set (offers s) - set (surviving f s) \<longrightarrow> c \<noteq> offer_cell e)"
      using u unfolding upsert_stored_def by blast+
    then have pub: "dict_get c (published_cohorts s) = Some C" "cell_offers c s = L"
      using st by (auto simp: cell_stable_def)
    then have new: "c \<noteq> offer_cell f" and kept: "\<And>k e. (k, e) \<in> set (offers s) \<Longrightarrow>
        offer_cell e = c \<Longrightarrow> (k, e) \<in> set (surviving f s)"
      using supp by blast+
    have "cell_offers c s' = filter (\<lambda>f. offer_cell f = c) (dict_values (surviving f s))"
      using u new by (simp add: cell_offers_def upsert_stored_def dict_values_def)
    also have "\<dots> = cell_offers c s"
      unfolding surviving_def cell_offers_def
      by (rule filter_values_filter) (drule (1) kept, simp add: surviving_def)
    finally show ?thesis using pub up u by (simp add: cell_stable_def upsert_stored_def)
  qed (simp add: up cell_stable_def)
qed (use st in auto)

lemma remove_cell_stable:
  assumes inv: "store_inv s" and st: "cell_stable c C L s" and rm: "remove_resource rid t s = (s', n)"
  shows "cell_stable c C L s'"
proof (cases "c \<in> suppressed_cells s'")
  case False
  note fields = remove_resource_fields [OF rm]
  have ok: "dict_ok (offers s)" using inv by (simp add: store_inv_def)
  have "c \<notin> suppressed_cells s" and drop: "\<And>k e. k \<in> set (resource_offer_keys rid t s) \<Longrightarrow>
      dict_get k (offers s) = Some e \<Longrightarrow> dict_get c (published_cohorts s) \<noteq> None \<Longrightarrow> offer_cell e \<noteq> c"
    using False unfolding fields(7) drop_offers_suppressed [OF ok] by blast+
  then have pub: "dict_get c (published_cohorts s) = Some C" "cell_offers c s = L"
    using st by (auto simp: cell_stable_def)
  have "cell_offers c s' = cell_offers c s"
    unfolding fields(1) cell_offers_def
    by (rule filter_values_filter) (use drop pub ok in \<open>metis case_prod_conv dict_get_iff_in option.distinct(1)\<close>)
  then show ?thesis using pub fields(3) by (simp add: cell_stable_def)
qed (simp add: cell_stable_def)

lemma query_group_cell_stable:
  assumes "query_group t z now p s = (s', r)" "cell_stable c C L s"
  shows "cell_stable c C L s'"
proof (cases "c = (t, z, fst p)")
  case False
  then show ?thesis using assms query_group_other [OF assms(1) False] query_group_frame(1) [OF assms(1)]
    by (simp add: cell_stable_def cell_offers_def)
next
  case True
  obtain k fs where p: "p = (k, fs)" by (cases p)
  show ?thesis using assms(1) [unfolded p] 
    by (rule query_group_cases)
      (use assms(2) True p in \<open>auto simp: cell_stable_def cell_offers_def query_suppress_suppressed split: if_splits\<close>)
qed

lemma query_groups_cell_stable:
  "query_groups t z now ps s = (s', r) \<Longrightarrow> cell_stable c C L s \<Longrightarrow> cell_stable c C L s'"
proof (induction ps arbitrary: s s' r)
  case (Cons p ps)
  then show ?case
    by (auto split: prod.splits sum.splits dest: query_group_cell_stable)
qed simp


lemma query_cell_stable:
  "query z a b t now s = (s', r) \<Longrightarrow> cell_stable c C L s \<Longrightarrow> cell_stable c C L s'"
  unfolding query_def by (rule query_groups_cell_stable)

section \<open>Runs of the store\<close>

datatype store_op =
    Op_upsert offer
  | Op_remove string string
  | Op_query string instant instant string instant
  | Op_consume string instant int
  | Op_publish string string instant instant instant "aggregate list"

fun store_step :: "offer_store \<Rightarrow> store_op \<Rightarrow> offer_store" where
  "store_step s (Op_upsert f) = fst (upsert f s)"
| "store_step s (Op_remove rid t) = fst (remove_resource rid t s)"
| "store_step s (Op_query z a b t now) = fst (query z a b t now s)"
| "store_step s (Op_consume t w l) = fst (consume_privacy_query t w l s)"
| "store_step s (Op_publish t z e a b gs) = fst (publish_privacy_snapshot t z e a b gs s)"

definition run_store :: "offer_store \<Rightarrow> store_op list \<Rightarrow> offer_store" where
  "run_store s ops = foldl store_step s ops"

fun op_ok :: "store_op \<Rightarrow> bool" where
  "op_ok (Op_upsert f) = offer_ok f"
| "op_ok _ = True"

lemma consume_frame:
  "offers (fst (consume_privacy_query t w l s)) = offers s"
  "minimum_participants (fst (consume_privacy_query t w l s)) = minimum_participants s"
  "source_positions (fst (consume_privacy_query t w l s)) = source_positions s"
  "disconnected_resources (fst (consume_privacy_query t w l s)) = disconnected_resources s"
  "published_cohorts (fst (consume_privacy_query t w l s)) = published_cohorts s"
  "suppressed_cells (fst (consume_privacy_query t w l s)) = suppressed_cells s"
  "privacy_snapshots (fst (consume_privacy_query t w l s)) = privacy_snapshots s"
  by (simp_all add: consume_privacy_query_def Let_def)

lemma publish_frame:
  "offers (fst (publish_privacy_snapshot t z e a b gs s)) = offers s"
  "minimum_participants (fst (publish_privacy_snapshot t z e a b gs s)) = minimum_participants s"
  "source_positions (fst (publish_privacy_snapshot t z e a b gs s)) = source_positions s"
  "disconnected_resources (fst (publish_privacy_snapshot t z e a b gs s)) = disconnected_resources s"
  "published_cohorts (fst (publish_privacy_snapshot t z e a b gs s)) = published_cohorts s"
  "suppressed_cells (fst (publish_privacy_snapshot t z e a b gs s)) = suppressed_cells s"
  "privacy_query_counts (fst (publish_privacy_snapshot t z e a b gs s)) = privacy_query_counts s"
  by (simp_all add: publish_privacy_snapshot_def Let_def)

lemma store_inv_cong:
  "offers s' = offers s \<Longrightarrow> minimum_participants s' = minimum_participants s \<Longrightarrow>
   source_positions s' = source_positions s \<Longrightarrow> disconnected_resources s' = disconnected_resources s \<Longrightarrow>
   store_inv s' = store_inv s"
  by (simp add: store_inv_def)

lemma store_step_inv: "store_inv s \<Longrightarrow> op_ok p \<Longrightarrow> store_inv (store_step s p)"
proof (cases p)
  case (Op_remove rid t)
  assume "store_inv s"
  then show ?thesis using Op_remove remove_resource_inv by (cases "remove_resource rid t s") auto
next
  case (Op_query z a b t now)
  assume "store_inv s"
  then show ?thesis using Op_query query_inv by (cases "query z a b t now s") auto
qed (simp_all add: upsert_inv store_inv_cong [OF consume_frame(1-4)] store_inv_cong [OF publish_frame(1-4)])

lemma run_store_inv: "store_inv s \<Longrightarrow> \<forall>p \<in> set ops. op_ok p \<Longrightarrow> store_inv (run_store s ops)"
  unfolding run_store_def by (rule foldl_invariant) (auto intro: store_step_inv)

lemma store_step_cell_stable:
  assumes inv: "store_inv s" and st: "cell_stable c C L s"
  shows "cell_stable c C L (store_step s p)"
proof (cases p)
  case (Op_upsert f)
  then show ?thesis using upsert_cell_stable [OF inv st] by simp
next
  case (Op_remove rid t)
  then show ?thesis using remove_cell_stable [OF inv st] by (cases "remove_resource rid t s") auto
next
  case (Op_query z a b t now)
  then show ?thesis using query_cell_stable [OF _ st] by (cases "query z a b t now s") auto
qed (use st in \<open>simp_all add: cell_stable_def cell_offers_def consume_frame publish_frame\<close>)

lemma run_store_cell_stable:
  assumes "store_inv s" "cell_stable c C L s" "\<forall>p \<in> set ops. op_ok p"
  shows "cell_stable c C L (run_store s ops)"
proof -
  have "store_inv (run_store s ops) \<and> cell_stable c C L (run_store s ops)"
    unfolding run_store_def
    by (rule foldl_invariant) (use assms in \<open>auto intro: store_step_inv store_step_cell_stable\<close>)
  then show ?thesis ..
qed

lemma distinct_cell_offers:
  assumes "store_inv s"
  shows "distinct (List.map o_resource_id (cell_offers c s))"
proof -
  have keys: "\<And>p. p \<in> set (offers s) \<Longrightarrow> fst p = offer_key (snd p)"
    using store_invD(1) [OF assms] by (metis prod.collapse)
  have "distinct (List.map fst (offers s))" using assms by (simp add: store_inv_def dict_ok_def)
  moreover have "List.map fst (offers s) = List.map offer_key (dict_values (offers s))"
    using keys by (simp add: dict_values_def)
  ultimately have d: "distinct (List.map offer_key (dict_values (offers s)))" by simp
  then have "distinct (List.map offer_key (cell_offers c s))"
    unfolding cell_offers_def by (rule distinct_map_filter)
  moreover have key: "offer_key e = offer_key f" if "e \<in> set (cell_offers c s)" "f \<in> set (cell_offers c s)"
      "o_resource_id e = o_resource_id f" for e f
  proof -
    from that(1,2) have "offer_cell e = offer_cell f" by (simp add: cell_offers_def)
    then show ?thesis using that(3) by (simp add: offer_cell_def offer_key_def)
  qed
  ultimately show ?thesis unfolding distinct_map inj_on_def by blast
qed

lemma filter_eq_of_image:
  assumes "distinct (List.map h L)" "h ` set (filter P L) = h ` set (filter Q L)"
  shows "filter P L = filter Q L"
proof (rule filter_cong [OF refl])
  fix x assume x: "x \<in> set L"
  have inj: "inj_on h (set L)" using assms(1) by (simp add: distinct_map)
  show "P x = Q x" using x inj assms(2) by (auto simp: inj_on_def image_iff set_eq_iff) (metis)+
qed

text \<open>
  C17 publication_stable. The publication of a cell is stable: if one query publishes a cell and,
  after any sequence of store operations whatsoever, a second query publishes the same cell, then
  the two aggregates are the same but for their generation time. An observer can therefore never
  compare two publications of one cell to learn about a device that came, went or changed.
\<close>

theorem publication_stable:
  assumes inv: "store_inv s1"
    and q1: "query z a b t now s1 = (s2, Inr gs)" and g: "g \<in> set gs"
    and ops: "\<forall>p \<in> set ops. op_ok p"
    and q2: "query z' a' b' t' now' (run_store s2 ops) = (s4, Inr gs')" and g': "g' \<in> set gs'"
    and same: "aggregate_cell g' = aggregate_cell g"
  shows "g' = g\<lparr>g_generated_at := now'\<rparr>"
proof -
  let ?s3 = "run_store s2 ops"
  from query_published [OF q1 g] obtain k where k: "aggregate_cell g = (t, z, k)"
    and geq: "g = aggregate_offers (t, z, k) now (filter (\<lambda>f. now \<le> o_expires_at f) (cell_offers (t, z, k) s1))"
    and ok1: "publication_ok t z now k (filter (\<lambda>f. now \<le> o_expires_at f) (cell_offers (t, z, k) s1)) s1 s2"
    by blast
  from query_published [OF q2 g'] obtain k' where k': "aggregate_cell g' = (t', z', k')"
    and geq': "g' = aggregate_offers (t', z', k') now' (filter (\<lambda>f. now' \<le> o_expires_at f) (cell_offers (t', z', k') ?s3))"
    and ok2: "publication_ok t' z' now' k' (filter (\<lambda>f. now' \<le> o_expires_at f) (cell_offers (t', z', k') ?s3)) ?s3 s4"
    by blast
  define c where "c = (t, z, k)"
  have c': "(t', z', k') = c" using same k k' c_def by simp
  define L where "L = cell_offers c s1"
  define C where "C = cohort_of (filter (\<lambda>f. now \<le> o_expires_at f) L)"
  have inv2: "store_inv s2" using inv q1 by (rule query_inv)
  have L2: "cell_offers c s2 = L" by (simp add: L_def cell_offers_def query_frame(1) [OF q1])
  have "cell_stable c C L s2"
    using ok1 L2 by (simp add: cell_stable_def publication_ok_def c_def C_def L_def)
  then have st: "cell_stable c C L ?s3" by (rule run_store_cell_stable [OF inv2 _ ops])
  have notin: "c \<notin> suppressed_cells s4" using ok2 c' by (simp add: publication_ok_def)
  then have notin3: "c \<notin> suppressed_cells ?s3" using query_frame(7) [OF q2] by blast
  then have L3: "cell_offers c ?s3 = L" and C3: "dict_get c (published_cohorts ?s3) = Some C"
    using st by (auto simp: cell_stable_def)
  have "cohort_of (filter (\<lambda>f. now' \<le> o_expires_at f) L) = C"
    using ok2 C3 L3 c' by (simp add: publication_ok_def)
  then have "o_resource_id ` set (filter (\<lambda>f. now' \<le> o_expires_at f) L) = o_resource_id ` set (filter (\<lambda>f. now \<le> o_expires_at f) L)"
    unfolding C_def cohort_of_def by (simp only: set_map)
  then have fs: "filter (\<lambda>f. now' \<le> o_expires_at f) L = filter (\<lambda>f. now \<le> o_expires_at f) L"
    using distinct_cell_offers [OF inv] unfolding L_def by (rule filter_eq_of_image [rotated])
  have "g' = aggregate_offers c now' (filter (\<lambda>f. now \<le> o_expires_at f) L)"
    using geq' c' L3 fs by simp
  moreover have "g = aggregate_offers c now (filter (\<lambda>f. now \<le> o_expires_at f) L)"
    using geq by (simp add: c_def L_def)
  ultimately show ?thesis by (cases c) (simp add: aggregate_offers_def)
qed

section \<open>Adjacent cells\<close>

lemma run_store_invariant:
  assumes "store_inv s" "\<forall>p \<in> set ops. op_ok p" "P s"
    and step: "\<And>s p. store_inv s \<Longrightarrow> P s \<Longrightarrow> P (store_step s p)"
  shows "P (run_store s ops)"
proof -
  have "store_inv (foldl store_step s ops) \<and> P (foldl store_step s ops)"
  proof (rule foldl_invariant)
    show "store_inv s \<and> P s" using assms(1,3) ..
    fix s' p assume "store_inv s' \<and> P s'" "p \<in> set ops"
    then show "store_inv (store_step s' p) \<and> P (store_step s' p)"
      using step store_step_inv assms(2) by blast
  qed
  then show ?thesis by (simp add: run_store_def)
qed

text \<open>Two published cells of one zone and product that share a boundary have one cohort.\<close>

definition adjacent_cells :: "cell \<Rightarrow> cell \<Rightarrow> bool" where
  "adjacent_cells c d \<longleftrightarrow> (case c of (t, z, a, b, q) \<Rightarrow> case d of (t', z', a', b', q') \<Rightarrow>
     t = t' \<and> z = z' \<and> q = q' \<and> (b = a' \<or> b' = a))"

definition cohorts_agree :: "offer_store \<Rightarrow> bool" where
  "cohorts_agree s \<longleftrightarrow> (\<forall>c C d D. dict_get c (published_cohorts s) = Some C \<longrightarrow>
     dict_get d (published_cohorts s) = Some D \<longrightarrow> adjacent_cells c d \<longrightarrow> C = D)"

lemma adjacent_cells_sym: "adjacent_cells c d = adjacent_cells d c"
  by (auto simp: adjacent_cells_def split: prod.splits)

lemma adjacent_change_iff:
  "adjacent_change c C d \<longleftrightarrow> (\<exists>p \<in> set d. adjacent_cells c (fst p) \<and> snd p \<noteq> C)"
  unfolding adjacent_change_def adjacent_cells_def list_ex_iff case_prod_unfold
  by (rule bex_cong [OF refl], intro iffI; elim conjE disjE; simp)

lemma no_adjacent_change:
  assumes "\<not> adjacent_change c C d" "dict_get c' d = Some C'" "adjacent_cells c c'"
  shows "C' = C"
  using assms dict_get_Some_in [OF assms(2)] unfolding adjacent_change_iff by force

lemma query_group_cohorts_agree:
  assumes "query_group t z now p s = (s', r)" "cohorts_agree s"
  shows "cohorts_agree s'"
proof -
  have "query_group t z now (fst p, snd p) s = (s', r)" using assms(1) by simp
  then show ?thesis
  proof (cases rule: query_group_cases)
    case publish
    let ?c = "(t, z, fst p)" and ?C = "cohort_of (snd p)"
    have no: "\<not> adjacent_change ?c ?C (published_cohorts s)"
      using publish(3) by (auto simp: query_suppress_suppressed split: if_splits)
    have "X = Y" if "dict_get x (published_cohorts s') = Some X" "dict_get y (published_cohorts s') = Some Y"
        "adjacent_cells x y" for x X y Y
    proof (cases "x = ?c"; cases "y = ?c")
      assume "x = ?c" "y \<noteq> ?c"
      then show "X = Y" using that no_adjacent_change [OF no, of y Y] publish(1) by (simp add: dict_get_set)
    next
      assume "x \<noteq> ?c" "y = ?c"
      then show "X = Y" using that no_adjacent_change [OF no, of x X] publish(1) adjacent_cells_sym [of x y]
        by (simp add: dict_get_set)
    next
      assume "x \<noteq> ?c" "y \<noteq> ?c"
      then have "dict_get x (published_cohorts s) = Some X" "dict_get y (published_cohorts s) = Some Y"
        using that publish(1) by simp_all
      then show "X = Y" using assms(2) that(3) unfolding cohorts_agree_def by blast
    qed (use that publish(1) in simp)
    then show ?thesis unfolding cohorts_agree_def by blast
  qed (use assms(2) in \<open>simp_all add: cohorts_agree_def\<close>)
qed

lemma query_groups_cohorts_agree:
  "query_groups t z now ps s = (s', r) \<Longrightarrow> cohorts_agree s \<Longrightarrow> cohorts_agree s'"
proof (induction ps arbitrary: s s' r)
  case (Cons p ps)
  then show ?case by (auto split: prod.splits sum.splits dest: query_group_cohorts_agree)
qed simp

lemma upsert_published: "store_inv s \<Longrightarrow> published_cohorts (fst (upsert f s)) = published_cohorts s"
  using upsert_outcome [of s f] by (auto simp: upsert_stored_def)

lemma store_step_cohorts_agree:
  assumes "store_inv s" "cohorts_agree s"
  shows "cohorts_agree (store_step s p)"
proof (cases p)
  case (Op_upsert f)
  then show ?thesis using assms by (simp add: cohorts_agree_def upsert_published)
next
  case (Op_remove rid t)
  then show ?thesis using assms remove_resource_fields(3) [of rid t s]
    by (cases "remove_resource rid t s") (simp add: cohorts_agree_def)
next
  case (Op_query z a b t now)
  then show ?thesis using assms query_groups_cohorts_agree
    by (cases "query z a b t now s") (auto simp: query_def)
qed (use assms in \<open>simp_all add: cohorts_agree_def consume_frame publish_frame\<close>)

lemma run_store_cohorts_agree:
  assumes "new_store k = Inr s0" "\<forall>p \<in> set ops. op_ok p"
  shows "cohorts_agree (run_store s0 ops)"
proof -
  have "cohorts_agree s0" using assms(1) by (auto simp: new_store_def cohorts_agree_def split: if_splits)
  then show ?thesis
    by (rule run_store_invariant [OF store_inv_new [OF assms(1)] assms(2)]) (rule store_step_cohorts_agree)
qed

section \<open>Suppression is permanent\<close>

lemma upsert_suppressed_mono: "store_inv s \<Longrightarrow> suppressed_cells s \<subseteq> suppressed_cells (fst (upsert f s))"
  using upsert_outcome [of s f] by (auto simp: upsert_stored_def)

lemma store_step_suppressed_mono:
  assumes "store_inv s"
  shows "suppressed_cells s \<subseteq> suppressed_cells (store_step s p)"
proof (cases p)
  case (Op_remove rid t)
  have "dict_ok (offers s)" using assms by (simp add: store_inv_def)
  then show ?thesis using Op_remove remove_resource_fields(7) [of rid t s]
    by (cases "remove_resource rid t s") (simp add: drop_offers_suppressed)
next
  case (Op_query z a b t now)
  then show ?thesis using query_frame(7) [of z a b t now s]
    by (cases "query z a b t now s") auto
qed (use assms in \<open>simp_all add: upsert_suppressed_mono consume_frame publish_frame\<close>)

lemma run_store_suppressed_mono:
  assumes "store_inv s" "\<forall>p \<in> set ops. op_ok p"
  shows "suppressed_cells s \<subseteq> suppressed_cells (run_store s ops)"
proof (rule run_store_invariant [OF assms])
  fix s' p assume "store_inv s'" "suppressed_cells s \<subseteq> suppressed_cells s'"
  then show "suppressed_cells s \<subseteq> suppressed_cells (store_step s' p)"
    using store_step_suppressed_mono by blast
qed simp

section \<open>The query budget\<close>

definition query_count :: "string \<Rightarrow> instant \<Rightarrow> offer_store \<Rightarrow> int" where
  "query_count t w s = (case dict_get (t, w) (privacy_query_counts s) of None \<Rightarrow> 0 | Some n \<Rightarrow> n)"

lemma consume_query_count:
  "query_count t w (fst (consume_privacy_query t' w' l s)) =
     (if (t', w') = (t, w) \<and> query_count t w s < l then query_count t w s + 1 else query_count t w s)"
  "snd (consume_privacy_query t w l s) \<longleftrightarrow> query_count t w s < l"
  by (auto simp: consume_privacy_query_def query_count_def Let_def dict_get_set)

lemma store_step_query_counts:
  assumes "store_inv s" "\<And>t w l. p \<noteq> Op_consume t w l"
  shows "privacy_query_counts (store_step s p) = privacy_query_counts s"
proof (cases p)
  case (Op_upsert f)
  then show ?thesis using upsert_outcome [OF assms(1), of f] by (auto simp: upsert_stored_def)
next
  case (Op_remove rid t)
  then show ?thesis using remove_resource_fields(5) [of rid t s] by (cases "remove_resource rid t s") simp
next
  case (Op_query z a b t now)
  then show ?thesis using query_frame(5) [of z a b t now s] by (cases "query z a b t now s") auto
qed (use assms publish_frame in simp_all)

text \<open>How many queries of a tenant were granted in one window during a run.\<close>

fun granted :: "string \<Rightarrow> instant \<Rightarrow> offer_store \<Rightarrow> store_op list \<Rightarrow> nat" where
  "granted t w s [] = 0"
| "granted t w s (p # ps) =
     (case p of
        Op_consume t' w' l \<Rightarrow> if t' = t \<and> w' = w \<and> snd (consume_privacy_query t' w' l s) then 1 else 0
      | _ \<Rightarrow> 0) + granted t w (store_step s p) ps"

lemma granted_bound:
  assumes "store_inv s" "\<forall>p \<in> set ops. op_ok p"
    "\<forall>p \<in> set ops. \<forall>l'. p = Op_consume t w l' \<longrightarrow> l' = l" "query_count t w s \<le> l"
  shows "int (granted t w s ops) + query_count t w s \<le> l"
  using assms
proof (induction ops arbitrary: s)
  case (Cons p ps)
  have inv: "store_inv (store_step s p)" using Cons.prems by (intro store_step_inv) auto
  show ?case
  proof (cases "\<exists>t' w' l'. p = Op_consume t' w' l'")
    case False
    then have count: "query_count t w (store_step s p) = query_count t w s"
      using store_step_query_counts [OF Cons.prems(1), of p] by (simp add: query_count_def)
    moreover have "granted t w s (p # ps) = granted t w (store_step s p) ps"
      using False by (cases p) auto
    ultimately show ?thesis using Cons.IH [OF inv] Cons.prems by simp
  next
    case True
    then obtain t' w' l' where p: "p = Op_consume t' w' l'" by blast
    have l: "(t', w') = (t, w) \<Longrightarrow> l' = l" using Cons.prems(3) p by simp
    have "query_count t w (store_step s p) \<le> l"
      using Cons.prems(4) l by (auto simp: p consume_query_count)
    then have "int (granted t w (store_step s p) ps) + query_count t w (store_step s p) \<le> l"
      using Cons.IH [OF inv] Cons.prems by simp
    then show ?thesis using l by (auto simp: p consume_query_count split: if_splits)
  qed
qed simp

section \<open>Snapshots\<close>

definition snapshots_inv :: "offer_store \<Rightarrow> bool" where
  "snapshots_inv s \<longleftrightarrow> dict_ok (privacy_snapshots s) \<and>
     (\<forall>(k, g) \<in> set (privacy_snapshots s). \<exists>t z e. k = snapshot_key t z e g)"

lemma dict_setdefault_get:
  "dict_get k (dict_setdefault k' v d) =
     (if k = k' \<and> dict_get k d = None then Some v else dict_get k d)"
  by (auto simp: dict_setdefault_def dict_get_set split: option.splits)

lemma setdefaults_keep:
  "dict_get k d = Some g \<Longrightarrow> dict_get k (foldl (\<lambda>d c. dict_setdefault (f c) c d) d gs) = Some g"
  by (induction gs arbitrary: d) (auto simp: dict_setdefault_get)

lemma publish_keeps:
  "dict_get k (privacy_snapshots s) = Some g \<Longrightarrow>
     dict_get k (privacy_snapshots (fst (publish_privacy_snapshot t z e a b gs s))) = Some g"
  by (simp add: publish_privacy_snapshot_def Let_def setdefaults_keep)

lemma store_step_snapshots:
  assumes "store_inv s" "\<And>t z e a b gs. p \<noteq> Op_publish t z e a b gs"
  shows "privacy_snapshots (store_step s p) = privacy_snapshots s"
proof (cases p)
  case (Op_upsert f)
  then show ?thesis using upsert_outcome [OF assms(1), of f] by (auto simp: upsert_stored_def)
next
  case (Op_remove rid t)
  then show ?thesis using remove_resource_fields(6) [of rid t s] by (cases "remove_resource rid t s") simp
next
  case (Op_query z a b t now)
  then show ?thesis using query_frame(6) [of z a b t now s] by (cases "query z a b t now s") auto
qed (use assms consume_frame in simp_all)

lemma run_store_keeps_snapshots:
  assumes "store_inv s" "\<forall>p \<in> set ops. op_ok p" "dict_get k (privacy_snapshots s) = Some g"
  shows "dict_get k (privacy_snapshots (run_store s ops)) = Some g"
proof -
  have step: "dict_get k (privacy_snapshots (store_step s p)) = Some g"
    if "store_inv s" "dict_get k (privacy_snapshots s) = Some g" for s p
  proof (cases "\<exists>t z e a b gs. p = Op_publish t z e a b gs")
    case True
    then show ?thesis using publish_keeps [OF that(2)] by (elim exE) simp
  next
    case False
    then show ?thesis using that store_step_snapshots by simp
  qed
  show ?thesis
    by (rule run_store_invariant [OF assms(1,2), where P = "\<lambda>s. dict_get k (privacy_snapshots s) = Some g"])
      (simp_all add: assms(3) step)
qed

lemma setdefaults_ok:
  assumes "dict_ok d" "\<forall>(k, g) \<in> set d. \<exists>t z e. k = snapshot_key t z e g"
  shows "dict_ok (foldl (\<lambda>d c. dict_setdefault (snapshot_key t z e c) c d) d gs) \<and>
    (\<forall>(k, g) \<in> set (foldl (\<lambda>d c. dict_setdefault (snapshot_key t z e c) c d) d gs).
       \<exists>t z e. k = snapshot_key t z e g)"
  using assms
proof (induction gs arbitrary: d)
  case (Cons c gs)
  show ?case unfolding foldl.simps
  proof (rule Cons.IH)
    show "dict_ok (dict_setdefault (snapshot_key t z e c) c d)"
      using Cons.prems(1) by (simp add: dict_setdefault_def split: option.splits)
    have "set (dict_setdefault (snapshot_key t z e c) c d) \<subseteq> set d \<union> {(snapshot_key t z e c, c)}"
      by (cases "dict_get (snapshot_key t z e c) d") (auto simp: dict_setdefault_def dict_set_new)
    then show "\<forall>(k, g) \<in> set (dict_setdefault (snapshot_key t z e c) c d). \<exists>t z e. k = snapshot_key t z e g"
      using Cons.prems(2) by blast
  qed
qed simp

lemma publish_snapshots_inv:
  "snapshots_inv s \<Longrightarrow> snapshots_inv (fst (publish_privacy_snapshot t z e a b gs s))"
  using setdefaults_ok [of "privacy_snapshots s"] by (simp add: snapshots_inv_def publish_privacy_snapshot_def Let_def)

lemma publish_result:
  assumes "snapshots_inv s" "publish_privacy_snapshot t z e a b gs s = (s', out)"
  shows "g \<in> set out \<longleftrightarrow> dict_get (snapshot_key t z e g) (privacy_snapshots s') = Some g \<and>
     a \<le> g_interval_start g \<and> g_interval_end g \<le> b"
proof -
  have inv: "snapshots_inv s'" using publish_snapshots_inv [OF assms(1), of t z e a b gs] assms(2) by simp
  have "out = sort_key aggregate_order (dict_values (filter (\<lambda>(k, g). snapshot_matches t z e a b k) (privacy_snapshots s')))"
    using assms(2) by (auto simp: publish_privacy_snapshot_def Let_def)
  then have "g \<in> set out \<longleftrightarrow> (\<exists>k. (k, g) \<in> set (privacy_snapshots s') \<and> snapshot_matches t z e a b k)"
    by (auto simp: dict_values_def image_iff)
  also have "\<dots> \<longleftrightarrow> (snapshot_key t z e g, g) \<in> set (privacy_snapshots s') \<and>
      a \<le> g_interval_start g \<and> g_interval_end g \<le> b"
    using inv by (auto simp: snapshots_inv_def snapshot_matches_def snapshot_key_def)
  also have "(snapshot_key t z e g, g) \<in> set (privacy_snapshots s') \<longleftrightarrow>
      dict_get (snapshot_key t z e g) (privacy_snapshots s') = Some g"
    using inv by (simp add: snapshots_inv_def dict_get_iff_in)
  finally show ?thesis .
qed

section \<open>Eligible offers\<close>

lemma eligible_offers_iff:
  "f \<in> set (eligible_offers t z a b q now s) \<longleftrightarrow>
     f \<in> set (cell_offers (t, z, a, b, q) s) \<and> now \<le> o_expires_at f"
  by (auto simp: eligible_offers_def cell_offers_def offer_cell_def)

lemma eligible_offers_sorted: "sorted (List.map o_resource_id (eligible_offers t z a b q now s))"
  by (simp add: eligible_offers_def)

lemma eligible_offers_distinct:
  assumes "store_inv s"
  shows "distinct (List.map o_resource_id (eligible_offers t z a b q now s))"
proof -
  have "eligible_offers t z a b q now s = sort_key o_resource_id
      (filter (\<lambda>f. now \<le> o_expires_at f) (cell_offers (t, z, a, b, q) s))"
    unfolding eligible_offers_def cell_offers_def offer_cell_def filter_filter
    by (rule arg_cong [where f = "sort_key o_resource_id"], rule filter_cong) auto
  then show ?thesis
    using distinct_cell_offers [OF assms] by (simp add: distinct_map_sort_key distinct_map_filter)
qed

lemma cell_offers_ok:
  assumes "store_inv s" "f \<in> set (cell_offers c s)"
  shows "offer_ok f" "offer_cell f = c"
proof -
  from assms(2) obtain k where "(k, f) \<in> set (offers s)" "offer_cell f = c"
    by (auto simp: cell_offers_def dict_values_def)
  then show "offer_ok f" "offer_cell f = c" using store_invD(2) [OF assms(1)] by blast+
qed

text \<open>
  What the reservation service relies on of an offer store: the offers of exactly the requested
  cell, each still valid, one per resource, in the order of the resource identifiers.
\<close>

locale offer_source =
  fixes eligible :: "string \<Rightarrow> string \<Rightarrow> instant \<Rightarrow> instant \<Rightarrow> consequence \<Rightarrow> instant \<Rightarrow> 's \<Rightarrow> offer list"
    and inv :: "'s \<Rightarrow> bool"
  assumes eligible_ok: "inv s \<Longrightarrow> f \<in> set (eligible t z a b q now s) \<Longrightarrow>
      offer_ok f \<and> offer_cell f = (t, z, a, b, q) \<and> now \<le> o_expires_at f"
    and eligible_distinct: "inv s \<Longrightarrow> distinct (List.map o_resource_id (eligible t z a b q now s))"
    and eligible_sorted: "inv s \<Longrightarrow> sorted (List.map o_resource_id (eligible t z a b q now s))"
begin

lemma eligible_capacity_nonneg:
  "inv s \<Longrightarrow> f \<in> set (eligible t z a b q now s) \<Longrightarrow>
     0 \<le> o_upward_capacity_kw f \<and> 0 \<le> o_downward_capacity_kw f"
  using eligible_ok by (auto simp: offer_ok_def)

lemma eligible_count:
  "inv s \<Longrightarrow> card (set (List.map o_resource_id (eligible t z a b q now s))) =
     length (eligible t z a b q now s)"
  using distinct_card [OF eligible_distinct] by (metis length_map)

text \<open>The order of allocation depends on the offers only, not on the order of their arrival.\<close>

lemma eligible_unique_order:
  assumes "inv s" "inv s'" "set (eligible t z a b q now s) = set (eligible t z a b q now s')"
  shows "eligible t z a b q now s = eligible t z a b q now s'"
proof -
  let ?xs = "eligible t z a b q now s" and ?ys = "eligible t z a b q now s'"
  have "List.map o_resource_id ?xs = List.map o_resource_id ?ys"
    using eligible_distinct eligible_sorted assms
    by (intro sorted_distinct_set_unique) (auto simp del: set_map simp: set_map)
  moreover have "inj_on o_resource_id (set ?xs \<union> set ?ys)"
    using eligible_distinct [OF assms(1)] unfolding assms(3) [symmetric] by (simp add: distinct_map)
  ultimately show ?thesis by (metis map_inj_on)
qed

end

interpretation mem_store: offer_source eligible_offers store_inv
  by unfold_locales (auto simp: eligible_offers_iff eligible_offers_distinct eligible_offers_sorted
      dest: cell_offers_ok)

definition ex_offer :: "string \<Rightarrow> int \<Rightarrow> offer" where
  "ex_offer rid n = \<lparr> o_resource_id = rid, o_zone_id = ''Z'', o_interval_start = 0,
     o_interval_end = minutes 15, o_baseline_power_kw = 2, o_upward_capacity_kw = 3/2,
     o_downward_capacity_kw = 1/4, o_upward_energy_kwh = 3/8, o_downward_energy_kwh = 1/16,
     o_confidence = 1/2, o_product_class = BEST_EFFORT_PEBC, o_consequence_type = DEFER,
     o_source_version = ''v'', o_source_epoch = 1, o_source_sequence = n, o_observed_at = 0,
     o_expires_at = minutes 15, o_tenant_id = ''T'' \<rparr>"

definition ex_store :: offer_store where
  "ex_store = \<lparr> minimum_participants = 2, offers = [], source_positions = [],
        disconnected_resources = {}, published_cohorts = [], suppressed_cells = {},
        privacy_query_counts = [], privacy_snapshots = [] \<rparr>"

definition ex_store2 :: offer_store where
  "ex_store2 = run_store ex_store [Op_upsert (ex_offer ''a'' 1), Op_upsert (ex_offer ''b'' 1)]"

section \<open>Properties\<close>

text \<open>
  C22 upsert_rejected_unchanged. An upsert that raises, whether the offer is stale or conflicts with
  the stored content of its position, leaves the whole store as it was, although the code writes
  the source position before it looks for the conflict.
\<close>

theorem upsert_rejected_unchanged:
  assumes "store_inv s" and "upsert f s = (s', Inl e)"
  shows "s' = s"
  using upsert_outcome [OF assms(1), of f] assms(2) by auto

theorem upsert_rejected_unchanged_witness:
  "upsert ((ex_offer ''a'' 1)\<lparr>o_baseline_power_kw := 9\<rparr>) ex_store2 = (ex_store2, Inl OfferVersionConflict)"
proof -
  let ?f = "(ex_offer ''a'' 1)\<lparr>o_baseline_power_kw := 9\<rparr>"
  have inv: "store_inv ex_store2" by code_simp
  have "snd (upsert ?f ex_store2) = Inl OfferVersionConflict" by code_simp
  then have up: "upsert ?f ex_store2 = (fst (upsert ?f ex_store2), Inl OfferVersionConflict)"
    by (metis prod.collapse)
  show ?thesis using up upsert_rejected_unchanged [OF inv up] by simp
qed

text \<open>
  C21 upsert_accepted_position. After an accepted upsert the offer is stored under its key, and
  every stored offer of the same resource comes from exactly the position of the new one: offers
  of an older session or sequence never survive beside newer ones.
\<close>

theorem upsert_accepted_position:
  assumes "store_inv s" and "offer_ok f" and "upsert f s = (s', Inr ())"
  shows "store_inv s' \<and> dict_get (offer_key f) (offers s') = Some f \<and>
    (\<forall>k e. dict_get k (offers s') = Some e \<longrightarrow> offer_resource_key e = offer_resource_key f \<longrightarrow>
      offer_position e = offer_position f)"
proof -
  have inv: "store_inv s'" using upsert_inv [OF assms(1,2)] assms(3) by simp
  have get: "dict_get (offer_key f) (offers s') = Some f"
    using upsert_outcome [OF assms(1), of f] assms(3)
    by (auto simp: upsert_stored_sets(5) dict_get_set)
  have "offer_position e = offer_position f"
    if "dict_get k (offers s') = Some e" "offer_resource_key e = offer_resource_key f" for k e
    using store_invD(3) [OF inv dict_get_Some_in [OF that(1)]] that(2) store_inv_key_resource(2) [OF inv get]
    by (metis option.inject)
  with inv get show ?thesis by blast
qed

theorem upsert_accepted_position_witness:
  "dict_get (offer_key (ex_offer ''a'' 2)) (offers (fst (upsert (ex_offer ''a'' 2) ex_store2)))
     = Some (ex_offer ''a'' 2)"
proof -
  have inv: "store_inv ex_store2" by code_simp
  have ok: "offer_ok (ex_offer ''a'' 2)" by code_simp
  have "is_ok (snd (upsert (ex_offer ''a'' 2) ex_store2))" by code_simp
  then have "upsert (ex_offer ''a'' 2) ex_store2 = (fst (upsert (ex_offer ''a'' 2) ex_store2), Inr ())"
    by (cases "upsert (ex_offer ''a'' 2) ex_store2"; cases "snd (upsert (ex_offer ''a'' 2) ex_store2)") auto
  from upsert_accepted_position [OF inv ok this] show ?thesis by blast
qed

lemma pair_Inr: "is_ok (snd p) \<Longrightarrow> p = (fst p, Inr (projr (snd p)))"
  by (cases p; cases "snd p") auto

definition ex_query :: "instant \<Rightarrow> offer_store \<Rightarrow> offer_store \<times> (model_error + aggregate list)" where
  "ex_query now s = query ''Z'' 0 (minutes 60) ''T'' now s"

definition ex_published :: offer_store where
  "ex_published = fst (ex_query 0 ex_store2)"

definition ex_later :: "store_op list" where
  "ex_later = [Op_consume ''T'' 0 9, Op_upsert ((ex_offer ''c'' 1)\<lparr>o_zone_id := ''Y''\<rparr>)]"

lemma ex_store2_inv: "store_inv ex_store2"
  by code_simp

lemma ex_query_1: "query ''Z'' 0 (minutes 60) ''T'' 0 ex_store2 =
    (ex_published, Inr [aggregate_offers (''T'', ''Z'', 0, minutes 15, DEFER) 0 [ex_offer ''a'' 1, ex_offer ''b'' 1]])"
proof -
  have "snd (ex_query 0 ex_store2) =
      Inr [aggregate_offers (''T'', ''Z'', 0, minutes 15, DEFER) 0 [ex_offer ''a'' 1, ex_offer ''b'' 1]]"
    by code_simp
  then show ?thesis unfolding ex_published_def ex_query_def by (metis prod.collapse)
qed

theorem publication_stable_witness:
  "hd (projr (snd (ex_query 5 (run_store ex_published ex_later)))) =
     (aggregate_offers (''T'', ''Z'', 0, minutes 15, DEFER) 0 [ex_offer ''a'' 1, ex_offer ''b'' 1])
       \<lparr>g_generated_at := 5\<rparr>"
proof -
  have "is_ok (snd (ex_query 5 (run_store ex_published ex_later)))" by code_simp
  then have q2: "query ''Z'' 0 (minutes 60) ''T'' 5 (run_store ex_published ex_later) =
      (fst (ex_query 5 (run_store ex_published ex_later)),
       Inr (projr (snd (ex_query 5 (run_store ex_published ex_later)))))"
    unfolding ex_query_def by (rule pair_Inr)
  have ne: "hd (projr (snd (ex_query 5 (run_store ex_published ex_later))))
      \<in> set (projr (snd (ex_query 5 (run_store ex_published ex_later))))" by code_simp
  have ops: "\<forall>p \<in> set ex_later. op_ok p" by code_simp
  have same: "aggregate_cell (hd (projr (snd (ex_query 5 (run_store ex_published ex_later))))) =
      aggregate_cell (aggregate_offers (''T'', ''Z'', 0, minutes 15, DEFER) 0 [ex_offer ''a'' 1, ex_offer ''b'' 1])"
    by code_simp
  show ?thesis
    by (rule publication_stable [OF ex_store2_inv ex_query_1 list.set_intros(1) ops q2 ne same])
qed

lemma query_published_window:
  assumes "query z a b t now s = (s', Inr gs)" "g \<in> set gs"
  shows "a \<le> g_interval_start g \<and> g_interval_end g \<le> b"
proof -
  have "distinct (List.map fst (window_groups t z a b now s))"
    using dict_ok_window_groups by (simp add: dict_ok_def)
  from query_groups_published [OF assms(1) [unfolded query_def] this assms(2)]
  obtain k fs where k: "(k, fs) \<in> set (window_groups t z a b now s)" "g = aggregate_offers (t, z, k) now fs"
    by blast
  from k(1) have fs: "fs = filter (\<lambda>f. in_window t z a b now f \<and> offer_group f = k) (dict_values (offers s)) \<and> fs \<noteq> []"
    by (rule iffD1 [OF window_groups_in])
  have "hd fs \<in> set fs" by (rule hd_in_set [OF conjunct2 [OF fs]])
  then obtain f where "f \<in> set fs" ..
  then have f: "in_window t z a b now f" "offer_group f = k"
    using conjunct1 [OF fs] by simp_all
  then have "aggregate_cell g = (t, z, o_interval_start f, o_interval_end f, o_consequence_type f)"
    using k(2) by (simp add: offer_group_def)
  then show ?thesis using f(1) by (simp add: aggregate_cell_def in_window_def)
qed

text \<open>
  C19 query_k_anonymous. Every aggregate a query returns describes a cell of the requested zone,
  tenant and window that is not suppressed, is a valid aggregate, and counts at least the
  configured minimum of distinct resources, each with an unexpired offer in that cell.
\<close>

theorem query_k_anonymous:
  assumes "query z a b t now s = (s', Inr gs)" and "g \<in> set gs"
  shows "aggregate_ok g \<and> g_zone_id g = z \<and> g_tenant_id g = t \<and>
    a \<le> g_interval_start g \<and> g_interval_end g \<le> b \<and>
    aggregate_cell g \<notin> suppressed_cells s' \<and>
    minimum_participants s \<le> g_participant_count g \<and>
    g_participant_count g = int (card (o_resource_id `
      {f \<in> set (cell_offers (aggregate_cell g) s). now \<le> o_expires_at f}))"
proof -
  from query_published [OF assms] obtain k where k: "aggregate_cell g = (t, z, k)"
    and geq: "g = aggregate_offers (t, z, k) now (filter (\<lambda>f. now \<le> o_expires_at f) (cell_offers (t, z, k) s))"
    and ok: "publication_ok t z now k (filter (\<lambda>f. now \<le> o_expires_at f) (cell_offers (t, z, k) s)) s s'"
    by blast
  have "g_participant_count g = int (card (cohort_of (filter (\<lambda>f. now \<le> o_expires_at f) (cell_offers (t, z, k) s))))"
    using geq by (cases k) (simp add: aggregate_offers_def)
  moreover have "g_zone_id g = z \<and> g_tenant_id g = t" using k by (simp add: aggregate_cell_def)
  ultimately show ?thesis
    using ok k geq query_published_window [OF assms] by (simp add: publication_ok_def cohort_of_def)
qed

theorem query_k_anonymous_witness:
  "minimum_participants ex_store2 \<le> g_participant_count
     (aggregate_offers (''T'', ''Z'', 0, minutes 15, DEFER) 0 [ex_offer ''a'' 1, ex_offer ''b'' 1])"
  using query_k_anonymous [OF ex_query_1 list.set_intros(1)] by blast

lemma query_group_published_mono:
  assumes "query_group t z now p s = (s', r)" "dict_get c (published_cohorts s) = Some C"
  shows "dict_get c (published_cohorts s') = Some C"
proof -
  have "query_group t z now (fst p, snd p) s = (s', r)" using assms(1) by simp
  then show ?thesis
  proof (cases rule: query_group_cases)
    case publish
    have "dict_get (t, z, fst p) (published_cohorts s) \<in> {None, Some (cohort_of (snd p))}"
      using publish(3)
      by (cases "dict_get (t, z, fst p) (published_cohorts s)")
        (auto simp: query_suppress_suppressed split: if_splits)
    then show ?thesis using assms(2) publish(1) by (auto simp: dict_get_set)
  qed (use assms(2) in simp_all)
qed

lemma query_groups_published_mono:
  "query_groups t z now ps s = (s', r) \<Longrightarrow> dict_get c (published_cohorts s) = Some C \<Longrightarrow>
     dict_get c (published_cohorts s') = Some C"
proof (induction ps arbitrary: s s' r)
  case (Cons p ps)
  then show ?case by (auto split: prod.splits sum.splits dest: query_group_published_mono)
qed simp

lemma store_step_published_mono:
  assumes "store_inv s" "dict_get c (published_cohorts s) = Some C"
  shows "dict_get c (published_cohorts (store_step s p)) = Some C"
proof (cases p)
  case (Op_upsert f)
  then show ?thesis using assms by (simp add: upsert_published)
next
  case (Op_remove rid t)
  then show ?thesis using assms remove_resource_fields(3) [of rid t s]
    by (cases "remove_resource rid t s") simp
next
  case (Op_query z a b t now)
  then show ?thesis using assms query_groups_published_mono
    by (cases "query z a b t now s") (auto simp: query_def)
qed (use assms in \<open>simp_all add: consume_frame publish_frame\<close>)

lemma run_store_published_mono:
  assumes "store_inv s" "\<forall>p \<in> set ops. op_ok p" "dict_get c (published_cohorts s) = Some C"
  shows "dict_get c (published_cohorts (run_store s ops)) = Some C"
  by (rule run_store_invariant [OF assms(1,2), where P = "\<lambda>s. dict_get c (published_cohorts s) = Some C"])
    (simp_all add: assms(3) store_step_published_mono)

text \<open>The resources whose unexpired offers make up a cell at the time of a query.\<close>

definition contributors :: "cell \<Rightarrow> instant \<Rightarrow> offer_store \<Rightarrow> string set" where
  "contributors c now s = cohort_of (filter (\<lambda>f. now \<le> o_expires_at f) (cell_offers c s))"

lemma query_published_cohort:
  assumes "query z a b t now s = (s', Inr gs)" "g \<in> set gs"
  shows "dict_get (aggregate_cell g) (published_cohorts s') = Some (contributors (aggregate_cell g) now s)"
  using query_published [OF assms] unfolding publication_ok_def contributors_def by auto

text \<open>
  C18 adjacent_publications_same_cohort. In every history of the store, two published cells of one
  tenant, zone and consequence type that share an interval boundary, whether published by one
  query or by two queries far apart, were computed over the same set of resources: the difference
  of neighbouring intervals never isolates a device that joined or left between them.
\<close>

theorem adjacent_publications_same_cohort:
  assumes start: "new_store k = Inr s0" and ops: "\<forall>p \<in> set ops. op_ok p" "\<forall>p \<in> set ops'. op_ok p"
    and q1: "query z a b t now (run_store s0 ops) = (s2, Inr gs)" "g \<in> set gs"
    and q2: "query z' a' b' t' now' (run_store s2 ops') = (s4, Inr gs')" "g' \<in> set gs'"
    and adj: "adjacent_cells (aggregate_cell g) (aggregate_cell g')"
  shows "contributors (aggregate_cell g) now (run_store s0 ops) =
    contributors (aggregate_cell g') now' (run_store s2 ops')"
proof -
  let ?ops = "ops @ [Op_query z a b t now] @ ops' @ [Op_query z' a' b' t' now']"
  have s4: "s4 = run_store s0 ?ops" using q1(1) q2(1) by (simp add: run_store_def)
  have "store_inv s2" using run_store_inv [OF store_inv_new [OF start] ops(1)] query_inv q1(1) by blast
  then have "dict_get (aggregate_cell g) (published_cohorts (run_store s2 ops')) =
      Some (contributors (aggregate_cell g) now (run_store s0 ops))"
    using run_store_published_mono [OF _ ops(2)] query_published_cohort [OF q1] by blast
  then have "dict_get (aggregate_cell g) (published_cohorts s4) =
      Some (contributors (aggregate_cell g) now (run_store s0 ops))"
    using query_groups_published_mono q2(1) [unfolded query_def] by blast
  moreover have "cohorts_agree s4"
    unfolding s4 by (rule run_store_cohorts_agree [OF start]) (use ops in auto)
  ultimately show ?thesis
    using query_published_cohort [OF q2] adj unfolding cohorts_agree_def by blast
qed

definition ex_next :: "string \<Rightarrow> offer" where
  "ex_next rid = (ex_offer rid 1)\<lparr>o_interval_start := minutes 15, o_interval_end := minutes 30,
     o_expires_at := minutes 30\<rparr>"

definition ex_ops :: "store_op list" where
  "ex_ops = [Op_upsert (ex_offer ''a'' 1), Op_upsert (ex_offer ''b'' 1)]"

definition ex_ops' :: "store_op list" where
  "ex_ops' = [Op_upsert (ex_next ''b''), Op_upsert (ex_next ''a'')]"

theorem adjacent_publications_same_cohort_witness:
  "contributors (''T'', ''Z'', 0, minutes 15, DEFER) 0 (run_store ex_store ex_ops) =
     contributors (''T'', ''Z'', minutes 15, minutes 30, DEFER) 7 (run_store ex_published ex_ops')"
proof -
  have start: "new_store 2 = Inr ex_store" by (simp add: new_store_def ex_store_def)
  have ops: "\<forall>p \<in> set ex_ops. op_ok p" "\<forall>p \<in> set ex_ops'. op_ok p" by code_simp+
  have q1: "query ''Z'' 0 (minutes 60) ''T'' 0 (run_store ex_store ex_ops) = (ex_published, Inr
      [aggregate_offers (''T'', ''Z'', 0, minutes 15, DEFER) 0 [ex_offer ''a'' 1, ex_offer ''b'' 1]])"
    using ex_query_1 by (simp only: ex_store2_def ex_ops_def)
  define q where "q = query ''Z'' (minutes 15) (minutes 60) ''T'' 7 (run_store ex_published ex_ops')"
  have "snd q = Inr [aggregate_offers (''T'', ''Z'', minutes 15, minutes 30, DEFER) 7
      [ex_next ''b'', ex_next ''a'']]"
    unfolding q_def by code_simp
  then have q2: "query ''Z'' (minutes 15) (minutes 60) ''T'' 7 (run_store ex_published ex_ops') = (fst q,
      Inr [aggregate_offers (''T'', ''Z'', minutes 15, minutes 30, DEFER) 7 [ex_next ''b'', ex_next ''a'']])"
    unfolding q_def by (metis prod.collapse)
  have adj: "adjacent_cells (''T'', ''Z'', 0, minutes 15, DEFER) (''T'', ''Z'', minutes 15, minutes 30, DEFER)"
    by (simp add: adjacent_cells_def)
  show ?thesis
    using adjacent_publications_same_cohort [OF start ops q1 list.set_intros(1) q2 list.set_intros(1)] adj
    by simp
qed

text \<open>
  C20 suppression_permanent. A cell that was ever suppressed, because a published offer in it was
  replaced or removed or its cohort changed, is never published again, whatever happens to the
  store afterwards.
\<close>

theorem suppression_permanent:
  assumes "store_inv s" and "c \<in> suppressed_cells s" and "\<forall>p \<in> set ops. op_ok p"
    and "query z a b t now (run_store s ops) = (s', Inr gs)" and "g \<in> set gs"
  shows "aggregate_cell g \<noteq> c"
proof -
  have "c \<in> suppressed_cells (run_store s ops)" using run_store_suppressed_mono [OF assms(1,3)] assms(2) by blast
  then have "c \<in> suppressed_cells s'" using query_frame(7) [OF assms(4)] by blast
  moreover from query_published [OF assms(4,5)] obtain k where "aggregate_cell g = (t, z, k)"
    "publication_ok t z now k (filter (\<lambda>f. now \<le> o_expires_at f) (cell_offers (t, z, k) (run_store s ops)))
       (run_store s ops) s'"
    by blast
  ultimately show ?thesis unfolding publication_ok_def by metis
qed

text \<open>A published cell, one of whose devices then disconnects and returns.\<close>

definition ex_suppressed :: offer_store where
  "ex_suppressed = run_store ex_published [Op_remove ''a'' ''T'']"

definition ex_returns :: "store_op list" where
  "ex_returns = [Op_upsert (ex_offer ''a'' 2), Op_upsert (ex_next ''b''), Op_upsert (ex_next ''c'')]"

theorem suppression_permanent_witness:
  "(''T'', ''Z'', 0, minutes 15, DEFER) \<in> suppressed_cells ex_suppressed \<and>
   (''T'', ''Z'', 0, minutes 15, DEFER) \<notin>
      aggregate_cell ` set (projr (snd (ex_query 9 (run_store ex_suppressed ex_returns))))"
proof -
  have inv: "store_inv ex_suppressed" by code_simp
  have c: "(''T'', ''Z'', 0, minutes 15, DEFER) \<in> suppressed_cells ex_suppressed" by code_simp
  have ops: "\<forall>p \<in> set ex_returns. op_ok p" by code_simp
  have "is_ok (snd (ex_query 9 (run_store ex_suppressed ex_returns)))" by code_simp
  then have q: "query ''Z'' 0 (minutes 60) ''T'' 9 (run_store ex_suppressed ex_returns) =
      (fst (ex_query 9 (run_store ex_suppressed ex_returns)),
       Inr (projr (snd (ex_query 9 (run_store ex_suppressed ex_returns)))))"
    unfolding ex_query_def by (rule pair_Inr)
  show ?thesis
  proof (intro conjI c notI, elim imageE)
    fix g
    assume g: "(''T'', ''Z'', 0, minutes 15, DEFER) = aggregate_cell g"
      "g \<in> set (projr (snd (ex_query 9 (run_store ex_suppressed ex_returns))))"
    show False using suppression_permanent [OF inv c ops q g(2)] g(1) by (rule notE [OF _ sym])
  qed
qed

text \<open>
  C24 query_budget_bounded. Whatever the clients do, within one budget window a tenant is granted at
  most the configured number of queries over the life of the store.
\<close>

theorem query_budget_bounded:
  assumes "new_store k = Inr s" and "\<forall>p \<in> set ops. op_ok p" and "0 \<le> l"
    and "\<forall>p \<in> set ops. \<forall>l'. p = Op_consume t w l' \<longrightarrow> l' = l"
  shows "int (granted t w s ops) \<le> l"
proof -
  have zero: "query_count t w s = 0"
    using assms(1) by (auto simp: new_store_def query_count_def split: if_splits)
  then show ?thesis
    using granted_bound [OF store_inv_new [OF assms(1)] assms(2,4)] assms(3) by simp
qed

theorem query_budget_bounded_witness:
  "int (granted ''T'' 0 ex_store [Op_consume ''T'' 0 1, Op_consume ''U'' 0 5, Op_consume ''T'' 0 1]) \<le> 1
   \<and> 0 < granted ''T'' 0 ex_store [Op_consume ''T'' 0 1, Op_consume ''U'' 0 5, Op_consume ''T'' 0 1]"
proof
  have "new_store 2 = Inr ex_store" by (simp add: new_store_def ex_store_def)
  then show "int (granted ''T'' 0 ex_store [Op_consume ''T'' 0 1, Op_consume ''U'' 0 5, Op_consume ''T'' 0 1]) \<le> 1"
    by (rule query_budget_bounded) simp_all
  show "0 < granted ''T'' 0 ex_store [Op_consume ''T'' 0 1, Op_consume ''U'' 0 5, Op_consume ''T'' 0 1]"
    by code_simp
qed

lemma snapshots_inv_cong: "privacy_snapshots s' = privacy_snapshots s \<Longrightarrow> snapshots_inv s' = snapshots_inv s"
  by (simp add: snapshots_inv_def)

lemma run_store_snapshots_inv:
  assumes "store_inv s" "\<forall>p \<in> set ops. op_ok p" "snapshots_inv s"
  shows "snapshots_inv (run_store s ops)"
proof (rule run_store_invariant [OF assms(1,2), where P = snapshots_inv, OF assms(3)])
  fix s p assume st: "store_inv s" "snapshots_inv s"
  show "snapshots_inv (store_step s p)"
  proof (cases "\<exists>t z e a b gs. p = Op_publish t z e a b gs")
    case True
    then show ?thesis using publish_snapshots_inv [OF st(2)] by (elim exE) simp
  next
    case False
    then have "privacy_snapshots (store_step s p) = privacy_snapshots s"
      using store_step_snapshots [OF st(1)] by simp
    then show ?thesis using st(2) snapshots_inv_cong by blast
  qed
qed

text \<open>
  C23 snapshot_immutable. The first aggregate published for a cell in a publication epoch is the one
  every later publication of that epoch returns: if an earlier publication returned an aggregate
  and, after any store operations, a later one of the same tenant, zone and epoch returns one for
  the same interval and consequence type, the two are equal, and a later window that covers the
  interval does return it.
\<close>

theorem snapshot_immutable:
  assumes "store_inv s" and "snapshots_inv s"
    and p1: "publish_privacy_snapshot t z e a b gs s = (s1, out)" and "g \<in> set out"
    and ops: "\<forall>p \<in> set ops. op_ok p"
    and p2: "publish_privacy_snapshot t z e a' b' gs' (run_store s1 ops) = (s2, out')"
  shows "(\<forall>h \<in> set out'. aggregate_order h = aggregate_order g \<longrightarrow> h = g) \<and>
    (a' \<le> g_interval_start g \<longrightarrow> g_interval_end g \<le> b' \<longrightarrow> g \<in> set out')"
proof -
  have inv1: "store_inv s1"
    using assms(1) p1 store_inv_cong [OF publish_frame(1-4), of t z e a b gs s] by simp
  have inv2: "snapshots_inv (run_store s1 ops)"
    using run_store_snapshots_inv [OF inv1 ops] publish_snapshots_inv [OF assms(2), of t z e a b gs] p1 by simp
  have "dict_get (snapshot_key t z e g) (privacy_snapshots s1) = Some g"
    using iffD1 [OF publish_result [OF assms(2) p1] assms(4)] by (rule conjunct1)
  then have "dict_get (snapshot_key t z e g) (privacy_snapshots (run_store s1 ops)) = Some g"
    by (rule run_store_keeps_snapshots [OF inv1 ops])
  then have kept: "dict_get (snapshot_key t z e g) (privacy_snapshots s2) = Some g"
    using publish_keeps p2 by (metis fst_conv)
  have "h = g" if "h \<in> set out'" "aggregate_order h = aggregate_order g" for h
  proof -
    have "snapshot_key t z e h = snapshot_key t z e g"
      using that(2) by (simp add: aggregate_order_def snapshot_key_def)
    moreover have "dict_get (snapshot_key t z e h) (privacy_snapshots s2) = Some h"
      using iffD1 [OF publish_result [OF inv2 p2] that(1)] by (rule conjunct1)
    ultimately show ?thesis using kept by (metis option.inject)
  qed
  moreover have "g \<in> set out'" if "a' \<le> g_interval_start g" "g_interval_end g \<le> b'"
    by (rule iffD2 [OF publish_result [OF inv2 p2]]) (intro conjI kept that)
  ultimately show ?thesis by blast
qed

definition ex_agg :: "string list \<Rightarrow> aggregate" where
  "ex_agg ids = aggregate_offers (''T'', ''Z'', 0, minutes 15, DEFER) 0 (List.map (\<lambda>i. ex_offer i 1) ids)"

definition ex_snapshot :: "offer_store \<times> aggregate list" where
  "ex_snapshot = publish_privacy_snapshot ''T'' ''Z'' 0 0 (minutes 30) [ex_agg [''a'', ''b'']] ex_store2"

theorem snapshot_immutable_witness:
  "{h \<in> set (snd (publish_privacy_snapshot ''T'' ''Z'' 0 0 (minutes 60) [ex_agg [''a'', ''b'', ''c'']]
       (run_store (fst ex_snapshot) ex_later))).
     aggregate_order h = aggregate_order (ex_agg [''a'', ''b''])} \<subseteq> {ex_agg [''a'', ''b'']}"
proof -
  let ?p2 = "publish_privacy_snapshot ''T'' ''Z'' 0 0 (minutes 60) [ex_agg [''a'', ''b'', ''c'']]
       (run_store (fst ex_snapshot) ex_later)"
  have s0: "snapshots_inv ex_store2"
  proof -
    have "privacy_snapshots ex_store2 = []" by code_simp
    then show ?thesis by (simp add: snapshots_inv_def)
  qed
  have p1: "publish_privacy_snapshot ''T'' ''Z'' 0 0 (minutes 30) [ex_agg [''a'', ''b'']] ex_store2
      = (fst ex_snapshot, snd ex_snapshot)"
    by (simp add: ex_snapshot_def)
  have g: "ex_agg [''a'', ''b''] \<in> set (snd ex_snapshot)" by code_simp
  have ops: "\<forall>p \<in> set ex_later. op_ok p" by code_simp
  have p2: "publish_privacy_snapshot ''T'' ''Z'' 0 0 (minutes 60) [ex_agg [''a'', ''b'', ''c'']]
       (run_store (fst ex_snapshot) ex_later) = (fst ?p2, snd ?p2)" by simp
  show ?thesis using snapshot_immutable [OF ex_store2_inv s0 p1 g ops p2] by blast
qed

end
