(* ===== verification/Privacy.thy ===== *)
theory Privacy
  imports Models
begin

text \<open>
  The publication policy, \<open>privacy.py\<close>: the catalogue of admissible windows, the publication
  epoch, and the quantisation of the published numbers.
\<close>

section \<open>The policy\<close>

record policy =
  pp_interval_minutes :: int
  pp_minimum_participants :: int
  pp_max_window_hours :: int
  pp_queries_per_interval :: int
  pp_power_resolution_kw :: rat
  pp_energy_resolution_kwh :: rat
  pp_confidence_resolution :: rat
  pp_participant_bucket_size :: int

datatype privacy_error = PrivacyValueError | PrivacyQueryRejected string

definition policy_ok :: "policy \<Rightarrow> bool" where
  "policy_ok p \<longleftrightarrow>
     \<not> (pp_interval_minutes p \<le> 0 \<or> pp_minimum_participants p \<le> 0 \<or> pp_max_window_hours p \<le> 0
        \<or> pp_queries_per_interval p \<le> 0 \<or> pp_power_resolution_kw p \<le> 0
        \<or> pp_energy_resolution_kwh p \<le> 0 \<or> pp_confidence_resolution p \<le> 0
        \<or> pp_participant_bucket_size p \<le> 0)
     \<and> \<not> pp_minimum_participants p < 10"

definition mk_policy :: "policy \<Rightarrow> privacy_error + policy" where
  "mk_policy p = (if policy_ok p then Inr p else Inl PrivacyValueError)"

definition default_policy :: policy where
  "default_policy = \<lparr> pp_interval_minutes = 15, pp_minimum_participants = 10,
     pp_max_window_hours = 24, pp_queries_per_interval = 60, pp_power_resolution_kw = 1,
     pp_energy_resolution_kwh = 1/4, pp_confidence_resolution = rnd64 (1/20),
     pp_participant_bucket_size = 5 \<rparr>"

section \<open>Clock arithmetic\<close>

text \<open>The fields of a UTC datetime an instant has; UTC hours start on multiples of an hour.\<close>

definition utc_minute :: "instant \<Rightarrow> int" where
  "utc_minute t = (t div minutes 1) mod 60"

definition utc_second :: "instant \<Rightarrow> int" where
  "utc_second t = (t div seconds 1) mod 60"

definition utc_microsecond :: "instant \<Rightarrow> int" where
  "utc_microsecond t = t mod microseconds_per_second"

text \<open>\<open>utc.replace(minute=m, second=0, microsecond=0)\<close>.\<close>

definition replace_minute :: "int \<Rightarrow> instant \<Rightarrow> instant" where
  "replace_minute m t = t - t mod minutes 60 + minutes m"

definition publication_epoch :: "policy \<Rightarrow> datetime \<Rightarrow> privacy_error + instant" where
  "publication_epoch p current =
     (if \<not> tz_aware current then Inl PrivacyValueError
      else let utc = instant_of current;
               minute = utc_minute utc - utc_minute utc mod pp_interval_minutes p
           in Inr (replace_minute minute utc))"

definition aligned :: "policy \<Rightarrow> instant \<Rightarrow> bool" where
  "aligned p utc \<longleftrightarrow> utc_minute utc mod pp_interval_minutes p = 0 \<and> utc_second utc = 0
     \<and> utc_microsecond utc = 0"

definition validate_window :: "policy \<Rightarrow> datetime \<Rightarrow> datetime \<Rightarrow> privacy_error + unit" where
  "validate_window p start finish =
     (if \<not> tz_aware start \<or> \<not> tz_aware finish then Inl (PrivacyQueryRejected ''timezone_required'')
      else if instant_of finish \<le> instant_of start then Inl (PrivacyQueryRejected ''invalid_window'')
      else if instant_of finish - instant_of start > minutes (60 * pp_max_window_hours p)
        then Inl (PrivacyQueryRejected ''window_too_large'')
      else if \<not> aligned p (instant_of start) \<or> \<not> aligned p (instant_of finish)
        then Inl (PrivacyQueryRejected ''window_not_aligned'')
      else Inr ())"

section \<open>Quantisation\<close>

definition floor_to :: "rat \<Rightarrow> rat \<Rightarrow> rat" where
  "floor_to resolution v =
     py_round (fmul (rnd64 (of_int \<lfloor>fdiv (fadd v (rnd64 (1 / 10 ^ 12))) resolution\<rfloor>)) resolution) 9"

definition nearest_to :: "rat \<Rightarrow> rat \<Rightarrow> rat" where
  "nearest_to resolution v =
     py_round (fmul (rnd64 (of_int (round_half_even (fdiv v resolution)))) resolution) 9"

definition sanitize :: "policy \<Rightarrow> aggregate \<Rightarrow> instant \<Rightarrow> aggregate" where
  "sanitize p g epoch =
     (let participant_count = (g_participant_count g div pp_participant_bucket_size p)
            * pp_participant_bucket_size p
      in g\<lparr> g_baseline_power_kw := nearest_to (pp_power_resolution_kw p) (g_baseline_power_kw g),
            g_upward_capacity_kw := floor_to (pp_power_resolution_kw p) (g_upward_capacity_kw g),
            g_downward_capacity_kw := floor_to (pp_power_resolution_kw p) (g_downward_capacity_kw g),
            g_upward_energy_kwh := floor_to (pp_energy_resolution_kwh p) (g_upward_energy_kwh g),
            g_downward_energy_kwh := floor_to (pp_energy_resolution_kwh p) (g_downward_energy_kwh g),
            g_participant_count := max 1 participant_count,
            g_confidence := floor_to (pp_confidence_resolution p) (g_confidence g),
            g_generated_at := epoch \<rparr>)"

definition eligible :: "policy \<Rightarrow> aggregate \<Rightarrow> bool" where
  "eligible p g \<longleftrightarrow> g_participant_count g \<ge> pp_minimum_participants p"

section \<open>Windows and epochs\<close>

lemma mk_policy_Inr: "mk_policy p = Inr p' \<longleftrightarrow> policy_ok p \<and> p' = p"
  by (auto simp: mk_policy_def)

lemma validate_window_Inr:
  "validate_window p a b = Inr u \<longleftrightarrow> tz_aware a \<and> tz_aware b \<and> instant_of a < instant_of b \<and>
     instant_of b - instant_of a \<le> minutes (60 * pp_max_window_hours p) \<and>
     aligned p (instant_of a) \<and> aligned p (instant_of b)"
  by (cases u) (auto simp: validate_window_def)

text \<open>
  Alignment in plain arithmetic: an aligned instant is a whole number of minutes, and that number
  is a multiple of the interval within its hour.
\<close>

lemma aligned_iff:
  "aligned p t \<longleftrightarrow> (\<exists>h m. t = minutes (60 * h + m) \<and> 0 \<le> m \<and> m < 60 \<and> m mod pp_interval_minutes p = 0)"
proof
  assume al: "aligned p t"
  then have us: "t mod 1000000 = 0" and sec: "(t div 1000000) mod 60 = 0"
    and mn: "((t div 60000000) mod 60) mod pp_interval_minutes p = 0"
    by (simp_all add: aligned_def utc_minute_def utc_second_def utc_microsecond_def minutes_def seconds_def)
  define n where "n = t div 60000000"
  have "t = 60000000 * n"
    using us sec zdiv_zmult2_eq [of 60 t 1000000] by (auto simp: n_def)
  moreover have "n = 60 * (n div 60) + n mod 60" by simp
  ultimately show "\<exists>h m. t = minutes (60 * h + m) \<and> 0 \<le> m \<and> m < 60 \<and> m mod pp_interval_minutes p = 0"
    using mn by (intro exI [of _ "n div 60"] exI [of _ "n mod 60"]) (simp add: minutes_def n_def)
next
  assume "\<exists>h m. t = minutes (60 * h + m) \<and> 0 \<le> m \<and> m < 60 \<and> m mod pp_interval_minutes p = 0"
  then obtain h m where t: "t = minutes (60 * h + m)"
      and m: "0 \<le> m" "m < 60" "m mod pp_interval_minutes p = 0"
    by (elim exE conjE) (rule that)
  define n where "n = 60 * h + m"
  have t': "t = 60000000 * n" using t by (simp add: minutes_def n_def)
  have "n mod 60 = m" using m by (simp add: n_def)
  moreover have "t div 60000000 = n" by (simp add: t')
  moreover have "t = 60 * n * 1000000" by (simp add: t')
  then have "t mod 1000000 = 0" "t div 1000000 = 60 * n" by simp_all
  ultimately show "aligned p t"
    using m(3) by (simp add: aligned_def utc_minute_def utc_second_def utc_microsecond_def minutes_def seconds_def)
qed

lemma publication_epoch_eq:
  assumes "publication_epoch p (Aware t off) = Inr e"
  shows "e = minutes (60 * (t div 3600000000) + (utc_minute t - utc_minute t mod pp_interval_minutes p))"
  using assms
  by (auto simp: publication_epoch_def tz_aware_def instant_of_def replace_minute_def minutes_def Let_def
      minus_mod_eq_mult_div [symmetric] algebra_simps)

lemma utc_minute_split: "t = t div 3600000000 * 3600000000 + utc_minute t * 60000000 + t mod 60000000"
proof -
  have "t div 60000000 div 60 = t div 3600000000" using zdiv_zmult2_eq [of 60 t 60000000] by simp
  then have "t div 60000000 = 60 * (t div 3600000000) + utc_minute t"
    unfolding utc_minute_def minutes_def by presburger
  then show ?thesis by presburger
qed

lemma epoch_greatest_aligned:
  assumes k: "0 < pp_interval_minutes p" and e: "publication_epoch p (Aware t off) = Inr e"
  shows "aligned p e \<and> e \<le> t \<and> (\<forall>a. aligned p a \<longrightarrow> a \<le> t \<longrightarrow> a \<le> e)"
proof -
  let ?k = "pp_interval_minutes p" and ?m = "utc_minute t"
  have m: "0 \<le> ?m" "?m < 60" by (simp_all add: utc_minute_def)
  have r: "0 \<le> ?m mod ?k" "?m mod ?k \<le> ?m" using k m by (simp_all add: zmod_le_nonneg_dividend)
  note e' = publication_epoch_eq [OF e]
  have al: "aligned p e" unfolding aligned_iff e'
  proof (intro exI conjI)
    show "minutes (60 * (t div 3600000000) + (?m - ?m mod ?k)) =
        minutes (60 * (t div 3600000000) + (?m - ?m mod ?k))" ..
    show "0 \<le> ?m - ?m mod ?k" "?m - ?m mod ?k < 60" using m r by linarith+
    show "(?m - ?m mod ?k) mod ?k = 0" by (simp add: minus_mod_eq_mult_div)
  qed
  have split: "t = (60 * (t div 3600000000) + ?m) * 60000000 + t mod 60000000"
    using utc_minute_split [of t] by simp
  have "0 \<le> t mod 60000000" "t mod 60000000 < 60000000" by simp_all
  note b = this
  have le: "e \<le> t"
  proof -
    have "e \<le> (60 * (t div 3600000000) + ?m) * 60000000" using r by (simp add: e' minutes_def)
    then show ?thesis using split b by linarith
  qed
  have "a \<le> e" if a: "aligned p a" "a \<le> t" for a
  proof -
    obtain h n where a': "a = minutes (60 * h + n)" "0 \<le> n" "n < 60" "n mod ?k = 0"
      using a(1) unfolding aligned_iff by (elim exE conjE) (rule that)
    have "60 * h + n \<le> 60 * (t div 3600000000) + ?m" using a(2) split b a'(1) by (simp add: minutes_def)
    then have cases: "h < t div 3600000000 \<or> (h = t div 3600000000 \<and> n \<le> ?m)" using m a' by linarith
    have "n \<le> ?m - ?m mod ?k" if "n \<le> ?m"
    proof -
      obtain q where q: "n = ?k * q" using a'(4) by (auto simp: mod_eq_0_iff_dvd dvd_def)
      have "q = n div ?k" using q k by simp
      then have "q \<le> ?m div ?k" using zdiv_mono1 [OF that k] by simp
      then show ?thesis using k q by (simp add: minus_mod_eq_mult_div mult_left_mono)
    qed
    then have "60 * h + n \<le> 60 * (t div 3600000000) + (?m - ?m mod ?k)" using cases a' r by auto
    then show ?thesis by (simp add: a'(1) e' minutes_def)
  qed
  with al le show ?thesis by blast
qed

section \<open>What quantisation preserves\<close>

lemma rnd64_upper: "0 \<le> x \<Longrightarrow> rnd64 x \<le> x + x / 10 ^ 15 + 1 / 10 ^ 30"
proof -
  assume x: "0 \<le> x"
  have "rnd64 x \<le> x + (x / 2 ^ 53 + 1 / 2 ^ 1075)"
    using rnd64_error_relative [of x] x by (simp add: abs_le_iff)
  moreover have "x / 2 ^ 53 \<le> x / 10 ^ 15" using x by (intro divide_left_mono) simp_all
  moreover have "(1 :: rat) / 2 ^ 1075 \<le> 1 / 10 ^ 30" by simp
  ultimately show ?thesis by linarith
qed

lemma rnd64_tiny: "rnd64 (1 / 10 ^ 12) \<le> 2 / 10 ^ 12" "0 \<le> rnd64 (1 / 10 ^ 12)"
  using rnd64_upper [of "1 / 10 ^ 12"] by (simp_all add: rnd64_nonneg)

definition floored :: "rat \<Rightarrow> rat \<Rightarrow> rat" where
  "floored r v = fmul (rnd64 (of_int \<lfloor>fdiv (fadd v (rnd64 (1 / 10 ^ 12))) r\<rfloor>)) r"

lemma floored_nonneg:
  assumes "0 < r" "0 \<le> v"
  shows "0 \<le> floored r v"
proof -
  have "0 \<le> fdiv (fadd v (rnd64 (1 / 10 ^ 12))) r"
    using assms rnd64_tiny(2) by (intro fdiv_nonneg fadd_nonneg) simp_all
  then show ?thesis unfolding floored_def using assms by (intro fmul_nonneg rnd64_nonneg) simp_all
qed

lemma floored_upper:
  assumes r: "0 < r" and v: "0 \<le> v"
  shows "floored r v \<le> v + v / 10 ^ 14 + 3 / 10 ^ 12"
proof -
  define w where "w = fadd v (rnd64 (1 / 10 ^ 12))"
  define q where "q = fdiv w r"
  define n where "n = (of_int \<lfloor>q\<rfloor> :: rat)"
  have f: "floored r v = fmul (rnd64 n) r" by (simp add: floored_def w_def q_def n_def)
  have w0: "0 \<le> w" using v rnd64_tiny(2) by (simp add: w_def fadd_nonneg)
  have q0: "0 \<le> q" using w0 r by (simp add: q_def fdiv_nonneg)
  then have n0: "0 \<le> n" by (simp add: n_def)
  have w1: "w \<le> v + v / 10 ^ 15 + 21 / 10 ^ 13"
  proof -
    define e where "e = rnd64 (1 / 10 ^ 12)"
    have "e \<le> 2 / 10 ^ 12" "0 \<le> e" using rnd64_tiny by (simp_all add: e_def)
    moreover have "w \<le> (v + e) + (v + e) / 10 ^ 15 + 1 / 10 ^ 30"
      using rnd64_upper [of "v + e"] v \<open>0 \<le> e\<close> by (simp add: w_def fadd_def e_def)
    ultimately show ?thesis by (simp add: field_simps)
  qed
  have wr: "0 \<le> w / r" using w0 r by simp
  have q1: "q \<le> w / r + w / r / 10 ^ 15 + 1 / 10 ^ 30"
    using rnd64_upper [OF wr] by (simp add: q_def fdiv_def)
  show ?thesis
  proof (cases "1 \<le> q")
    case False
    then have "n = 0" using q0 by (simp add: n_def floor_eq_iff)
    then show ?thesis using v by (simp add: f fmul_def)
  next
    case True
    then have "1 / 2 \<le> w / r" using q1 wr by simp
    then have r2: "r \<le> 2 * w" using r by (simp add: pos_le_divide_eq)
    have "n \<le> q" by (simp add: n_def)
    then have "rnd64 n \<le> q + q / 10 ^ 15 + 1 / 10 ^ 30" using rnd64_upper [OF n0] by simp
    then have "rnd64 n \<le> w / r * (1 + 21 / 10 ^ 16) + 3 / 10 ^ 30" using q1 wr by simp
    then have "rnd64 n * r \<le> (w / r * (1 + 21 / 10 ^ 16) + 3 / 10 ^ 30) * r"
      using r by (intro mult_right_mono) simp_all
    also have "\<dots> = w * (1 + 21 / 10 ^ 16) + 3 / 10 ^ 30 * r" using r by (simp add: field_simps)
    finally have m: "rnd64 n * r \<le> w * (1 + 22 / 10 ^ 16)" using r2 w0 by simp
    define y where "y = rnd64 n * r"
    have "0 \<le> y" using r rnd64_nonneg [OF n0] by (simp add: y_def)
    from rnd64_upper [OF this] have "floored r v \<le> w * (1 + 4 / 10 ^ 15) + 1 / 10 ^ 30"
      using m w0 unfolding f fmul_def y_def [symmetric] by simp
    then show ?thesis using w1 v by simp
  qed
qed

lemma floor_to_floored: "floor_to r v = py_round (floored r v) 9"
  by (simp add: floor_to_def floored_def)

lemma floor_to_nonneg: "0 < r \<Longrightarrow> 0 \<le> v \<Longrightarrow> 0 \<le> floor_to r v"
  using floored_nonneg [of r v] round_half_even_mono [of 0 "floored r v * 10 ^ 9"] round_half_even_of_int [of 0]
  by (simp add: floor_to_floored py_round_def rnd64_nonneg)

lemma floor_to_upper:
  assumes "0 < r" "0 \<le> v" "v \<le> 10 ^ 6"
  shows "floor_to r v \<le> v + 2 / 10 ^ 8"
proof -
  define x where "x = floored r v"
  define k where "k = (of_int (round_half_even (x * 10 ^ 9)) :: rat)"
  have x: "0 \<le> x" "x \<le> v + v / 10 ^ 14 + 3 / 10 ^ 12"
    using floored_nonneg floored_upper assms by (auto simp: x_def)
  have k: "k \<le> x * 10 ^ 9 + 1 / 2"
    using abs_le_D1 [OF round_half_even_error [of "x * 10 ^ 9"]] unfolding k_def by linarith
  have "0 \<le> k" using x(1) round_half_even_mono [of 0 "x * 10 ^ 9"] round_half_even_of_int [of 0]
    by (simp add: k_def)
  then have "floor_to r v \<le> k / 10 ^ 9 + k / 10 ^ 9 / 10 ^ 15 + 1 / 10 ^ 30"
    using rnd64_upper [of "k / 10 ^ 9"] by (simp add: floor_to_floored py_round_def x_def k_def)
  then show ?thesis using k x(2) assms(3) by simp
qed

lemma floor_to_le_1:
  assumes "0 < r" "0 \<le> v" "v \<le> 1"
  shows "floor_to r v \<le> 1"
proof -
  have "floored r v \<le> v + v / 10 ^ 14 + 3 / 10 ^ 12" using floored_upper assms by simp
  then have "floored r v * 10 ^ 9 < of_int (10 ^ 9) + 1 / 2" using assms(3) by simp
  then have "(of_int (round_half_even (floored r v * 10 ^ 9)) :: rat) < of_int (10 ^ 9 + 1)"
    using abs_le_D1 [OF round_half_even_error [of "floored r v * 10 ^ 9"]] by simp
  then have "round_half_even (floored r v * 10 ^ 9) < 10 ^ 9 + 1" by (simp only: of_int_less_iff)
  then have "round_half_even (floored r v * 10 ^ 9) \<le> 10 ^ 9" by simp
  then have "(of_int (round_half_even (floored r v * 10 ^ 9)) :: rat) / 10 ^ 9 \<le> 1" by simp
  then show ?thesis unfolding floor_to_floored py_round_def
    by (intro f64.le_rep) (simp_all add: is_f64_of_int [of 1, simplified])
qed

text \<open>
  C27 sanitize_conservative. Under every admissible policy, publishing the quantised form of a valid
  aggregate with quantities up to a gigawatt never promises more than the aggregate had, beyond
  twenty nanounits of rounding, and the result, which the code does not validate again, is
  still a valid aggregate of the same cell.
\<close>

theorem sanitize_conservative:
  assumes "policy_ok p" and "aggregate_ok g"
    and "g_upward_capacity_kw g \<le> 10 ^ 6" "g_downward_capacity_kw g \<le> 10 ^ 6"
    and "g_upward_energy_kwh g \<le> 10 ^ 6" "g_downward_energy_kwh g \<le> 10 ^ 6"
  shows "aggregate_ok (sanitize p g epoch) \<and> aggregate_cell (sanitize p g epoch) = aggregate_cell g \<and>
    g_upward_capacity_kw (sanitize p g epoch) \<le> g_upward_capacity_kw g + 2 / 10 ^ 8 \<and>
    g_downward_capacity_kw (sanitize p g epoch) \<le> g_downward_capacity_kw g + 2 / 10 ^ 8 \<and>
    g_upward_energy_kwh (sanitize p g epoch) \<le> g_upward_energy_kwh g + 2 / 10 ^ 8 \<and>
    g_downward_energy_kwh (sanitize p g epoch) \<le> g_downward_energy_kwh g + 2 / 10 ^ 8 \<and>
    g_participant_count (sanitize p g epoch) \<le> g_participant_count g \<and>
    g_generated_at (sanitize p g epoch) = epoch"
proof -
  have r: "0 < pp_power_resolution_kw p" "0 < pp_energy_resolution_kwh p" "0 < pp_confidence_resolution p"
    "0 < pp_participant_bucket_size p"
    using assms(1) by (auto simp: policy_ok_def)
  have nn: "0 \<le> g_upward_capacity_kw g" "0 \<le> g_downward_capacity_kw g" "0 \<le> g_upward_energy_kwh g"
    "0 \<le> g_downward_energy_kwh g" "1 \<le> g_participant_count g" "0 \<le> g_confidence g" "g_confidence g \<le> 1"
    using assms(2) by (auto simp: aggregate_ok_def)
  have "g_participant_count g div pp_participant_bucket_size p * pp_participant_bucket_size p
      \<le> g_participant_count g"
    using r(4) pos_mod_sign [of "pp_participant_bucket_size p" "g_participant_count g"]
    by (simp add: minus_mod_eq_div_mult [symmetric])
  then have count: "g_participant_count (sanitize p g epoch) \<le> g_participant_count g"
    using nn(5) by (simp add: sanitize_def)
  have "aggregate_ok (sanitize p g epoch)"
    using r nn by (simp add: aggregate_ok_def sanitize_def floor_to_nonneg floor_to_le_1)
  moreover have "aggregate_cell (sanitize p g epoch) = aggregate_cell g"
    by (simp add: aggregate_cell_def sanitize_def)
  ultimately show ?thesis
    using count r nn assms(3-6) by (simp add: sanitize_def floor_to_upper [simplified])
qed

definition ex_aggregate :: aggregate where
  "ex_aggregate = \<lparr> g_zone_id = ''Z'', g_interval_start = 0, g_interval_end = minutes 15,
     g_baseline_power_kw = 25/2, g_upward_capacity_kw = 31/4, g_downward_capacity_kw = 0,
     g_upward_energy_kwh = 15/8, g_downward_energy_kwh = 0, g_participant_count = 14,
     g_confidence = 7/8, g_product_class = BEST_EFFORT_PEBC, g_consequence_type = DEFER,
     g_generated_at = 0, g_tenant_id = ''T'' \<rparr>"

theorem sanitize_conservative_witness:
  "g_participant_count (sanitize default_policy ex_aggregate 0) \<le> 14 \<and>
   g_upward_capacity_kw (sanitize default_policy ex_aggregate 0) \<le> 31/4 + 2 / 10 ^ 8"
proof -
  have ok: "policy_ok default_policy" "aggregate_ok ex_aggregate" by code_simp+
  have b: "g_upward_capacity_kw ex_aggregate \<le> 10 ^ 6" "g_downward_capacity_kw ex_aggregate \<le> 10 ^ 6"
    "g_upward_energy_kwh ex_aggregate \<le> 10 ^ 6" "g_downward_energy_kwh ex_aggregate \<le> 10 ^ 6"
    by (simp_all add: ex_aggregate_def)
  have v: "g_participant_count ex_aggregate = 14" "g_upward_capacity_kw ex_aggregate = 31/4"
    by (simp_all add: ex_aggregate_def)
  show ?thesis using sanitize_conservative [OF ok b, of 0] unfolding v by blast
qed

text \<open>
  C28 epoch_is_last_aligned. The publication epoch of a moment is the last aligned instant not after
  it, for every positive interval, so all queries between two aligned instants share one epoch and
  one set of snapshots.
\<close>

theorem epoch_is_last_aligned:
  assumes "policy_ok p" and "publication_epoch p (Aware t off) = Inr e"
  shows "aligned p e \<and> e \<le> t \<and> \<not> (\<exists>a. aligned p a \<and> e < a \<and> a \<le> t)"
  using epoch_greatest_aligned [OF _ assms(2)] assms(1) by (force simp: policy_ok_def)

theorem epoch_is_last_aligned_witness:
  "aligned default_policy (minutes 45) \<and>
   \<not> (\<exists>a. aligned default_policy a \<and> minutes 45 < a \<and> a \<le> minutes 59)"
proof -
  have "policy_ok default_policy" by code_simp
  moreover have "publication_epoch default_policy (Aware (minutes 59) 0) = Inr (minutes 45)" by code_simp
  ultimately show ?thesis using epoch_is_last_aligned by blast
qed

end
