(* ===== verification/Webhooks.thy ===== *)
theory Webhooks
  imports Prelude
begin

text \<open>
  The webhook dispatcher, \<open>adapters/webhooks.py\<close>. The HTTP sender is a constructor argument of
  the dispatcher, so it is a parameter here: its answer to the n-th call. JSON encoding and the
  HMAC are parameters too; the property of the HMAC that matters to a receiver, that it is a
  function of the secret and the body, is its type.
\<close>

datatype send_outcome = Status int | OSErr string | OtherErr string

type_synonym headers = "(string \<times> string) list"

record webhook_delivery =
  wd_event :: string
  wd_callback_url :: string
  wd_attempts :: nat
  wd_delivered :: bool

text \<open>
  The configuration: \<open>json.dumps(...).encode()\<close>, the HMAC with the secret, the attempt bound and
  the sender. The state: how often the sender was called and the deliveries recorded.
\<close>

record ('p, 'b) dispatcher =
  wc_encode :: "'p \<Rightarrow> 'b"
  wc_hmac :: "'b \<Rightarrow> string"
  wc_max_attempts :: int
  wc_sender :: "nat \<Rightarrow> string \<Rightarrow> 'b \<Rightarrow> headers \<Rightarrow> send_outcome"

record webhook_state =
  wh_calls :: nat
  wh_deliveries :: "webhook_delivery list"

definition truthy :: "string option \<Rightarrow> bool" where
  "truthy x = (case x of None \<Rightarrow> False | Some v \<Rightarrow> v \<noteq> [])"

definition webhook_headers :: "('p, 'b) dispatcher \<Rightarrow> string \<Rightarrow> 'b \<Rightarrow> string option \<Rightarrow> headers" where
  "webhook_headers cfg event body event_id =
     [(''Content-Type'', ''application/json''), (''X-DER-Flex-Event'', event),
      (''X-DER-Flex-Signature'', ''sha256='' @ wc_hmac cfg body)]
     @ (if truthy event_id then [(''X-DER-Flex-Event-ID'', the event_id)] else [])"

text \<open>\<open>Inl\<close> is an exception the code does not catch: anything that is not an OSError.\<close>

definition send_once ::
    "('p, 'b) dispatcher \<Rightarrow> string \<Rightarrow> string \<Rightarrow> 'p \<Rightarrow> string option \<Rightarrow> webhook_state
     \<Rightarrow> webhook_state \<times> (string + bool \<times> string option)" where
  "send_once cfg callback_url event payload event_id w =
     (let body = wc_encode cfg payload;
          outcome = wc_sender cfg (wh_calls w) callback_url body (webhook_headers cfg event body event_id)
      in (w\<lparr>wh_calls := wh_calls w + 1\<rparr>,
          case outcome of
            OSErr e \<Rightarrow> Inr (False, Some e)
          | OtherErr e \<Rightarrow> Inl e
          | Status n \<Rightarrow> if 200 \<le> n \<and> n < 300 then Inr (True, None) else Inr (False, Some ''HTTP'')))"

text \<open>The attempt loop: \<open>n\<close> attempts are left, \<open>done\<close> were made.\<close>

fun attempts_loop ::
    "('p, 'b) dispatcher \<Rightarrow> string \<Rightarrow> string \<Rightarrow> 'p \<Rightarrow> nat \<Rightarrow> nat \<Rightarrow> webhook_state
     \<Rightarrow> webhook_state \<times> (string + nat \<times> bool)" where
  "attempts_loop cfg url event payload 0 made w = (w, Inr (made, False))"
| "attempts_loop cfg url event payload (Suc n) made w =
     (case send_once cfg url event payload None w of
        (w', Inl e) \<Rightarrow> (w', Inl e)
      | (w', Inr (delivered, _)) \<Rightarrow>
          if delivered then (w', Inr (Suc made, True))
          else attempts_loop cfg url event payload n (Suc made) w')"

definition deliver ::
    "('p, 'b) dispatcher \<Rightarrow> string \<Rightarrow> string \<Rightarrow> 'p \<Rightarrow> webhook_state \<Rightarrow> webhook_state \<times> (string + unit)" where
  "deliver cfg callback_url event payload w =
     (case attempts_loop cfg callback_url event payload (nat (wc_max_attempts cfg)) 0 w of
        (w', Inl e) \<Rightarrow> (w', Inl e)
      | (w', Inr (attempts, delivered)) \<Rightarrow>
          (w'\<lparr>wh_deliveries := wh_deliveries w' @
             [\<lparr>wd_event = event, wd_callback_url = callback_url, wd_attempts = attempts,
               wd_delivered = delivered\<rparr>]\<rparr>, Inr ()))"

section \<open>The delivery loop\<close>

definition send_ok :: "send_outcome \<Rightarrow> bool" where
  "send_ok r = (case r of Status n \<Rightarrow> 200 \<le> n \<and> n < 300 | _ \<Rightarrow> False)"

definition send_answer :: "('p, 'b) dispatcher \<Rightarrow> string \<Rightarrow> string \<Rightarrow> 'p \<Rightarrow> nat \<Rightarrow> send_outcome" where
  "send_answer cfg url event payload n = wc_sender cfg n url (wc_encode cfg payload)
     (webhook_headers cfg event (wc_encode cfg payload) None)"

definition send_raises :: "send_outcome \<Rightarrow> bool" where
  "send_raises r = (case r of OtherErr _ \<Rightarrow> True | _ \<Rightarrow> False)"

lemma send_once_cases:
  "send_once cfg url event payload None w =
     (w\<lparr>wh_calls := wh_calls w + 1\<rparr>,
      case send_answer cfg url event payload (wh_calls w) of
        OSErr e \<Rightarrow> Inr (False, Some e)
      | OtherErr e \<Rightarrow> Inl e
      | Status n \<Rightarrow> if 200 \<le> n \<and> n < 300 then Inr (True, None) else Inr (False, Some ''HTTP''))"
  by (simp add: send_once_def send_answer_def Let_def)

text \<open>
  What the loop did: it stopped at the first accepted call, or used every attempt it had, and no
  call before the last one was accepted.
\<close>

lemma attempts_loop_outcome:
  assumes "attempts_loop cfg url event payload n made w = (w', Inr (attempts, delivered))"
  shows "wh_calls w' = wh_calls w + (attempts - made) \<and> made \<le> attempts \<and> attempts \<le> made + n \<and>
    wh_deliveries w' = wh_deliveries w \<and>
    (\<forall>i < attempts - made - (if delivered then 1 else 0).
       \<not> send_ok (send_answer cfg url event payload (wh_calls w + i))) \<and>
    (delivered \<longrightarrow> made < attempts \<and> send_ok (send_answer cfg url event payload (wh_calls w' - 1))) \<and>
    (\<not> delivered \<longrightarrow> attempts = made + n)"
  using assms
proof (induction n arbitrary: made w)
  case (Suc n)
  let ?a = "send_answer cfg url event payload (wh_calls w)"
  show ?case
  proof (cases "send_ok ?a")
    case True
    then obtain k where "?a = Status k" "200 \<le> k" "k < 300" by (cases ?a) (auto simp: send_ok_def)
    then show ?thesis using Suc.prems True by (auto simp: send_once_cases)
  next
    case False
    let ?w = "w\<lparr>wh_calls := wh_calls w + 1\<rparr>"
    have rest: "attempts_loop cfg url event payload n (Suc made) ?w = (w', Inr (attempts, delivered))"
      using Suc.prems False by (cases ?a) (auto simp: send_once_cases send_ok_def split: if_splits)
    note ih = Suc.IH [OF rest]
    have "\<not> send_ok (send_answer cfg url event payload (wh_calls w + i))"
      if "i < attempts - made - (if delivered then 1 else 0)" for i
    proof (cases i)
      case 0
      then show ?thesis using False by simp
    next
      case (Suc j)
      then have "j < attempts - Suc made - (if delivered then 1 else 0)" using that by (auto split: if_splits)
      then show ?thesis using ih Suc by auto
    qed
    then show ?thesis using ih by auto
  qed
qed simp

text \<open>
  C29 deliver_bounded_attempts. A delivery that raises nothing appends exactly one record; it makes
  at most the configured number of calls, stops at the first 2xx answer, is recorded as delivered
  exactly when the last call was answered 2xx, and as undelivered only after every attempt failed.
\<close>

theorem deliver_bounded_attempts:
  assumes "deliver cfg url event payload w = (w', Inr ())"
  shows "\<exists>d. wh_deliveries w' = wh_deliveries w @ [d] \<and> wd_event d = event \<and> wd_callback_url d = url \<and>
    wh_calls w' = wh_calls w + wd_attempts d \<and> int (wd_attempts d) \<le> max 0 (wc_max_attempts cfg) \<and>
    (wd_delivered d \<longleftrightarrow> 0 < wd_attempts d \<and>
       send_ok (send_answer cfg url event payload (wh_calls w + wd_attempts d - 1))) \<and>
    (\<forall>i < wd_attempts d - 1. \<not> send_ok (send_answer cfg url event payload (wh_calls w + i))) \<and>
    (\<not> wd_delivered d \<longrightarrow> wd_attempts d = nat (wc_max_attempts cfg))"
proof -
  obtain w1 a dl where loop: "attempts_loop cfg url event payload (nat (wc_max_attempts cfg)) 0 w = (w1, Inr (a, dl))"
    and w': "w' = w1\<lparr>wh_deliveries := wh_deliveries w1 @ [\<lparr>wd_event = event, wd_callback_url = url,
      wd_attempts = a, wd_delivered = dl\<rparr>]\<rparr>"
    using assms by (auto simp: deliver_def split: prod.splits sum.splits)
  note o = attempts_loop_outcome [OF loop]
  have last: "\<not> send_ok (send_answer cfg url event payload (wh_calls w + a - 1))" if "\<not> dl" "0 < a"
  proof -
    have "a - 1 < a - 0 - (if dl then 1 else 0)" using that by simp
    then have "\<not> send_ok (send_answer cfg url event payload (wh_calls w + (a - 1)))" using o by blast
    then show ?thesis using that by simp
  qed
  have "\<forall>i < a - 1. \<not> send_ok (send_answer cfg url event payload (wh_calls w + i))"
    using o by (cases dl) auto
  moreover have "int a \<le> max 0 (wc_max_attempts cfg)" using o by linarith
  moreover have "dl \<longrightarrow> 0 < a \<and> send_ok (send_answer cfg url event payload (wh_calls w + a - 1))"
    using o by (metis diff_zero)
  ultimately show ?thesis using o last unfolding w' by (cases dl) simp_all
qed

definition ex_dispatcher :: "(nat \<Rightarrow> send_outcome) \<Rightarrow> (string, string) dispatcher" where
  "ex_dispatcher answers = \<lparr> wc_encode = (\<lambda>p. p), wc_hmac = (\<lambda>b. b), wc_max_attempts = 3,
     wc_sender = (\<lambda>n url body hs. answers n) \<rparr>"

definition ex_answers :: "nat \<Rightarrow> send_outcome" where
  "ex_answers n = (if n = 0 then Status 500 else if n = 1 then OSErr ''timeout'' else Status 204)"

theorem deliver_bounded_attempts_witness:
  "wh_calls (fst (deliver (ex_dispatcher ex_answers) ''u'' ''e'' ''p'' \<lparr>wh_calls = 0, wh_deliveries = []\<rparr>)) = 3"
proof -
  let ?r = "deliver (ex_dispatcher ex_answers) ''u'' ''e'' ''p'' \<lparr>wh_calls = 0, wh_deliveries = []\<rparr>"
  have "snd ?r = Inr ()" by code_simp
  then have "?r = (fst ?r, Inr ())" by (metis prod.collapse)
  from deliver_bounded_attempts [OF this] obtain d where
    d: "wh_deliveries (fst ?r) = [] @ [d]" "wh_calls (fst ?r) = 0 + wd_attempts d" by auto
  have "wh_deliveries (fst ?r) = [\<lparr>wd_event = ''e'', wd_callback_url = ''u'', wd_attempts = 3, wd_delivered = True\<rparr>]"
    by code_simp
  then show ?thesis using d by simp
qed

end
