(* ===== verification/Dispatch.thy ===== *)
theory Dispatch
  imports Models
begin

text \<open>
  S2 dispatch, \<open>adapters/s2/dispatch.py\<close>: the PEBC instruction built for one allocation. The S2
  parser that checks the generated message is not part of the repository: it is a parameter.
  The message's constant fields (message type, quantity, abnormal condition) are left out, and
  \<open>execution_time\<close> is the instant its ISO text denotes.
\<close>

record allocation =
  al_resource_id :: string
  al_power_kw :: rat
  al_baseline_power_kw :: rat
  al_source_version :: string

record instruction =
  in_message_id :: uuid
  in_id :: uuid
  in_envelope_id :: uuid
  in_execution_time :: instant
  in_power_constraints_id :: string
  in_duration :: int
  in_upper_limit :: rat
  in_lower_limit :: rat

text \<open>\<open>timedelta.total_seconds()\<close>, and \<open>int()\<close> of a float: truncation towards zero.\<close>

definition total_seconds :: "int \<Rightarrow> rat" where
  "total_seconds d = fdiv (of_int d) (of_int microseconds_per_second)"

definition py_int :: "rat \<Rightarrow> int" where
  "py_int x = (if 0 \<le> x then \<lfloor>x\<rfloor> else \<lceil>x\<rceil>)"

definition target_kw :: "direction \<Rightarrow> allocation \<Rightarrow> rat" where
  "target_kw d a = (if d = UPWARD then fsub (al_baseline_power_kw a) (al_power_kw a)
     else fadd (al_baseline_power_kw a) (al_power_kw a))"

definition build_pebc_instruction ::
    "(instruction \<Rightarrow> bool) \<Rightarrow> uuid \<times> uuid \<times> uuid \<Rightarrow> allocation \<Rightarrow> reservation \<Rightarrow> unit + instruction" where
  "build_pebc_instruction parses ids a r =
     (let t = target_kw (r_direction r) a;
          payload = \<lparr> in_message_id = fst ids, in_id = fst (snd ids), in_envelope_id = snd (snd ids),
            in_execution_time = r_interval_start r, in_power_constraints_id = al_source_version a,
            in_duration = py_int (fmul (total_seconds (r_interval_end r - r_interval_start r)) 1000),
            in_upper_limit = fmul t 1000, in_lower_limit = fmul t 1000 \<rparr>
      in if parses payload then Inr payload else Inl ())"

lemma build_pebc_instruction_Inr:
  "build_pebc_instruction parses ids a r = Inr i \<Longrightarrow>
     in_power_constraints_id i = al_source_version a \<and> in_execution_time i = r_interval_start r \<and>
     in_upper_limit i = fmul (target_kw (r_direction r) a) 1000 \<and>
     in_lower_limit i = fmul (target_kw (r_direction r) a) 1000"
  by (auto simp: build_pebc_instruction_def Let_def split: if_splits)

section \<open>The limits of an instruction\<close>


definition ex_allocation :: "string \<Rightarrow> allocation" where
  "ex_allocation rid = \<lparr> al_resource_id = rid, al_power_kw = 3/2, al_baseline_power_kw = 2,
     al_source_version = ''v'' \<rparr>"

definition ex_reservation :: reservation where
  "ex_reservation = \<lparr> r_reservation_id = 1, r_correlation_id = 2, r_zone_id = ''Z'',
     r_interval_start = 0, r_interval_end = minutes 15, r_direction = UPWARD,
     r_requested_power_kw = 3, r_allocated_power_kw = 3, r_participant_count = 2,
     r_consequence_type = DEFER, r_product_class = BEST_EFFORT_PEBC, r_status = CONFIRMED,
     r_created_at = 0, r_expires_at = 0, r_tenant_id = ''T'' \<rparr>"


end
