(* ===== verification/Backend.thy ===== *)
theory Backend
  imports Dispatch Webhooks
begin

text \<open>
  The reservation backend, \<open>reservations/backend.py\<close>: the unit-of-work protocol the service is
  written against, as a record of operations on the state of a backend, the in-memory backend that
  provides it, and the laws a backend owes the service, as a locale.
\<close>

section \<open>Outbox tasks\<close>

datatype task_kind = RESOURCE | WEBHOOK

datatype payload = Instruction_payload instruction | Reservation_payload reservation
  | Activation_payload activation

record outbox_task =
  ot_event_id :: uuid
  ot_kind :: task_kind
  ot_destination :: string
  ot_event_type :: string
  ot_payload :: payload
  ot_attempts :: int
  ot_activation_id :: uuid
  ot_reservation_id :: uuid
  ot_allocation_index :: "int option"

section \<open>The unit of work\<close>

type_synonym residual = "rat \<times> rat \<times> rat \<times> rat"

datatype backend_error = KeyError | CheckViolation string | UniqueViolation | ForeignKeyViolation

record 's uow =
  u_durable_outbox :: bool
  u_rolls_back :: bool
  u_expire :: "instant \<Rightarrow> 's \<Rightarrow> 's"
  u_get_idempotency :: "string \<Rightarrow> 's \<Rightarrow> (string \<times> uuid) option"
  u_get_reservation :: "uuid \<Rightarrow> 's \<Rightarrow> reservation option"
  u_get_allocations :: "uuid \<Rightarrow> 's \<Rightarrow> backend_error + allocation list"
  u_reserved_for_offer :: "offer \<Rightarrow> direction \<Rightarrow> 's \<Rightarrow> backend_error + rat"
  u_save_reservation :: "reservation \<Rightarrow> allocation list \<Rightarrow> string \<Rightarrow> string \<Rightarrow> string option \<Rightarrow> 's
    \<Rightarrow> backend_error + 's"
  u_update_reservation :: "reservation \<Rightarrow> 's \<Rightarrow> backend_error + 's"
  u_callback_url :: "uuid \<Rightarrow> 's \<Rightarrow> string option"
  u_activation_for_reservation :: "uuid \<Rightarrow> 's \<Rightarrow> activation option"
  u_get_activation :: "uuid \<Rightarrow> 's \<Rightarrow> activation option"
  u_save_activation :: "activation \<Rightarrow> reservation \<Rightarrow> allocation list \<Rightarrow> instruction list \<Rightarrow> 's
    \<Rightarrow> backend_error + 's"
  u_enqueue_outbox :: "outbox_task \<Rightarrow> instant \<Rightarrow> 's \<Rightarrow> backend_error + 's"
  u_instructions_for :: "uuid \<Rightarrow> 's \<Rightarrow> backend_error + instruction list"
  u_active_reservations :: "'s \<Rightarrow> reservation list"
  u_published_residual :: "cell \<Rightarrow> 's \<Rightarrow> residual option"
  u_set_published_residual :: "cell \<Rightarrow> residual \<Rightarrow> 's \<Rightarrow> backend_error + 's"
  u_suppress_public_cell :: "cell \<Rightarrow> 's \<Rightarrow> 's"
  u_public_cell_is_suppressed :: "cell \<Rightarrow> 's \<Rightarrow> bool"

text \<open>
  A transaction: the in-memory backend holds its lock while the body runs and keeps whatever the
  body wrote when it raises; a database rolls the body back.
\<close>

definition transact :: "'s uow \<Rightarrow> ('s \<Rightarrow> 's \<times> ('e + 'a)) \<Rightarrow> 's \<Rightarrow> 's \<times> ('e + 'a)" where
  "transact U body s =
     (case body s of
        (s', Inl e) \<Rightarrow> (if u_rolls_back U then s else s', Inl e)
      | (s', Inr v) \<Rightarrow> (s', Inr v))"

definition active_status :: "reservation_status \<Rightarrow> bool" where
  "active_status st \<longleftrightarrow> st \<in> {CONFIRMED, ACTIVATED, COMPLETED, FAILED}"

definition expire_at :: "instant \<Rightarrow> reservation \<Rightarrow> reservation" where
  "expire_at now r = (if r_status r = CONFIRMED \<and> r_expires_at r \<le> now
     then r\<lparr>r_status := EXPIRED\<rparr> else r)"

section \<open>InMemoryReservationBackend\<close>

record mem_backend =
  mb_reservations :: "(uuid, reservation) dict"
  mb_allocations :: "(uuid, allocation list) dict"
  mb_idempotency :: "(string, string \<times> uuid) dict"
  mb_activations :: "(uuid, activation) dict"
  mb_activation_by_reservation :: "(uuid, uuid) dict"
  mb_instructions :: "(uuid, instruction list) dict"
  mb_callbacks :: "(uuid, string) dict"
  mb_published_residuals :: "(cell, residual) dict"
  mb_suppressed_public_cells :: "cell set"

definition mem_new :: mem_backend where
  "mem_new = \<lparr> mb_reservations = [], mb_allocations = [], mb_idempotency = [], mb_activations = [],
     mb_activation_by_reservation = [], mb_instructions = [], mb_callbacks = [],
     mb_published_residuals = [], mb_suppressed_public_cells = {} \<rparr>"

definition mem_expire :: "instant \<Rightarrow> mem_backend \<Rightarrow> mem_backend" where
  "mem_expire now s = s\<lparr>mb_reservations :=
     List.map (\<lambda>(i, r). (i, expire_at now r)) (mb_reservations s)\<rparr>"

definition mem_get_idempotency :: "string \<Rightarrow> mem_backend \<Rightarrow> (string \<times> uuid) option" where
  "mem_get_idempotency k s = dict_get k (mb_idempotency s)"

definition mem_get_reservation :: "uuid \<Rightarrow> mem_backend \<Rightarrow> reservation option" where
  "mem_get_reservation i s = dict_get i (mb_reservations s)"

definition mem_get_allocations :: "uuid \<Rightarrow> mem_backend \<Rightarrow> backend_error + allocation list" where
  "mem_get_allocations i s =
     (case dict_get i (mb_allocations s) of None \<Rightarrow> Inl KeyError | Some as \<Rightarrow> Inr as)"

definition product_matches :: "offer \<Rightarrow> direction \<Rightarrow> reservation \<Rightarrow> bool" where
  "product_matches f d r \<longleftrightarrow> r_zone_id r = o_zone_id f \<and> r_interval_start r = o_interval_start f \<and>
     r_interval_end r = o_interval_end f \<and> r_direction r = d \<and>
     r_consequence_type r = o_consequence_type f"

definition power_for :: "string \<Rightarrow> allocation list \<Rightarrow> rat" where
  "power_for rid as = fsum (List.map al_power_kw (filter (\<lambda>a. al_resource_id a = rid) as))"

fun mem_reserved_loop ::
    "offer \<Rightarrow> direction \<Rightarrow> (uuid, allocation list) dict \<Rightarrow> (uuid \<times> reservation) list \<Rightarrow> rat
     \<Rightarrow> backend_error + rat" where
  "mem_reserved_loop f d allocs [] acc = Inr acc"
| "mem_reserved_loop f d allocs ((i, r) # rs) acc =
     (if \<not> active_status (r_status r) then mem_reserved_loop f d allocs rs acc
      else if product_matches f d r then
        (case dict_get i allocs of
           None \<Rightarrow> Inl KeyError
         | Some as \<Rightarrow> mem_reserved_loop f d allocs rs (fadd acc (power_for (o_resource_id f) as)))
      else mem_reserved_loop f d allocs rs acc)"

definition mem_reserved_for_offer :: "offer \<Rightarrow> direction \<Rightarrow> mem_backend \<Rightarrow> backend_error + rat" where
  "mem_reserved_for_offer f d s = mem_reserved_loop f d (mb_allocations s) (mb_reservations s) 0"

definition mem_save_reservation ::
    "reservation \<Rightarrow> allocation list \<Rightarrow> string \<Rightarrow> string \<Rightarrow> string option \<Rightarrow> mem_backend
     \<Rightarrow> backend_error + mem_backend" where
  "mem_save_reservation r as idempotency_key fingerprint callback s =
     (let i = r_reservation_id r;
          s1 = s\<lparr> mb_reservations := dict_set i r (mb_reservations s),
                  mb_allocations := dict_set i as (mb_allocations s),
                  mb_idempotency := dict_set idempotency_key (fingerprint, i) (mb_idempotency s) \<rparr>
      in Inr (if truthy callback then s1\<lparr>mb_callbacks := dict_set i (the callback) (mb_callbacks s1)\<rparr>
              else s1))"

definition mem_update_reservation :: "reservation \<Rightarrow> mem_backend \<Rightarrow> backend_error + mem_backend" where
  "mem_update_reservation r s =
     Inr (s\<lparr>mb_reservations := dict_set (r_reservation_id r) r (mb_reservations s)\<rparr>)"

definition mem_callback_url :: "uuid \<Rightarrow> mem_backend \<Rightarrow> string option" where
  "mem_callback_url i s = dict_get i (mb_callbacks s)"

definition mem_activation_for_reservation :: "uuid \<Rightarrow> mem_backend \<Rightarrow> activation option" where
  "mem_activation_for_reservation i s =
     (case dict_get i (mb_activation_by_reservation s) of
        None \<Rightarrow> None | Some aid \<Rightarrow> dict_get aid (mb_activations s))"

definition mem_get_activation :: "uuid \<Rightarrow> mem_backend \<Rightarrow> activation option" where
  "mem_get_activation aid s = dict_get aid (mb_activations s)"

definition mem_save_activation ::
    "activation \<Rightarrow> reservation \<Rightarrow> allocation list \<Rightarrow> instruction list \<Rightarrow> mem_backend
     \<Rightarrow> backend_error + mem_backend" where
  "mem_save_activation a r as instrs s =
     Inr (s\<lparr> mb_allocations := dict_set (r_reservation_id r) as (mb_allocations s),
             mb_instructions := dict_set (ac_activation_id a) instrs (mb_instructions s),
             mb_activations := dict_set (ac_activation_id a) a (mb_activations s),
             mb_activation_by_reservation :=
               dict_set (r_reservation_id r) (ac_activation_id a) (mb_activation_by_reservation s),
             mb_reservations := dict_set (r_reservation_id r) r (mb_reservations s) \<rparr>)"

definition mem_enqueue_outbox :: "outbox_task \<Rightarrow> instant \<Rightarrow> mem_backend \<Rightarrow> backend_error + mem_backend" where
  "mem_enqueue_outbox task available_at s = Inr s"

definition mem_instructions_for :: "uuid \<Rightarrow> mem_backend \<Rightarrow> backend_error + instruction list" where
  "mem_instructions_for aid s =
     (case dict_get aid (mb_instructions s) of None \<Rightarrow> Inl KeyError | Some ins \<Rightarrow> Inr ins)"

definition mem_active_reservations :: "mem_backend \<Rightarrow> reservation list" where
  "mem_active_reservations s = filter (\<lambda>r. active_status (r_status r)) (dict_values (mb_reservations s))"

definition mem_published_residual :: "cell \<Rightarrow> mem_backend \<Rightarrow> residual option" where
  "mem_published_residual c s = dict_get c (mb_published_residuals s)"

definition mem_set_published_residual :: "cell \<Rightarrow> residual \<Rightarrow> mem_backend \<Rightarrow> backend_error + mem_backend" where
  "mem_set_published_residual c x s =
     Inr (s\<lparr>mb_published_residuals := dict_set c x (mb_published_residuals s)\<rparr>)"

definition mem_suppress_public_cell :: "cell \<Rightarrow> mem_backend \<Rightarrow> mem_backend" where
  "mem_suppress_public_cell c s =
     s\<lparr>mb_suppressed_public_cells := insert c (mb_suppressed_public_cells s)\<rparr>"

definition mem_public_cell_is_suppressed :: "cell \<Rightarrow> mem_backend \<Rightarrow> bool" where
  "mem_public_cell_is_suppressed c s \<longleftrightarrow> c \<in> mb_suppressed_public_cells s"

definition mem_uow :: "mem_backend uow" where
  "mem_uow = \<lparr> u_durable_outbox = False, u_rolls_back = False,
     u_expire = mem_expire, u_get_idempotency = mem_get_idempotency,
     u_get_reservation = mem_get_reservation, u_get_allocations = mem_get_allocations,
     u_reserved_for_offer = mem_reserved_for_offer, u_save_reservation = mem_save_reservation,
     u_update_reservation = mem_update_reservation, u_callback_url = mem_callback_url,
     u_activation_for_reservation = mem_activation_for_reservation,
     u_get_activation = mem_get_activation, u_save_activation = mem_save_activation,
     u_enqueue_outbox = mem_enqueue_outbox, u_instructions_for = mem_instructions_for,
     u_active_reservations = mem_active_reservations,
     u_published_residual = mem_published_residual,
     u_set_published_residual = mem_set_published_residual,
     u_suppress_public_cell = mem_suppress_public_cell,
     u_public_cell_is_suppressed = mem_public_cell_is_suppressed \<rparr>"

lemma mem_uow_simps [simp]:
  "u_durable_outbox mem_uow = False" "u_rolls_back mem_uow = False"
  "u_expire mem_uow = mem_expire" "u_get_idempotency mem_uow = mem_get_idempotency"
  "u_get_reservation mem_uow = mem_get_reservation" "u_get_allocations mem_uow = mem_get_allocations"
  "u_reserved_for_offer mem_uow = mem_reserved_for_offer"
  "u_save_reservation mem_uow = mem_save_reservation"
  "u_update_reservation mem_uow = mem_update_reservation" "u_callback_url mem_uow = mem_callback_url"
  "u_activation_for_reservation mem_uow = mem_activation_for_reservation"
  "u_get_activation mem_uow = mem_get_activation" "u_save_activation mem_uow = mem_save_activation"
  "u_enqueue_outbox mem_uow = mem_enqueue_outbox" "u_instructions_for mem_uow = mem_instructions_for"
  "u_active_reservations mem_uow = mem_active_reservations"
  "u_published_residual mem_uow = mem_published_residual"
  "u_set_published_residual mem_uow = mem_set_published_residual"
  "u_suppress_public_cell mem_uow = mem_suppress_public_cell"
  "u_public_cell_is_suppressed mem_uow = mem_public_cell_is_suppressed"
  by (simp_all add: mem_uow_def)

section \<open>The ledger: what a backend promises\<close>

text \<open>
  The abstract state of a reservation backend. The two backends store it as dictionaries and as
  tables; the service only sees it through the unit of work.
\<close>

record ledger =
  l_reservation :: "uuid \<Rightarrow> reservation option"
  l_allocations :: "uuid \<Rightarrow> allocation list"
  l_idempotency :: "string \<Rightarrow> (string \<times> uuid) option"
  l_callback :: "uuid \<Rightarrow> string option"
  l_activation_of :: "uuid \<Rightarrow> activation option"
  l_activation :: "uuid \<Rightarrow> activation option"
  l_instructions :: "uuid \<Rightarrow> instruction list"

definition ledger_expire :: "instant \<Rightarrow> ledger \<Rightarrow> ledger" where
  "ledger_expire now L = L\<lparr>l_reservation := \<lambda>i. map_option (expire_at now) (l_reservation L i)\<rparr>"

definition ledger_save ::
    "reservation \<Rightarrow> allocation list \<Rightarrow> string \<Rightarrow> string \<Rightarrow> string option \<Rightarrow> ledger \<Rightarrow> ledger" where
  "ledger_save r as k fp cb L = L\<lparr>
     l_reservation := (l_reservation L)(r_reservation_id r := Some r),
     l_allocations := (l_allocations L)(r_reservation_id r := as),
     l_idempotency := (l_idempotency L)(k := Some (fp, r_reservation_id r)),
     l_callback := (l_callback L)(r_reservation_id r := if truthy cb then cb else None) \<rparr>"

definition ledger_update :: "reservation \<Rightarrow> ledger \<Rightarrow> ledger" where
  "ledger_update r L = L\<lparr>l_reservation := (l_reservation L)(r_reservation_id r := Some r)\<rparr>"

definition ledger_activate ::
    "activation \<Rightarrow> reservation \<Rightarrow> allocation list \<Rightarrow> instruction list \<Rightarrow> ledger \<Rightarrow> ledger" where
  "ledger_activate a r as instrs L = L\<lparr>
     l_reservation := (l_reservation L)(r_reservation_id r := Some r),
     l_allocations := (l_allocations L)(r_reservation_id r := as),
     l_activation_of := (l_activation_of L)(r_reservation_id r := Some a),
     l_activation := (l_activation L)(ac_activation_id a := Some a),
     l_instructions := (l_instructions L)(ac_activation_id a := instrs) \<rparr>"

text \<open>Allocations of one reservation: positive floats, one per resource.\<close>

definition allocs_ok :: "allocation list \<Rightarrow> bool" where
  "allocs_ok as \<longleftrightarrow> distinct (List.map al_resource_id as) \<and>
     (\<forall>a \<in> set as. is_f64 (al_power_kw a) \<and> 0 < al_power_kw a)"

text \<open>The reservation is for the product the offer belongs to.\<close>

definition offer_in_product :: "offer \<Rightarrow> direction \<Rightarrow> reservation \<Rightarrow> bool" where
  "offer_in_product f d r \<longleftrightarrow> r_tenant_id r = o_tenant_id f \<and> product_matches f d r"

text \<open>
  A changed reservation that keeps its identity: only the status and the allocated power differ,
  the two columns \<open>update_reservation\<close> writes.
\<close>

definition same_booking :: "reservation \<Rightarrow> reservation \<Rightarrow> bool" where
  "same_booking r r' \<longleftrightarrow>
     r' = r\<lparr>r_status := r_status r', r_allocated_power_kw := r_allocated_power_kw r'\<rparr>"

lemma same_booking_refl [simp]: "same_booking r r"
  by (simp add: same_booking_def)

lemma same_booking_status [simp]: "same_booking r (r\<lparr>r_status := st\<rparr>)"
  by (simp add: same_booking_def)

lemma same_booking_expire [simp]: "same_booking r (expire_at now r)"
  by (simp add: expire_at_def)

lemma same_booking_id: "same_booking r r' \<Longrightarrow> r_reservation_id r' = r_reservation_id r"
  by (metis same_booking_def reservation.select_convs(1) reservation.surjective reservation.update_convs)

locale ledger_backend =
  fixes U :: "'s uow" and abs :: "'s \<Rightarrow> ledger" and inv :: "'s \<Rightarrow> bool"
  assumes get_reservation: "inv s \<Longrightarrow> u_get_reservation U i s = l_reservation (abs s) i"
    and get_idempotency: "inv s \<Longrightarrow> u_get_idempotency U k s = l_idempotency (abs s) k"
    and get_allocations: "inv s \<Longrightarrow> l_reservation (abs s) i \<noteq> None \<Longrightarrow>
      u_get_allocations U i s = Inr (l_allocations (abs s) i)"
    and callback_url: "inv s \<Longrightarrow> l_reservation (abs s) i \<noteq> None \<Longrightarrow>
      u_callback_url U i s = l_callback (abs s) i"
    and activation_for: "inv s \<Longrightarrow> u_activation_for_reservation U i s = l_activation_of (abs s) i"
    and get_activation: "inv s \<Longrightarrow> u_get_activation U aid s = l_activation (abs s) aid"
    and ids: "inv s \<Longrightarrow> l_reservation (abs s) i = Some r \<Longrightarrow>
      r_reservation_id r = i \<and> allocs_ok (l_allocations (abs s) i)"
    and idem_saved: "inv s \<Longrightarrow> l_idempotency (abs s) k = Some (fp, i) \<Longrightarrow> l_reservation (abs s) i \<noteq> None"
    and expire: "inv s \<Longrightarrow> inv (u_expire U now s) \<and> abs (u_expire U now s) = ledger_expire now (abs s)"
    and save: "inv s \<Longrightarrow> l_reservation (abs s) (r_reservation_id r) = None \<Longrightarrow>
      l_idempotency (abs s) k = None \<Longrightarrow> allocs_ok as \<Longrightarrow>
      u_save_reservation U r as k fp cb s = Inr s' \<Longrightarrow> inv s' \<and> abs s' = ledger_save r as k fp cb (abs s)"
    and update: "inv s \<Longrightarrow> l_reservation (abs s) (r_reservation_id r) = Some r0 \<Longrightarrow> same_booking r0 r \<Longrightarrow>
      u_update_reservation U r s = Inr s' \<Longrightarrow> inv s' \<and> abs s' = ledger_update r (abs s)"
    and save_activation: "inv s \<Longrightarrow> l_reservation (abs s) (r_reservation_id r) = Some r0 \<Longrightarrow> same_booking r0 r \<Longrightarrow>
      l_activation_of (abs s) (r_reservation_id r) = None \<Longrightarrow> l_activation (abs s) (ac_activation_id a) = None \<Longrightarrow>
      ac_reservation_id a = r_reservation_id r \<Longrightarrow> allocs_ok as \<Longrightarrow>
      u_save_activation U a r as instrs s = Inr s' \<Longrightarrow> inv s' \<and> abs s' = ledger_activate a r as instrs (abs s)"
    and reserved: "inv s \<Longrightarrow> \<exists>x. u_reserved_for_offer U f d s = Inr x \<and> is_f64 x \<and> 0 \<le> x"
    and reserved_save: "inv s \<Longrightarrow> l_reservation (abs s) (r_reservation_id r) = None \<Longrightarrow>
      l_idempotency (abs s) k = None \<Longrightarrow> allocs_ok as \<Longrightarrow> active_status (r_status r) \<Longrightarrow>
      offer_in_product f d r \<Longrightarrow> u_save_reservation U r as k fp cb s = Inr s' \<Longrightarrow>
      u_reserved_for_offer U f d s = Inr x \<Longrightarrow>
      u_reserved_for_offer U f d s' = Inr (fadd x (power_for (o_resource_id f) as))"

section \<open>The in-memory backend keeps the ledger\<close>

definition mem_abs :: "mem_backend \<Rightarrow> ledger" where
  "mem_abs s = \<lparr> l_reservation = (\<lambda>i. dict_get i (mb_reservations s)),
     l_allocations = (\<lambda>i. case dict_get i (mb_allocations s) of None \<Rightarrow> [] | Some as \<Rightarrow> as),
     l_idempotency = (\<lambda>k. dict_get k (mb_idempotency s)),
     l_callback = (\<lambda>i. dict_get i (mb_callbacks s)),
     l_activation_of = (\<lambda>i. mem_activation_for_reservation i s),
     l_activation = (\<lambda>a. dict_get a (mb_activations s)),
     l_instructions = (\<lambda>a. case dict_get a (mb_instructions s) of None \<Rightarrow> [] | Some ins \<Rightarrow> ins) \<rparr>"

definition mem_inv :: "mem_backend \<Rightarrow> bool" where
  "mem_inv s \<longleftrightarrow> dict_ok (mb_reservations s) \<and>
     (\<forall>i r. dict_get i (mb_reservations s) = Some r \<longrightarrow> r_reservation_id r = i \<and>
        (\<exists>as. dict_get i (mb_allocations s) = Some as \<and> allocs_ok as)) \<and>
     (\<forall>k fp i. dict_get k (mb_idempotency s) = Some (fp, i) \<longrightarrow> dict_get i (mb_reservations s) \<noteq> None) \<and>
     (\<forall>i cb. dict_get i (mb_callbacks s) = Some cb \<longrightarrow> dict_get i (mb_reservations s) \<noteq> None) \<and>
     (\<forall>i a. dict_get i (mb_activation_by_reservation s) = Some a \<longrightarrow>
        (\<exists>act. dict_get a (mb_activations s) = Some act \<and> ac_reservation_id act = i))"

lemma mem_invI:
  assumes "dict_ok (mb_reservations s)"
    and "\<And>i r. dict_get i (mb_reservations s) = Some r \<Longrightarrow> r_reservation_id r = i"
    and "\<And>i r. dict_get i (mb_reservations s) = Some r \<Longrightarrow>
      \<exists>as. dict_get i (mb_allocations s) = Some as \<and> allocs_ok as"
    and "\<And>k fp i. dict_get k (mb_idempotency s) = Some (fp, i) \<Longrightarrow> dict_get i (mb_reservations s) \<noteq> None"
    and "\<And>i cb. dict_get i (mb_callbacks s) = Some cb \<Longrightarrow> dict_get i (mb_reservations s) \<noteq> None"
    and "\<And>i a. dict_get i (mb_activation_by_reservation s) = Some a \<Longrightarrow>
      \<exists>act. dict_get a (mb_activations s) = Some act \<and> ac_reservation_id act = i"
  shows "mem_inv s"
  unfolding mem_inv_def using assms by blast

lemma mem_invD:
  assumes "mem_inv s"
  shows "dict_ok (mb_reservations s)"
    and "dict_get i (mb_reservations s) = Some r \<Longrightarrow> r_reservation_id r = i"
    and "dict_get i (mb_reservations s) = Some r \<Longrightarrow>
      \<exists>as. dict_get i (mb_allocations s) = Some as \<and> allocs_ok as"
    and "dict_get k (mb_idempotency s) = Some (fp, i) \<Longrightarrow> dict_get i (mb_reservations s) \<noteq> None"
    and "dict_get i (mb_callbacks s) = Some cb \<Longrightarrow> dict_get i (mb_reservations s) \<noteq> None"
    and "dict_get i (mb_activation_by_reservation s) = Some a \<Longrightarrow>
      \<exists>act. dict_get a (mb_activations s) = Some act \<and> ac_reservation_id act = i"
  using assms unfolding mem_inv_def by blast+

lemma mem_inv_new [simp]: "mem_inv mem_new"
  by (simp add: mem_inv_def mem_new_def)

lemma mem_expire_get:
  "dict_get i (mb_reservations (mem_expire now s)) = map_option (expire_at now) (dict_get i (mb_reservations s))"
  by (simp add: mem_expire_def dict_get_map_values)

lemma mem_expire_frame [simp]:
  "mb_allocations (mem_expire now s) = mb_allocations s" "mb_idempotency (mem_expire now s) = mb_idempotency s"
  "mb_activations (mem_expire now s) = mb_activations s" "mb_callbacks (mem_expire now s) = mb_callbacks s"
  "mb_activation_by_reservation (mem_expire now s) = mb_activation_by_reservation s"
  "mb_instructions (mem_expire now s) = mb_instructions s"
  by (simp_all add: mem_expire_def)

lemma expire_at_id [simp]: "r_reservation_id (expire_at now r) = r_reservation_id r"
  by (simp add: expire_at_def)

lemma mem_expire_laws:
  assumes "mem_inv s"
  shows "mem_inv (mem_expire now s) \<and> mem_abs (mem_expire now s) = ledger_expire now (mem_abs s)"
proof
  note d = mem_invD [OF assms]
  show "mem_inv (mem_expire now s)"
  proof (rule mem_invI, unfold mem_expire_frame)
    show "dict_ok (mb_reservations (mem_expire now s))"
      using d(1) by (simp add: mem_expire_def dict_ok_map_values)
  next
    fix i r assume "dict_get i (mb_reservations (mem_expire now s)) = Some r"
    then obtain r0 where "dict_get i (mb_reservations s) = Some r0" "r = expire_at now r0"
      by (auto simp: mem_expire_get)
    then show "r_reservation_id r = i" "\<exists>as. dict_get i (mb_allocations s) = Some as \<and> allocs_ok as"
      using d(2,3) by simp_all
  next
    fix k fp i assume "dict_get k (mb_idempotency s) = Some (fp, i)"
    then show "dict_get i (mb_reservations (mem_expire now s)) \<noteq> None" using d(4) by (simp add: mem_expire_get)
  next
    fix i cb assume "dict_get i (mb_callbacks s) = Some cb"
    then show "dict_get i (mb_reservations (mem_expire now s)) \<noteq> None" using d(5) by (simp add: mem_expire_get)
  qed (rule d(6))
  show "mem_abs (mem_expire now s) = ledger_expire now (mem_abs s)"
    by (simp add: mem_abs_def ledger_expire_def mem_expire_get mem_activation_for_reservation_def
      cong: option.case_cong)
qed

lemma power_for_single:
  assumes "allocs_ok as"
  shows "power_for rid as = (case find (\<lambda>a. al_resource_id a = rid) as of None \<Rightarrow> 0 | Some a \<Rightarrow> al_power_kw a)"
proof -
  have "filter (\<lambda>a. al_resource_id a = rid) as = (case find (\<lambda>a. al_resource_id a = rid) as of None \<Rightarrow> [] | Some a \<Rightarrow> [a])"
    using assms unfolding allocs_ok_def
  proof (induction as)
    case (Cons a as)
    show ?case
    proof (cases "al_resource_id a = rid")
      case True
      then have "filter (\<lambda>a. al_resource_id a = rid) as = []" using Cons.prems
        by (auto simp: filter_empty_conv) (metis image_eqI)
      then show ?thesis using True by simp
    next
      case False
      then show ?thesis using Cons by simp
    qed
  qed simp
  then show ?thesis by (simp add: power_for_def split: option.splits)
qed

lemma power_for_f64: "allocs_ok as \<Longrightarrow> is_f64 (power_for rid as) \<and> 0 \<le> power_for rid as"
  by (auto simp: power_for_single allocs_ok_def find_Some_iff less_imp_le split: option.splits)

lemma mem_reserved_loop_total:
  assumes "\<And>i r. (i, r) \<in> set rs \<Longrightarrow> \<exists>as. dict_get i allocs = Some as \<and> allocs_ok as" "is_f64 acc" "0 \<le> acc"
  shows "\<exists>x. mem_reserved_loop f d allocs rs acc = Inr x \<and> is_f64 x \<and> 0 \<le> x"
  using assms
proof (induction rs arbitrary: acc)
  case (Cons p rs)
  obtain i r where p: "p = (i, r)" by (cases p)
  obtain as where as: "dict_get i allocs = Some as" "allocs_ok as" using Cons.prems(1) p by (metis list.set_intros(1))
  have step: "is_f64 (fadd acc (power_for (o_resource_id f) as))" "0 \<le> fadd acc (power_for (o_resource_id f) as)"
    using power_for_f64 [OF as(2)] Cons.prems(3) by (simp_all add: fadd_nonneg)
  have tail: "\<And>i r. (i, r) \<in> set rs \<Longrightarrow> \<exists>as. dict_get i allocs = Some as \<and> allocs_ok as"
    using Cons.prems(1) by (metis list.set_intros(2))
  show ?case using Cons.IH [OF tail step] Cons.IH [OF tail Cons.prems(2,3)] as(1) p by simp
qed simp

lemma mem_reserved_loop_append:
  "mem_reserved_loop f d allocs (rs @ rs') acc =
     bind_res (mem_reserved_loop f d allocs rs acc) (mem_reserved_loop f d allocs rs')"
  by (induction rs arbitrary: acc) (auto split: option.splits)

lemma mem_reserved_loop_cong:
  assumes "\<And>i. i \<in> fst ` set rs \<Longrightarrow> dict_get i allocs = dict_get i allocs'"
  shows "mem_reserved_loop f d allocs rs acc = mem_reserved_loop f d allocs' rs acc"
  using assms
proof (induction rs arbitrary: acc)
  case (Cons p rs)
  obtain i r where p: "p = (i, r)" by (cases p)
  have "dict_get i allocs = dict_get i allocs'" using Cons.prems p by simp
  moreover have "\<And>acc. mem_reserved_loop f d allocs rs acc = mem_reserved_loop f d allocs' rs acc"
    using Cons by simp
  ultimately show ?case using p by (simp split: option.splits)
qed simp

lemma mem_reserved_inv:
  assumes "mem_inv s"
  shows "\<exists>x. mem_reserved_for_offer f d s = Inr x \<and> is_f64 x \<and> 0 \<le> x"
  unfolding mem_reserved_for_offer_def
proof (rule mem_reserved_loop_total)
  fix i r assume "(i, r) \<in> set (mb_reservations s)"
  then have "dict_get i (mb_reservations s) = Some r" using assms by (simp add: mem_inv_def dict_get_iff_in)
  then show "\<exists>as. dict_get i (mb_allocations s) = Some as \<and> allocs_ok as" using assms by (auto simp: mem_inv_def)
qed simp_all

lemma mem_activation_for_cong:
  "mb_activation_by_reservation s' = mb_activation_by_reservation s \<Longrightarrow> mb_activations s' = mb_activations s \<Longrightarrow>
     mem_activation_for_reservation i s' = mem_activation_for_reservation i s"
  by (simp add: mem_activation_for_reservation_def cong: option.case_cong)

lemma mem_save_result:
  assumes "mem_save_reservation r as k fp cb s = Inr s'"
  shows "mb_reservations s' = dict_set (r_reservation_id r) r (mb_reservations s)"
    "mb_allocations s' = dict_set (r_reservation_id r) as (mb_allocations s)"
    "mb_idempotency s' = dict_set k (fp, r_reservation_id r) (mb_idempotency s)"
    "mb_activations s' = mb_activations s" "mb_instructions s' = mb_instructions s"
    "mb_activation_by_reservation s' = mb_activation_by_reservation s"
    "mb_callbacks s' = (if truthy cb then dict_set (r_reservation_id r) (the cb) (mb_callbacks s) else mb_callbacks s)"
  using assms by (auto simp: mem_save_reservation_def Let_def)

lemma truthy_the: "truthy cb \<Longrightarrow> Some (the cb) = cb"
  by (auto simp: truthy_def split: option.splits)

lemma mem_save_laws:
  assumes inv: "mem_inv s" and fresh: "dict_get (r_reservation_id r) (mb_reservations s) = None"
    and ok: "allocs_ok as" and sv: "mem_save_reservation r as k fp cb s = Inr s'"
  shows "mem_inv s'" "mem_abs s' = ledger_save r as k fp cb (mem_abs s)"
proof -
  note res = mem_save_result [OF sv] and d = mem_invD [OF inv]
  let ?i = "r_reservation_id r"
  have cb0: "dict_get ?i (mb_callbacks s) = None"
    using fresh d(5) by (metis option.exhaust)
  show "mem_inv s'"
  proof (rule mem_invI)
    show "dict_ok (mb_reservations s')" using d(1) by (simp add: res)
  next
    fix i r' assume i: "dict_get i (mb_reservations s') = Some r'"
    show "r_reservation_id r' = i" "\<exists>as. dict_get i (mb_allocations s') = Some as \<and> allocs_ok as"
      using i ok d(2,3) by (cases "i = ?i"; simp add: res)+
  next
    fix k' fp' i assume "dict_get k' (mb_idempotency s') = Some (fp', i)"
    then show "dict_get i (mb_reservations s') \<noteq> None"
      using d(4) by (cases "k' = k"; cases "i = ?i"; simp add: res)
  next
    fix i c assume "dict_get i (mb_callbacks s') = Some c"
    then show "dict_get i (mb_reservations s') \<noteq> None"
      using d(5) by (cases "i = ?i"; simp add: res split: if_splits)
  next
    fix i a assume "dict_get i (mb_activation_by_reservation s') = Some a"
    then show "\<exists>act. dict_get a (mb_activations s') = Some act \<and> ac_reservation_id act = i"
      using d(6) by (simp add: res)
  qed
  have "mem_activation_for_reservation i s' = mem_activation_for_reservation i s" for i
    by (rule mem_activation_for_cong) (simp_all add: res)
  moreover have "dict_get i (mb_callbacks s') = ((\<lambda>i. dict_get i (mb_callbacks s))(?i := if truthy cb then cb else None)) i" for i
    using cb0 by (simp add: res truthy_the)
  ultimately show "mem_abs s' = ledger_save r as k fp cb (mem_abs s)"
    by (auto simp: mem_abs_def ledger_save_def res(1-3,5) dict_get_set fun_eq_iff res(4))
qed

lemma mem_reserved_save:
  assumes inv: "mem_inv s" and fresh: "dict_get (r_reservation_id r) (mb_reservations s) = None"
    and act: "active_status (r_status r)" and prod: "offer_in_product f d r"
    and sv: "mem_save_reservation r as k fp cb s = Inr s'" and x: "mem_reserved_for_offer f d s = Inr x"
  shows "mem_reserved_for_offer f d s' = Inr (fadd x (power_for (o_resource_id f) as))"
proof -
  note res = mem_save_result [OF sv]
  let ?i = "r_reservation_id r"
  have new: "mb_reservations s' = mb_reservations s @ [(?i, r)]" using fresh by (simp add: res dict_set_new)
  have "?i \<notin> fst ` set (mb_reservations s)" using fresh by (simp add: dict_get_None_iff)
  then have "dict_get i (mb_allocations s') = dict_get i (mb_allocations s)" if "i \<in> fst ` set (mb_reservations s)" for i
    using that by (cases "i = ?i") (simp_all add: res)
  then have "mem_reserved_loop f d (mb_allocations s') (mb_reservations s) 0
      = mem_reserved_loop f d (mb_allocations s) (mb_reservations s) 0"
    by (rule mem_reserved_loop_cong)
  then show ?thesis using x act prod
    by (simp add: mem_reserved_for_offer_def new mem_reserved_loop_append res offer_in_product_def)
qed

lemma mem_update_laws:
  assumes inv: "mem_inv s" and old: "dict_get (r_reservation_id r) (mb_reservations s) = Some r0"
    and up: "mem_update_reservation r s = Inr s'"
  shows "mem_inv s' \<and> mem_abs s' = ledger_update r (mem_abs s)"
proof -
  have s': "s' = s\<lparr>mb_reservations := dict_set (r_reservation_id r) r (mb_reservations s)\<rparr>"
    using up by (simp add: mem_update_reservation_def)
  note d = mem_invD [OF inv]
  have "mem_inv s'"
  proof (rule mem_invI)
    show "dict_ok (mb_reservations s')" using d(1) by (simp add: s')
  next
    fix i r' assume i: "dict_get i (mb_reservations s') = Some r'"
    show "r_reservation_id r' = i" "\<exists>as. dict_get i (mb_allocations s') = Some as \<and> allocs_ok as"
      using i old d(2,3) by (cases "i = r_reservation_id r"; simp add: s')+
  next
    fix k' fp' i assume "dict_get k' (mb_idempotency s') = Some (fp', i)"
    then show "dict_get i (mb_reservations s') \<noteq> None"
      using d(4) by (cases "i = r_reservation_id r"; simp add: s')
  next
    fix i c assume "dict_get i (mb_callbacks s') = Some c"
    then show "dict_get i (mb_reservations s') \<noteq> None"
      using d(5) by (cases "i = r_reservation_id r"; simp add: s')
  qed (use d(6) in \<open>simp add: s'\<close>)
  moreover have "mem_activation_for_reservation i s' = mem_activation_for_reservation i s" for i
    by (rule mem_activation_for_cong) (simp_all add: s')
  then have "mem_abs s' = ledger_update r (mem_abs s)"
    by (auto simp: mem_abs_def ledger_update_def s' dict_get_set fun_eq_iff)
  ultimately show ?thesis ..
qed

lemma mem_save_activation_laws:
  assumes inv: "mem_inv s" and old: "dict_get (r_reservation_id r) (mb_reservations s) = Some r0"
    and ids: "ac_reservation_id a = r_reservation_id r" and ok: "allocs_ok as"
    and fresh: "dict_get (ac_activation_id a) (mb_activations s) = None"
    and sv: "mem_save_activation a r as instrs s = Inr s'"
  shows "mem_inv s' \<and> mem_abs s' = ledger_activate a r as instrs (mem_abs s)"
proof -
  note s' = sv [unfolded mem_save_activation_def sum.inject, symmetric]
  have by_res: "\<exists>act. dict_get b (mb_activations s) = Some act \<and> ac_reservation_id act = i"
    if "dict_get i (mb_activation_by_reservation s) = Some b" for i b
    using inv that by (simp add: mem_inv_def)
  note d = mem_invD [OF inv]
  have "mem_inv s'"
  proof (rule mem_invI)
    show "dict_ok (mb_reservations s')" using d(1) by (simp add: s')
  next
    fix i r' assume i: "dict_get i (mb_reservations s') = Some r'"
    show "r_reservation_id r' = i" "\<exists>as. dict_get i (mb_allocations s') = Some as \<and> allocs_ok as"
      using i ok d(2,3) by (cases "i = r_reservation_id r"; simp add: s')+
  next
    fix k' fp' i assume "dict_get k' (mb_idempotency s') = Some (fp', i)"
    then show "dict_get i (mb_reservations s') \<noteq> None"
      using d(4) by (cases "i = r_reservation_id r"; simp add: s')
  next
    fix i c assume "dict_get i (mb_callbacks s') = Some c"
    then show "dict_get i (mb_reservations s') \<noteq> None"
      using d(5) by (cases "i = r_reservation_id r"; simp add: s')
  next
    fix i b assume b: "dict_get i (mb_activation_by_reservation s') = Some b"
    show "\<exists>act. dict_get b (mb_activations s') = Some act \<and> ac_reservation_id act = i"
    proof (cases "i = r_reservation_id r")
      case True
      then show ?thesis using b ids by (simp add: s')
    next
      case False
      then obtain act where act: "dict_get b (mb_activations s) = Some act" "ac_reservation_id act = i"
        using b by_res by (auto simp: s')
      then have "b \<noteq> ac_activation_id a" using fresh by auto
      then show ?thesis using act by (simp add: s')
    qed
  qed
  moreover have "mem_activation_for_reservation i s' =
      (if i = r_reservation_id r then Some a else mem_activation_for_reservation i s)" for i
    using fresh
    by (auto simp: mem_activation_for_reservation_def s' dict_get_set split: option.splits dest: by_res)
  then have "mem_abs s' = ledger_activate a r as instrs (mem_abs s)"
    by (auto simp: mem_abs_def ledger_activate_def s' dict_get_set fun_eq_iff)
  ultimately show ?thesis by blast
qed

lemma mem_abs_simps [simp]:
  "l_reservation (mem_abs s) i = dict_get i (mb_reservations s)"
  "l_idempotency (mem_abs s) k = dict_get k (mb_idempotency s)"
  "l_callback (mem_abs s) i = dict_get i (mb_callbacks s)"
  "l_activation_of (mem_abs s) i = mem_activation_for_reservation i s"
  "l_activation (mem_abs s) a = dict_get a (mb_activations s)"
  by (simp_all add: mem_abs_def)

lemma mem_allocations_law:
  assumes "mem_inv s" "dict_get i (mb_reservations s) = Some r"
  shows "mem_get_allocations i s = Inr (l_allocations (mem_abs s) i)" "allocs_ok (l_allocations (mem_abs s) i)"
  using mem_invD(3) [OF assms] by (auto simp: mem_get_allocations_def mem_abs_def)

interpretation mem_ledger: ledger_backend mem_uow mem_abs mem_inv
proof unfold_locales
  fix s i assume "mem_inv s" "l_reservation (mem_abs s) i \<noteq> None"
  then show "u_get_allocations mem_uow i s = Inr (l_allocations (mem_abs s) i)"
    using mem_allocations_law(1) by auto
next
  fix s i r assume "mem_inv s" "l_reservation (mem_abs s) i = Some r"
  then show "r_reservation_id r = i \<and> allocs_ok (l_allocations (mem_abs s) i)"
    using mem_invD(2) mem_allocations_law(2) by auto
next
  fix s k fp i assume "mem_inv s" "l_idempotency (mem_abs s) k = Some (fp, i)"
  then show "l_reservation (mem_abs s) i \<noteq> None" using mem_invD(4) by simp
next
  fix s and r :: reservation and k as fp cb s'
  assume "mem_inv s" "l_reservation (mem_abs s) (r_reservation_id r) = None" "allocs_ok as"
    "u_save_reservation mem_uow r as k fp cb s = Inr s'"
  then show "mem_inv s' \<and> mem_abs s' = ledger_save r as k fp cb (mem_abs s)"
    using mem_save_laws [of s r as k fp cb s'] by simp
next
  fix s and r r0 :: reservation and s'
  assume "mem_inv s" "l_reservation (mem_abs s) (r_reservation_id r) = Some r0"
    "u_update_reservation mem_uow r s = Inr s'"
  then show "mem_inv s' \<and> mem_abs s' = ledger_update r (mem_abs s)"
    using mem_update_laws by simp
next
  fix s and r r0 :: reservation and a :: activation and as instrs s'
  assume "mem_inv s" "l_reservation (mem_abs s) (r_reservation_id r) = Some r0"
    "l_activation (mem_abs s) (ac_activation_id a) = None" "ac_reservation_id a = r_reservation_id r"
    "allocs_ok as" "u_save_activation mem_uow a r as instrs s = Inr s'"
  then show "mem_inv s' \<and> mem_abs s' = ledger_activate a r as instrs (mem_abs s)"
    using mem_save_activation_laws by simp
next
  fix s and r :: reservation and k as f d fp cb s' x
  assume "mem_inv s" "l_reservation (mem_abs s) (r_reservation_id r) = None"
    "active_status (r_status r)" "offer_in_product f d r"
    "u_save_reservation mem_uow r as k fp cb s = Inr s'" "u_reserved_for_offer mem_uow f d s = Inr x"
  then show "u_reserved_for_offer mem_uow f d s' = Inr (fadd x (power_for (o_resource_id f) as))"
    using mem_reserved_save by simp
qed (simp_all add: mem_get_reservation_def mem_get_idempotency_def mem_callback_url_def
    mem_get_activation_def mem_reserved_inv mem_expire_laws)

end
