(* ===== verification/ReservationService.thy ===== *)
theory ReservationService
  imports Backend OfferStore
begin

text \<open>
  The reservation service, \<open>reservations/service.py\<close>: create, get, cancel, activate, and the
  residual capacity published after reservations, over any unit of work.
\<close>

datatype service_error = ReservationValueError | IdempotencyConflict | ReservationNotFound
  | InsufficientCapacity | ReservationStateConflict | Backend_error backend_error
  | Model_error model_error | Dispatch_error | Notify_error string | Acceptor_error

section \<open>Creating a reservation\<close>

text \<open>
  The request as fingerprinted. \<open>json.dumps\<close> with SHA-256 is a parameter \<open>fp\<close> of the operations,
  as are the random identifiers and the clock readings.
\<close>

record request =
  rq_tenant_id :: string
  rq_zone_id :: string
  rq_interval_start :: datetime
  rq_interval_end :: datetime
  rq_direction :: direction
  rq_power_kw :: pyfloat
  rq_consequence_type :: consequence
  rq_callback_url :: "string option"

definition max_reservation_power_kw :: rat where
  "max_reservation_power_kw = 1000000"

definition request_ok :: "request \<Rightarrow> bool" where
  "request_ok q \<longleftrightarrow> \<not> (\<not> isfinite (rq_power_kw q) \<or> fin_val (rq_power_kw q) \<le> 0
     \<or> fin_val (rq_power_kw q) > max_reservation_power_kw
     \<or> instant_of (rq_interval_end q) \<le> instant_of (rq_interval_start q))"

definition tenant_key :: "string \<Rightarrow> string \<Rightarrow> string" where
  "tenant_key tenant_id idempotency_key = tenant_id @ '':'' @ idempotency_key"

definition nano :: rat where
  "nano = rnd64 (1 / 10 ^ 9)"

definition offer_capacity :: "direction \<Rightarrow> offer \<Rightarrow> rat" where
  "offer_capacity d f = (if d = UPWARD then o_upward_capacity_kw f else o_downward_capacity_kw f)"

definition allocate_from :: "offer \<Rightarrow> rat \<Rightarrow> allocation" where
  "allocate_from f allocated = \<lparr> al_resource_id = o_resource_id f, al_power_kw = allocated,
     al_baseline_power_kw = o_baseline_power_kw f, al_source_version = o_source_version f \<rparr>"

fun allocate_loop ::
    "'s uow \<Rightarrow> direction \<Rightarrow> 's \<Rightarrow> offer list \<Rightarrow> allocation list \<Rightarrow> rat
     \<Rightarrow> backend_error + allocation list \<times> rat" where
  "allocate_loop U d s [] acc remaining = Inr (acc, remaining)"
| "allocate_loop U d s (f # fs) acc remaining =
     (case u_reserved_for_offer U f d s of
        Inl e \<Rightarrow> Inl e
      | Inr already_reserved \<Rightarrow>
          let allocated = min (max 0 (fsub (offer_capacity d f) already_reserved)) remaining;
              acc' = (if allocated > 0 then acc @ [allocate_from f allocated] else acc);
              remaining' = (if allocated > 0 then fsub remaining allocated else remaining)
          in if remaining' \<le> nano then Inr (acc', remaining')
             else allocate_loop U d s fs acc' remaining')"

definition participants :: "offer list \<Rightarrow> int" where
  "participants fs = int (card (set (List.map o_resource_id fs)))"

definition new_reservation ::
    "uuid \<Rightarrow> uuid \<Rightarrow> request \<Rightarrow> instant \<Rightarrow> offer list \<Rightarrow> allocation list \<Rightarrow> reservation" where
  "new_reservation rid cid q current fs as = \<lparr> r_reservation_id = rid, r_correlation_id = cid,
     r_zone_id = rq_zone_id q, r_interval_start = instant_of (rq_interval_start q),
     r_interval_end = instant_of (rq_interval_end q), r_direction = rq_direction q,
     r_requested_power_kw = fin_val (rq_power_kw q),
     r_allocated_power_kw = fsum (List.map al_power_kw as),
     r_participant_count = participants fs, r_consequence_type = rq_consequence_type q,
     r_product_class = BEST_EFFORT_PEBC, r_status = CONFIRMED, r_created_at = current,
     r_expires_at = min (instant_of (rq_interval_start q)) (current + minutes 5),
     r_tenant_id = rq_tenant_id q \<rparr>"

text \<open>
  What the service takes from its surroundings: the offers of the store for a request at a moment,
  the store's privacy threshold, and the fingerprint function.
\<close>

record service_env =
  e_offers :: "request \<Rightarrow> instant \<Rightarrow> offer list"
  e_minimum_participants :: int
  e_fingerprint :: "request \<Rightarrow> string"

text \<open>The ends of an offer are aware datetimes, and no aware datetime equals a naive one.\<close>

definition request_offers :: "offer_store \<Rightarrow> request \<Rightarrow> instant \<Rightarrow> offer list" where
  "request_offers st q now =
     (if tz_aware (rq_interval_start q) \<and> tz_aware (rq_interval_end q)
      then eligible_offers (rq_tenant_id q) (rq_zone_id q)
        (instant_of (rq_interval_start q)) (instant_of (rq_interval_end q)) (rq_consequence_type q) now st
      else [])"

definition store_env :: "(request \<Rightarrow> string) \<Rightarrow> offer_store \<Rightarrow> service_env" where
  "store_env fp st = \<lparr> e_offers = request_offers st,
     e_minimum_participants = minimum_participants st, e_fingerprint = fp \<rparr>"

definition find_reservation :: "'s uow \<Rightarrow> uuid \<Rightarrow> ('s, service_error, reservation) action" where
  "find_reservation U i = act_bind (act_get (u_get_reservation U i)) (\<lambda>r.
     case r of None \<Rightarrow> act_raise ReservationNotFound | Some r \<Rightarrow> act_return r)"

definition allocate_and_save ::
    "'s uow \<Rightarrow> service_env \<Rightarrow> uuid \<Rightarrow> uuid \<Rightarrow> string \<Rightarrow> request \<Rightarrow> instant
     \<Rightarrow> ('s, service_error, reservation) action" where
  "allocate_and_save U env rid cid key q current =
     (let offers = e_offers env q current
      in if participants offers < e_minimum_participants env then act_raise InsufficientCapacity
         else act_bind (act_get (\<lambda>s. allocate_loop U (rq_direction q) s offers [] (fin_val (rq_power_kw q))))
           (\<lambda>r. case r of
              Inl e \<Rightarrow> act_raise (Backend_error e)
            | Inr (as, remaining) \<Rightarrow>
                if remaining > nano then act_raise InsufficientCapacity
                else (case mk_reservation (new_reservation rid cid q current offers as) of
                   Inl e \<Rightarrow> act_raise (Model_error e)
                 | Inr r \<Rightarrow> act_then
                     (act_write Backend_error
                       (u_save_reservation U r as key (e_fingerprint env q) (rq_callback_url q)))
                     (act_return r))))"

definition create ::
    "'s uow \<Rightarrow> service_env \<Rightarrow> uuid \<Rightarrow> uuid \<Rightarrow> string \<Rightarrow> request \<Rightarrow> instant
     \<Rightarrow> ('s, service_error, reservation) action" where
  "create U env rid cid idempotency_key q current =
     (if \<not> request_ok q then act_raise ReservationValueError
      else let key = tenant_key (rq_tenant_id q) idempotency_key in
        transact U (act_then (act_modify (u_expire U current))
          (act_bind (act_get (u_get_idempotency U key)) (\<lambda>previous.
             case previous of
               Some (previous_fingerprint, reservation_id) \<Rightarrow>
                 if previous_fingerprint \<noteq> e_fingerprint env q then act_raise IdempotencyConflict
                 else find_reservation U reservation_id
             | None \<Rightarrow> allocate_and_save U env rid cid key q current))))"

section \<open>Get and cancel\<close>

definition get_reservation_at :: "'s uow \<Rightarrow> uuid \<Rightarrow> instant \<Rightarrow> ('s, service_error, reservation) action" where
  "get_reservation_at U i now =
     transact U (act_then (act_modify (u_expire U now)) (find_reservation U i))"

definition cancel :: "'s uow \<Rightarrow> uuid \<Rightarrow> instant \<Rightarrow> ('s, service_error, reservation) action" where
  "cancel U i now =
     transact U (act_then (act_modify (u_expire U now))
       (act_bind (find_reservation U i) (\<lambda>r.
          if r_status r \<noteq> CONFIRMED then act_raise ReservationStateConflict
          else let cancelled = r\<lparr>r_status := CANCELLED\<rparr>
               in act_then (act_write Backend_error (u_update_reservation U cancelled))
                    (act_return cancelled))))"

section \<open>Activating without a durable outbox\<close>

text \<open>
  The world of an activation: the backend, the webhook dispatcher, and the instructions handed to
  the resource acceptor so far. Only the backend is transactional.
\<close>

record 's world =
  w_backend :: 's
  w_webhooks :: webhook_state
  w_dispatched :: "(string \<times> instruction) list"

datatype accept_outcome = Accepted | Rejected | Acceptor_raised

text \<open>
  The collaborators: the dispatcher, the resource acceptor (its answer may depend on how many
  instructions it was handed), the S2 parser, and the random identifiers of the instructions.
\<close>

record 'b collaborators =
  c_dispatcher :: "(payload, 'b) dispatcher"
  c_acceptor :: "nat \<Rightarrow> string \<Rightarrow> instruction \<Rightarrow> accept_outcome"
  c_parses :: "instruction \<Rightarrow> bool"
  c_ids :: "nat \<Rightarrow> uuid \<times> uuid \<times> uuid"

definition on_backend :: "('s, 'e, 'a) action \<Rightarrow> ('s world, 'e, 'a) action" where
  "on_backend m w = (case m (w_backend w) of (s', r) \<Rightarrow> (w\<lparr>w_backend := s'\<rparr>, r))"

definition transact_world ::
    "'s uow \<Rightarrow> ('s world, 'e, 'a) action \<Rightarrow> ('s world, 'e, 'a) action" where
  "transact_world U m w =
     (case m w of
        (w', Inl e) \<Rightarrow> (if u_rolls_back U then w'\<lparr>w_backend := w_backend w\<rparr> else w', Inl e)
      | (w', Inr v) \<Rightarrow> (w', Inr v))"

definition notify :: "'b collaborators \<Rightarrow> string \<Rightarrow> string \<Rightarrow> payload \<Rightarrow> ('s world, service_error, unit) action" where
  "notify C callback_url event p w =
     (case deliver (c_dispatcher C) callback_url event p (w_webhooks w) of
        (h, Inl e) \<Rightarrow> (w\<lparr>w_webhooks := h\<rparr>, Inl (Notify_error e))
      | (h, Inr u) \<Rightarrow> (w\<lparr>w_webhooks := h\<rparr>, Inr u))"

definition notify_if ::
    "'b collaborators \<Rightarrow> string option \<Rightarrow> string \<Rightarrow> payload \<Rightarrow> ('s world, service_error, unit) action" where
  "notify_if C callback_url event p =
     (if truthy callback_url then notify C (the callback_url) event p else act_return ())"

text \<open>All instructions are built before the first is handed out.\<close>

fun build_pairs ::
    "'b collaborators \<Rightarrow> reservation \<Rightarrow> nat \<Rightarrow> allocation list
     \<Rightarrow> service_error + (allocation \<times> instruction) list" where
  "build_pairs C r n [] = Inr []"
| "build_pairs C r n (a # as) =
     (case build_pebc_instruction (c_parses C) (c_ids C n) a r of
        Inl _ \<Rightarrow> Inl Dispatch_error
      | Inr i \<Rightarrow> bind_res (build_pairs C r (n + 1) as) (\<lambda>ps. Inr ((a, i) # ps)))"

fun accept_pairs ::
    "'b collaborators \<Rightarrow> (allocation \<times> instruction) list
     \<Rightarrow> ('s world, service_error, (allocation \<times> instruction) list) action" where
  "accept_pairs C [] w = (w, Inr [])"
| "accept_pairs C (p # ps) w =
     (let n = length (w_dispatched w);
          w1 = w\<lparr>w_dispatched := w_dispatched w @ [(al_resource_id (fst p), snd p)]\<rparr>
      in case c_acceptor C n (al_resource_id (fst p)) (snd p) of
           Acceptor_raised \<Rightarrow> (w1, Inl Acceptor_error)
         | Accepted \<Rightarrow>
             (case accept_pairs C ps w1 of
                (w2, Inl e) \<Rightarrow> (w2, Inl e) | (w2, Inr acc) \<Rightarrow> (w2, Inr (p # acc)))
         | Rejected \<Rightarrow> accept_pairs C ps w1)"

definition finished_activation ::
    "uuid \<Rightarrow> reservation \<Rightarrow> (allocation \<times> instruction) list \<Rightarrow> (allocation \<times> instruction) list \<Rightarrow> instant
     \<Rightarrow> activation" where
  "finished_activation aid r pairs accepted now =
     (let rejected = int (length pairs) - int (length accepted)
      in \<lparr> ac_activation_id = aid, ac_reservation_id = r_reservation_id r,
           ac_correlation_id = r_correlation_id r,
           ac_status = (if rejected \<noteq> 0 then ACT_FAILED else ACT_COMPLETED),
           ac_instruction_count = int (length pairs),
           ac_accepted_instruction_count = int (length accepted),
           ac_rejected_instruction_count = rejected,
           ac_created_at = now, ac_completed_at = Some now \<rparr>)"

definition finished_reservation ::
    "reservation \<Rightarrow> (allocation \<times> instruction) list \<Rightarrow> (allocation \<times> instruction) list \<Rightarrow> reservation" where
  "finished_reservation r pairs accepted =
     r\<lparr> r_status := (if int (length pairs) - int (length accepted) \<noteq> 0 then FAILED else COMPLETED),
        r_allocated_power_kw := fsum (List.map (al_power_kw \<circ> fst) accepted) \<rparr>"

definition dispatch_and_save ::
    "'s uow \<Rightarrow> 'b collaborators \<Rightarrow> uuid \<Rightarrow> instant \<Rightarrow> string option \<Rightarrow> reservation
     \<Rightarrow> ('s world, service_error, activation) action" where
  "dispatch_and_save U C aid now callback_url r =
     act_bind (act_get (\<lambda>w. u_get_allocations U (r_reservation_id r) (w_backend w))) (\<lambda>as.
       case as of
         Inl e \<Rightarrow> act_raise (Backend_error e)
       | Inr as \<Rightarrow>
         act_bind (act_lift (build_pairs C r 0 as)) (\<lambda>pairs.
           act_bind (accept_pairs C pairs) (\<lambda>accepted.
             let a = finished_activation aid r pairs accepted now;
                 r' = finished_reservation r pairs accepted
             in act_then (on_backend (act_write Backend_error
                    (u_save_activation U a r' (List.map fst accepted) (List.map snd pairs))))
                  (act_then (notify_if C callback_url
                      (if ac_rejected_instruction_count a \<noteq> 0 then ''activation.failed''
                       else ''activation.completed'') (Activation_payload a))
                    (act_return a)))))"

text \<open>The body once the reservation was found.\<close>

definition activate_found ::
    "'s uow \<Rightarrow> 'b collaborators \<Rightarrow> uuid \<Rightarrow> instant \<Rightarrow> uuid \<Rightarrow> reservation
     \<Rightarrow> ('s world, service_error, activation) action" where
  "activate_found U C aid now i r =
     (if r_status r \<noteq> CONFIRMED then act_raise ReservationStateConflict
      else act_bind (act_get (\<lambda>w. u_callback_url U i (w_backend w))) (\<lambda>callback_url.
        act_then (notify_if C callback_url ''activation.accepted'' (Reservation_payload r))
         (act_then (notify_if C callback_url ''activation.started'' (Reservation_payload r))
           (dispatch_and_save U C aid now callback_url r))))"

definition activate ::
    "'s uow \<Rightarrow> 'b collaborators \<Rightarrow> uuid \<Rightarrow> instant \<Rightarrow> instant \<Rightarrow> uuid
     \<Rightarrow> ('s world, service_error, activation) action" where
  "activate U C aid now1 now2 i =
     transact_world U (act_bind (act_get (\<lambda>w. u_activation_for_reservation U i (w_backend w))) (\<lambda>existing.
       case existing of
         Some a \<Rightarrow> act_return a
       | None \<Rightarrow>
         act_then (on_backend (act_modify (u_expire U now1)))
          (act_bind (on_backend (find_reservation U i)) (activate_found U C aid now2 i))))"

section \<open>Reading activations\<close>

definition get_activation :: "'s uow \<Rightarrow> uuid \<Rightarrow> ('s, service_error, activation) action" where
  "get_activation U aid =
     transact U (act_bind (act_get (u_get_activation U aid)) (\<lambda>a.
       case a of None \<Rightarrow> act_raise ReservationNotFound | Some a \<Rightarrow> act_return a))"

definition instructions_for :: "'s uow \<Rightarrow> uuid \<Rightarrow> ('s, service_error, instruction list) action" where
  "instructions_for U aid =
     transact U (act_bind (act_get (u_instructions_for U aid)) (\<lambda>r.
       case r of Inl e \<Rightarrow> act_raise (Backend_error e) | Inr ins \<Rightarrow> act_return ins))"

section \<open>Residual capacity\<close>

definition same_product :: "aggregate \<Rightarrow> reservation \<Rightarrow> bool" where
  "same_product g r \<longleftrightarrow> r_tenant_id r = g_tenant_id g \<and> r_zone_id r = g_zone_id g \<and>
     r_interval_start r = g_interval_start g \<and> r_interval_end r = g_interval_end g \<and>
     r_consequence_type r = g_consequence_type g"

definition add_reserved :: "aggregate \<Rightarrow> rat \<times> rat \<Rightarrow> reservation \<Rightarrow> rat \<times> rat" where
  "add_reserved g acc r = (case acc of (upward, downward) \<Rightarrow>
     if same_product g r \<and> r_direction r = UPWARD
       then (fadd upward (r_allocated_power_kw r), downward)
     else if same_product g r then (upward, fadd downward (r_allocated_power_kw r))
     else (upward, downward))"

definition residual_aggregate :: "reservation list \<Rightarrow> aggregate \<Rightarrow> aggregate" where
  "residual_aggregate rs g =
     (case foldl (add_reserved g) (0, 0) rs of (upward, downward) \<Rightarrow>
        let hours = fdiv (total_seconds (g_interval_end g - g_interval_start g)) 3600
        in g\<lparr> g_upward_capacity_kw := py_round (max 0 (fsub (g_upward_capacity_kw g) upward)) 6,
              g_downward_capacity_kw := py_round (max 0 (fsub (g_downward_capacity_kw g) downward)) 6,
              g_upward_energy_kwh :=
                py_round (max 0 (fsub (g_upward_energy_kwh g) (fmul upward hours))) 6,
              g_downward_energy_kwh :=
                py_round (max 0 (fsub (g_downward_energy_kwh g) (fmul downward hours))) 6 \<rparr>)"

definition apply_residual_capacity ::
    "'s uow \<Rightarrow> aggregate list \<Rightarrow> instant \<Rightarrow> ('s, service_error, aggregate list) action" where
  "apply_residual_capacity U gs now =
     transact U (act_then (act_modify (u_expire U now))
       (act_get (\<lambda>s. List.map (residual_aggregate (u_active_reservations U s)) gs)))"

definition residual_of :: "aggregate \<Rightarrow> residual" where
  "residual_of g = (g_upward_capacity_kw g, g_downward_capacity_kw g, g_upward_energy_kwh g,
     g_downward_energy_kwh g)"

text \<open>One iteration of the publication loop.\<close>

definition publish_residual ::
    "'s uow \<Rightarrow> aggregate \<Rightarrow> ('s, service_error, aggregate list) action" where
  "publish_residual U g =
     (let cell = aggregate_cell g; residual = residual_of g in
      act_bind (act_get (u_published_residual U cell)) (\<lambda>previous.
        act_then
          (case previous of
             None \<Rightarrow> act_return ()
           | Some x \<Rightarrow> if x \<noteq> residual then act_modify (u_suppress_public_cell U cell) else act_return ())
          (act_bind (act_get (u_public_cell_is_suppressed U cell)) (\<lambda>suppressed.
             if suppressed then act_return []
             else act_then (act_write Backend_error (u_set_published_residual U cell residual))
                    (act_return [g])))))"

fun publish_residuals ::
    "'s uow \<Rightarrow> aggregate list \<Rightarrow> ('s, service_error, aggregate list) action" where
  "publish_residuals U [] = act_return []"
| "publish_residuals U (g # gs) = act_bind (publish_residual U g) (\<lambda>published.
     act_bind (publish_residuals U gs) (\<lambda>rest. act_return (published @ rest)))"

definition public_residual_capacity ::
    "'s uow \<Rightarrow> aggregate list \<Rightarrow> instant \<Rightarrow> ('s, service_error, aggregate list) action" where
  "public_residual_capacity U gs now =
     transact U (act_then (act_modify (u_expire U now))
       (act_bind (act_get (\<lambda>s. List.map (residual_aggregate (u_active_reservations U s)) gs))
         (publish_residuals U)))"

section \<open>The allocation loop\<close>

text \<open>The rounding error of one subtraction below \<open>r\<close>.\<close>

definition sub_error :: "rat \<Rightarrow> rat" where
  "sub_error r = r / 2 ^ 53 + 1 / 2 ^ 1075"

lemma sub_error_mono: "a \<le> b \<Longrightarrow> sub_error a \<le> sub_error b"
  by (simp add: sub_error_def divide_right_mono)

lemma fsub_error: "0 \<le> a \<Longrightarrow> a \<le> r \<Longrightarrow> \<bar>fsub r a - (r - a)\<bar> \<le> sub_error r"
proof -
  assume a: "0 \<le> a" "a \<le> r"
  have "\<bar>fsub r a - (r - a)\<bar> \<le> (r - a) / 2 ^ 53 + 1 / 2 ^ 1075"
    using rnd64_error_relative [of "r - a"] a by (simp add: fsub_def)
  also have "\<dots> \<le> sub_error r" using a by (simp add: sub_error_def divide_right_mono)
  finally show ?thesis .
qed

text \<open>What one allocation owes to the offer it was taken from.\<close>

definition taken_from :: "'s uow \<Rightarrow> direction \<Rightarrow> 's \<Rightarrow> offer list \<Rightarrow> allocation \<Rightarrow> bool" where
  "taken_from U d s fs a \<longleftrightarrow> 0 < al_power_kw a \<and> is_f64 (al_power_kw a) \<and>
     (\<exists>f \<in> set fs. \<exists>x. u_reserved_for_offer U f d s = Inr x \<and> a = allocate_from f (al_power_kw a) \<and>
        al_power_kw a \<le> fsub (offer_capacity d f) x)"

lemma taken_from_mono: "taken_from U d s fs a \<Longrightarrow> set fs \<subseteq> set gs \<Longrightarrow> taken_from U d s gs a"
  by (auto simp: taken_from_def)

lemma taken_from_resource: "taken_from U d s fs a \<Longrightarrow> al_resource_id a \<in> o_resource_id ` set fs"
  by (auto simp: taken_from_def allocate_from_def) (metis allocation.select_convs(1) image_eqI)

lemma allocate_step:
  assumes "a = min (max 0 (fsub (offer_capacity d f) x)) r" "0 < a" "is_f64 r"
    "u_reserved_for_offer U f d s = Inr x"
  shows "taken_from U d s (f # fs) (allocate_from f a)" "a \<le> r" "is_f64 (fsub r a)" "0 \<le> fsub r a"
    "fsub r a \<le> r" "\<bar>r - a - fsub r a\<bar> \<le> sub_error r"
proof -
  have f64: "is_f64 a" using assms(1,3) by (simp add: is_f64_min is_f64_max)
  have "a \<le> max 0 (fsub (offer_capacity d f) x)" using assms(1) by simp
  then have "a \<le> fsub (offer_capacity d f) x" using assms(2) by (simp add: max_def split: if_splits)
  then show "taken_from U d s (f # fs) (allocate_from f a)"
    using assms(2,4) f64 by (auto simp: taken_from_def allocate_from_def)
  show ar: "a \<le> r" using assms(1) by simp
  then show "0 \<le> fsub r a" "is_f64 (fsub r a)" "fsub r a \<le> r"
    using assms(2,3) by (simp_all add: fsub_nonneg fsub_shrinks)
  show "\<bar>r - a - fsub r a\<bar> \<le> sub_error r"
    using fsub_error [of a r] assms(2) ar by (simp add: abs_minus_commute)
qed

lemma allocate_loop_spec:
  assumes "allocate_loop U d s fs acc r = Inr (as, r')" "is_f64 r" "0 \<le> r"
    "distinct (List.map o_resource_id fs)"
  shows "\<exists>new. as = acc @ new \<and> (\<forall>a \<in> set new. taken_from U d s fs a) \<and>
    distinct (List.map al_resource_id new) \<and> length new \<le> length fs \<and> 0 \<le> r' \<and> r' \<le> r \<and>
    \<bar>r - sum_list (List.map al_power_kw new) - r'\<bar> \<le> of_nat (length new) * sub_error r"
  using assms
proof (induction fs arbitrary: acc r)
  case Nil
  then show ?case by simp
next
  case (Cons f fs)
  obtain x where x: "u_reserved_for_offer U f d s = Inr x"
    using Cons.prems(1) by (cases "u_reserved_for_offer U f d s") auto
  define a where "a = min (max 0 (fsub (offer_capacity d f) x)) r"
  note step = Cons.prems(1) [unfolded allocate_loop.simps x sum.case Let_def, folded a_def]
  show ?case
  proof (cases "0 < a")
    case False
    show ?thesis
    proof (cases "r \<le> nano")
      case True
      then have "as = acc" "r' = r" using step True False by simp_all
      then show ?thesis using Cons.prems(3) by simp
    next
      case nano: False
      then have "allocate_loop U d s fs acc r = Inr (as, r')"
        using step nano False by simp
      from Cons.IH [OF this] Cons.prems(2-4) obtain new where
        "as = acc @ new" "\<forall>a \<in> set new. taken_from U d s fs a" "distinct (List.map al_resource_id new)"
        "length new \<le> length fs" "0 \<le> r'" "r' \<le> r"
        "\<bar>r - sum_list (List.map al_power_kw new) - r'\<bar> \<le> of_nat (length new) * sub_error r" by auto
      then show ?thesis by (intro exI [of _ new]) (auto intro: taken_from_mono)
    qed
  next
    case True
    note st = allocate_step [OF a_def True Cons.prems(2) x]
    show ?thesis
    proof (cases "fsub r a \<le> nano")
      case nano: True
      then have "as = acc @ [allocate_from f a]" "r' = fsub r a"
        using step nano True by simp_all
      then show ?thesis using st by (intro exI [of _ "[allocate_from f a]"]) (simp add: allocate_from_def)
    next
      case nano: False
      then have "allocate_loop U d s fs (acc @ [allocate_from f a]) (fsub r a) = Inr (as, r')"
        using step nano True by simp
      from Cons.IH [OF this] st Cons.prems(4) obtain new where new:
        "as = (acc @ [allocate_from f a]) @ new" "\<forall>a \<in> set new. taken_from U d s fs a"
        "distinct (List.map al_resource_id new)" "length new \<le> length fs" "0 \<le> r'" "r' \<le> fsub r a"
        "\<bar>fsub r a - sum_list (List.map al_power_kw new) - r'\<bar> \<le> of_nat (length new) * sub_error (fsub r a)"
        by auto
      have "o_resource_id f \<notin> al_resource_id ` set new"
        using new(2) taken_from_resource Cons.prems(4) by fastforce
      then have dist: "distinct (List.map al_resource_id (allocate_from f a # new))"
        using new(3) by (simp add: allocate_from_def)
      have "of_nat (length new) * sub_error (fsub r a) \<le> of_nat (length new) * sub_error r"
        using st(5) by (intro mult_left_mono sub_error_mono) simp_all
      then have "\<bar>r - sum_list (List.map al_power_kw (allocate_from f a # new)) - r'\<bar>
          \<le> of_nat (length (allocate_from f a # new)) * sub_error r"
        using new(7) st(6) by (simp add: allocate_from_def abs_le_iff algebra_simps)
      moreover have "\<forall>b \<in> set (allocate_from f a # new). taken_from U d s (f # fs) b"
        using st(1) new(2) by (auto intro: taken_from_mono [where fs = fs])
      ultimately show ?thesis using new dist st(5)
        by (intro exI [of _ "allocate_from f a # new"]) simp
    qed
  qed
qed

lemma taken_from_allocs_ok:
  assumes "\<forall>a \<in> set as. taken_from U d s fs a" "distinct (List.map al_resource_id as)"
  shows "allocs_ok as"
  using assms by (auto simp: allocs_ok_def taken_from_def)

section \<open>What the service needs of the offers\<close>

text \<open>
  The offers handed to the service belong to the requested cell, are valid, one per resource.
  The in-memory store provides this, by the laws of \<open>offer_source\<close>.
\<close>

definition env_ok :: "service_env \<Rightarrow> bool" where
  "env_ok env \<longleftrightarrow> 1 \<le> e_minimum_participants env \<and>
     (\<forall>q now. distinct (List.map o_resource_id (e_offers env q now)) \<and>
       (\<forall>f \<in> set (e_offers env q now). offer_ok f \<and> now \<le> o_expires_at f \<and>
          offer_cell f = (rq_tenant_id q, rq_zone_id q, instant_of (rq_interval_start q),
            instant_of (rq_interval_end q), rq_consequence_type q)))"

lemma store_env_ok: "store_inv st \<Longrightarrow> env_ok (store_env fp st)"
  using mem_store.eligible_ok [of st] mem_store.eligible_distinct [of st]
  by (auto simp: env_ok_def store_env_def request_offers_def store_inv_def)

section \<open>Every operation is a step of the ledger\<close>

context ledger_backend begin

lemma expire_abs: "inv s \<Longrightarrow> abs (u_expire U now s) = ledger_expire now (abs s)"
  and expire_inv: "inv s \<Longrightarrow> inv (u_expire U now s)"
  using expire by blast+

lemma find_reservation_run:
  "inv s \<Longrightarrow> find_reservation U i s = (s, case l_reservation (abs s) i of
     None \<Rightarrow> Inl ReservationNotFound | Some r \<Rightarrow> Inr r)"
  by (simp add: find_reservation_def act_bind_def get_reservation split: option.splits)

text \<open>A newly created reservation, and the ledger it was created in.\<close>

definition created ::
    "service_env \<Rightarrow> uuid \<Rightarrow> uuid \<Rightarrow> string \<Rightarrow> request \<Rightarrow> instant \<Rightarrow> 's \<Rightarrow> allocation list \<Rightarrow> 's \<Rightarrow> reservation \<Rightarrow> bool" where
  "created env rid cid key q now s as s' r \<longleftrightarrow>
     (\<exists>rest. allocate_loop U (rq_direction q) s (e_offers env q now) [] (fin_val (rq_power_kw q)) = Inr (as, rest)
        \<and> rest \<le> nano) \<and>
     r = new_reservation rid cid q now (e_offers env q now) as \<and>
     e_minimum_participants env \<le> r_participant_count r \<and>
     l_idempotency (abs s) key = None \<and>
     u_save_reservation U r as key (e_fingerprint env q) (rq_callback_url q) s = Inr s' \<and> inv s' \<and>
     abs s' = ledger_save r as key (e_fingerprint env q) (rq_callback_url q) (abs s)"

lemma allocate_and_save_cases:
  assumes "inv s" "env_ok env" "is_f64 (fin_val (rq_power_kw q))" "0 \<le> fin_val (rq_power_kw q)"
    "l_reservation (abs s) rid = None" "l_idempotency (abs s) key = None"
    "allocate_and_save U env rid cid key q now s = (s', out)"
  shows "(s' = s \<and> (\<exists>e. out = Inl e)) \<or> (\<exists>as r. out = Inr r \<and> created env rid cid key q now s as s' r)"
proof (cases out)
  case (Inl e)
  then have "s' = s" using assms(7)
    by (auto simp: allocate_and_save_def Let_def act_bind_def act_then_def act_write_def
        split: if_splits sum.splits prod.splits)
  then show ?thesis using Inl by blast
next
  case (Inr r)
  let ?fs = "e_offers env q now"
  obtain as rest where loop: "allocate_loop U (rq_direction q) s ?fs [] (fin_val (rq_power_kw q)) = Inr (as, rest)"
    and rest: "rest \<le> nano" and enough: "e_minimum_participants env \<le> participants ?fs"
    and r: "r = new_reservation rid cid q now ?fs as"
    and sv: "u_save_reservation U r as key (e_fingerprint env q) (rq_callback_url q) s = Inr s'"
    using assms(7) Inr
    by (auto simp: allocate_and_save_def Let_def act_bind_def act_then_def act_write_def mk_reservation_def
        split: if_splits sum.splits prod.splits)
  have dist: "distinct (List.map o_resource_id ?fs)" using assms(2) by (simp add: env_ok_def)
  from allocate_loop_spec [OF loop assms(3,4) dist] have "allocs_ok as"
    using taken_from_allocs_ok by auto
  then have "inv s' \<and> abs s' = ledger_save r as key (e_fingerprint env q) (rq_callback_url q) (abs s)"
    using save [OF assms(1) _ assms(6) _ sv] assms(5) by (simp add: r new_reservation_def)
  then have "created env rid cid key q now s as s' r"
    unfolding created_def using loop rest enough r sv assms(6) by (auto simp: new_reservation_def)
  then show ?thesis using Inr by blast
qed

end

section \<open>How the ledger evolves\<close>

text \<open>The life cycle of a reservation: where its status may go from a status.\<close>

definition may_become :: "reservation_status \<Rightarrow> reservation_status \<Rightarrow> bool" where
  "may_become st st' \<longleftrightarrow> st = st' \<or> st = CONFIRMED \<or> (st = ACTIVATED \<and> st' \<in> {COMPLETED, FAILED})"

definition evolves :: "ledger \<Rightarrow> ledger \<Rightarrow> bool" where
  "evolves L L' \<longleftrightarrow>
     (\<forall>i r. l_reservation L i = Some r \<longrightarrow> (\<exists>r'. l_reservation L' i = Some r' \<and> same_booking r r' \<and>
        may_become (r_status r) (r_status r'))) \<and>
     (\<forall>k v. l_idempotency L k = Some v \<longrightarrow> l_idempotency L' k = Some v) \<and>
     (\<forall>i a. l_activation_of L i = Some a \<longrightarrow> l_activation_of L' i = Some a)"

lemma same_booking_trans: "same_booking a b \<Longrightarrow> same_booking b c \<Longrightarrow> same_booking a c"
  by (cases a; cases b; cases c) (simp add: same_booking_def)

lemma may_become_trans: "may_become a b \<Longrightarrow> may_become b c \<Longrightarrow> may_become a c"
  by (auto simp: may_become_def)

lemma evolves_refl [simp]: "evolves L L"
  by (simp add: evolves_def may_become_def)

lemma evolves_trans:
  assumes "evolves K L" "evolves L M"
  shows "evolves K M"
  unfolding evolves_def
proof (intro conjI allI impI)
  fix i r assume "l_reservation K i = Some r"
  then obtain r' where r': "l_reservation L i = Some r'" "same_booking r r'" "may_become (r_status r) (r_status r')"
    using assms(1) unfolding evolves_def by blast
  then obtain r'' where "l_reservation M i = Some r''" "same_booking r' r''" "may_become (r_status r') (r_status r'')"
    using assms(2) unfolding evolves_def by blast
  then show "\<exists>r''. l_reservation M i = Some r'' \<and> same_booking r r'' \<and> may_become (r_status r) (r_status r'')"
    using r' same_booking_trans may_become_trans by blast
qed (use assms in \<open>auto simp: evolves_def\<close>)

lemma evolves_expire: "evolves L (ledger_expire now L)"
  by (auto simp: evolves_def ledger_expire_def expire_at_def may_become_def)

lemma evolves_save:
  assumes "l_reservation L (r_reservation_id r) = None" "l_idempotency L k = None"
  shows "evolves L (ledger_save r as k fp cb L)"
  using assms by (auto simp: evolves_def ledger_save_def may_become_def)

lemma evolves_update:
  assumes "l_reservation L (r_reservation_id r) = Some r0" "same_booking r0 r" "may_become (r_status r0) (r_status r)"
  shows "evolves L (ledger_update r L)"
  using assms by (auto simp: evolves_def ledger_update_def may_become_def)

lemma evolves_activate:
  assumes "l_reservation L (r_reservation_id r) = Some r0" "same_booking r0 r" "may_become (r_status r0) (r_status r)"
    "l_activation_of L (r_reservation_id r) = None"
  shows "evolves L (ledger_activate a r as instrs L)"
  using assms by (auto simp: evolves_def ledger_activate_def may_become_def)

lemma transact_cases:
  assumes "transact U body s = (s', out)"
  obtains (ok) v where "out = Inr v" "body s = (s', Inr v)"
  | (failed) e s1 where "out = Inl e" "body s = (s1, Inl e)" "s' = (if u_rolls_back U then s else s1)"
  using assms by (auto simp: transact_def split: prod.splits sum.splits)

lemma transact_world_cases:
  assumes "transact_world U body w = (w', out)"
  obtains (ok) v where "out = Inr v" "body w = (w', Inr v)"
  | (failed) e w1 where "out = Inl e" "body w = (w1, Inl e)"
      "w' = (if u_rolls_back U then w1\<lparr>w_backend := w_backend w\<rparr> else w1)"
  using assms by (auto simp: transact_world_def split: prod.splits sum.splits)

context ledger_backend begin

lemma create_cases:
  assumes "inv s" "env_ok env" "is_f64 (fin_val (rq_power_kw q))" "l_reservation (abs s) rid = None"
    "create U env rid cid ikey q now s = (s', out)"
  obtains (failed) e where "out = Inl e" "inv s'" "abs s' = abs s \<or> abs s' = ledger_expire now (abs s)"
  | (replay) i r where "out = Inr r" "request_ok q" "s' = u_expire U now s"
      "l_idempotency (abs s) (tenant_key (rq_tenant_id q) ikey) = Some (e_fingerprint env q, i)"
      "l_reservation (abs s') i = Some r"
  | (created) as r where "out = Inr r" "request_ok q"
      "created env rid cid (tenant_key (rq_tenant_id q) ikey) q now (u_expire U now s) as s' r"
proof (cases "request_ok q")
  case False
  then have "s' = s" "out = Inl ReservationValueError" using assms(5) by (simp_all add: create_def)
  then show ?thesis using that(1) assms(1) by simp
next
  case ok: True
  let ?s1 = "u_expire U now s" and ?key = "tenant_key (rq_tenant_id q) ikey"
  have s1: "inv ?s1" "abs ?s1 = ledger_expire now (abs s)" using expire [OF assms(1)] by simp_all
  have idem: "l_idempotency (abs ?s1) = l_idempotency (abs s)" by (simp add: s1 ledger_expire_def)
  define body where "body = act_then (act_modify (u_expire U now))
          (act_bind (act_get (u_get_idempotency U ?key)) (\<lambda>previous.
             case previous of
               Some (previous_fingerprint, reservation_id) \<Rightarrow>
                 if previous_fingerprint \<noteq> e_fingerprint env q then act_raise IdempotencyConflict
                 else find_reservation U reservation_id
             | None \<Rightarrow> allocate_and_save U env rid cid ?key q now))"
  have run: "transact U body s = (s', out)" using assms(5) ok by (simp add: create_def body_def Let_def)
  have body: "body s = (case l_idempotency (abs s) ?key of
      Some (pf, i) \<Rightarrow> if pf \<noteq> e_fingerprint env q then (?s1, Inl IdempotencyConflict) else find_reservation U i ?s1
    | None \<Rightarrow> allocate_and_save U env rid cid ?key q now ?s1)"
    by (simp add: body_def act_then_def act_bind_def get_idempotency [OF s1(1)] idem split: option.splits prod.splits)
  have power: "0 \<le> fin_val (rq_power_kw q)" using ok by (simp add: request_ok_def)
  have fresh: "l_reservation (abs ?s1) rid = None" using assms(4) by (simp add: s1 ledger_expire_def)
  show ?thesis
  proof (cases "l_idempotency (abs s) ?key")
    case None
    then have b: "body s = allocate_and_save U env rid cid ?key q now ?s1" using body by simp
    obtain s2 o2 where o2: "allocate_and_save U env rid cid ?key q now ?s1 = (s2, o2)"
      by (cases "allocate_and_save U env rid cid ?key q now ?s1")
    from allocate_and_save_cases [OF s1(1) assms(2,3) power fresh _ o2] None idem
    consider e where "s2 = ?s1" "o2 = Inl e" | as r where "o2 = Inr r" "created env rid cid ?key q now ?s1 as s2 r"
      by auto
    then show ?thesis
    proof cases
      case 1
      then have "out = Inl e" "s' = s \<or> s' = ?s1" using run b o2 by (auto simp: transact_def split: if_splits)
      then show ?thesis using that(1) s1 assms(1) by auto
    next
      case 2
      then have "out = Inr r" "s' = s2" using run b o2 by (auto simp: transact_def)
      then show ?thesis using that(3) 2 ok by blast
    qed
  next
    case (Some v)
    obtain pf i where v: "v = (pf, i)" by (cases v)
    show ?thesis
    proof (cases "pf = e_fingerprint env q")
      case False
      then have "out = Inl IdempotencyConflict" "s' = s \<or> s' = ?s1"
        using run body Some v by (auto simp: transact_def split: if_splits)
      then show ?thesis using that(1) s1 assms(1) by auto
    next
      case True
      have "l_reservation (abs ?s1) i \<noteq> None" using idem_saved [OF s1(1)] Some v idem by metis
      then obtain r where r: "l_reservation (abs ?s1) i = Some r" by blast
      then have "body s = (?s1, Inr r)" using body Some v True find_reservation_run [OF s1(1)] by simp
      then have "out = Inr r" "s' = ?s1" using run by (auto simp: transact_def)
      then show ?thesis using that(2) ok Some v True r by blast
    qed
  qed
qed

lemma get_cases:
  assumes "inv s" "get_reservation_at U i now s = (s', out)"
  shows "inv s' \<and> (abs s' = abs s \<or> abs s' = ledger_expire now (abs s)) \<and>
    (\<forall>r. out = Inr r \<longrightarrow> s' = u_expire U now s \<and> l_reservation (abs s') i = Some r)"
  using assms(2) expire [OF assms(1)] assms(1) find_reservation_run [OF expire_inv [OF assms(1)], of i now]
  by (auto simp: get_reservation_at_def transact_def act_then_def act_bind_def split: option.splits if_splits)

lemma cancel_cases:
  assumes "inv s" "cancel U i now s = (s', out)"
  obtains (failed) e where "out = Inl e" "inv s'" "abs s' = abs s \<or> abs s' = ledger_expire now (abs s)"
  | (cancelled) r where "out = Inr (r\<lparr>r_status := CANCELLED\<rparr>)" "r_status r = CONFIRMED"
      "l_reservation (ledger_expire now (abs s)) i = Some r" "inv s'"
      "u_update_reservation U (r\<lparr>r_status := CANCELLED\<rparr>) (u_expire U now s) = Inr s'"
      "abs s' = ledger_update (r\<lparr>r_status := CANCELLED\<rparr>) (ledger_expire now (abs s))"
proof -
  let ?s1 = "u_expire U now s"
  have s1: "inv ?s1" "abs ?s1 = ledger_expire now (abs s)" using expire [OF assms(1)] by simp_all
  define body where "body = act_then (act_modify (u_expire U now))
       (act_bind (find_reservation U i) (\<lambda>r.
          if r_status r \<noteq> CONFIRMED then act_raise ReservationStateConflict
          else let cancelled = r\<lparr>r_status := CANCELLED\<rparr>
               in act_then (act_write Backend_error (u_update_reservation U cancelled))
                    (act_return cancelled)))"
  have run: "transact U body s = (s', out)" using assms(2) by (simp add: cancel_def body_def)
  show ?thesis
  proof (cases "l_reservation (abs ?s1) i")
    case None
    then have "body s = (?s1, Inl ReservationNotFound)"
      by (simp add: body_def act_then_def act_bind_def find_reservation_run [OF s1(1)])
    then have "out = Inl ReservationNotFound" "s' = s \<or> s' = ?s1" using run by (auto simp: transact_def split: if_splits)
    then show ?thesis using that(1) s1 assms(1) by auto
  next
    case (Some r)
    show ?thesis
    proof (cases "r_status r = CONFIRMED")
      case False
      then have "body s = (?s1, Inl ReservationStateConflict)"
        using Some by (simp add: body_def act_then_def act_bind_def find_reservation_run [OF s1(1)])
      then have "out = Inl ReservationStateConflict" "s' = s \<or> s' = ?s1"
        using run by (auto simp: transact_def split: if_splits)
      then show ?thesis using that(1) s1 assms(1) by auto
    next
      case True
      let ?r = "r\<lparr>r_status := CANCELLED\<rparr>"
      have id: "r_reservation_id r = i" using ids [OF s1(1) Some] by simp
      have b: "body s = (case u_update_reservation U ?r ?s1 of
          Inl e \<Rightarrow> (?s1, Inl (Backend_error e)) | Inr s2 \<Rightarrow> (s2, Inr ?r))"
        using Some True by (simp add: body_def act_then_def act_bind_def find_reservation_run [OF s1(1)] Let_def
            act_write_def split: sum.splits)
      show ?thesis
      proof (cases "u_update_reservation U ?r ?s1")
        case (Inl e)
        then have "body s = (?s1, Inl (Backend_error e))" using b by simp
        then have "out = Inl (Backend_error e)" "s' = s \<or> s' = ?s1"
          using run by (auto simp: transact_def split: if_splits)
        then show ?thesis using that(1) s1 assms(1) by auto
      next
        case (Inr s2)
        then have "body s = (s2, Inr ?r)" using b by simp
        then have o: "out = Inr ?r" "s' = s2" using run by (auto simp: transact_def)
        have "l_reservation (abs ?s1) (r_reservation_id ?r) = Some r" using Some id by simp
        then have "inv s2 \<and> abs s2 = ledger_update ?r (abs ?s1)"
          by (rule update [OF s1(1) _ same_booking_status Inr])
        then show ?thesis using that(2) [of r] o True Some s1(2) Inr by auto
      qed
    qed
  qed
qed

end

section \<open>Activation\<close>

lemma build_pairs_fst: "build_pairs C r n as = Inr pairs \<Longrightarrow> List.map fst pairs = as"
  by (induction as arbitrary: n pairs) (auto simp: bind_res_Inr split: sum.splits)

lemma build_pairs_built:
  "build_pairs C r n as = Inr pairs \<Longrightarrow> (a, ins) \<in> set pairs \<Longrightarrow>
     a \<in> set as \<and> (\<exists>ids. build_pebc_instruction (c_parses C) ids a r = Inr ins)"
proof (induction as arbitrary: n pairs)
  case (Cons b as)
  then obtain i ps where b: "build_pebc_instruction (c_parses C) (c_ids C n) b r = Inr i"
    "build_pairs C r (n + 1) as = Inr ps" "pairs = (b, i) # ps"
    by (auto simp: bind_res_Inr split: sum.splits)
  show ?case
  proof (cases "(a, ins) = (b, i)")
    case True
    then show ?thesis using b(1) by auto
  next
    case False
    then have "(a, ins) \<in> set ps" using Cons.prems(2) b(3) by auto
    then show ?thesis using Cons.IH [OF b(2)] by simp
  qed
qed simp

text \<open>The instructions handed out for a list of pairs, and those the acceptor takes.\<close>

definition handed_out :: "(allocation \<times> instruction) list \<Rightarrow> (string \<times> instruction) list" where
  "handed_out ps = List.map (\<lambda>(a, ins). (al_resource_id a, ins)) ps"

fun taken :: "'b collaborators \<Rightarrow> nat \<Rightarrow> (allocation \<times> instruction) list \<Rightarrow> (allocation \<times> instruction) list" where
  "taken C n [] = []"
| "taken C n (p # ps) = (if c_acceptor C n (al_resource_id (fst p)) (snd p) = Accepted
     then p # taken C (n + 1) ps else taken C (n + 1) ps)"

lemma taken_subset: "set (taken C n ps) \<subseteq> set ps"
  by (induction ps arbitrary: n) auto

lemma taken_length: "length (taken C n ps) \<le> length ps"
  by (induction ps arbitrary: n) (auto simp: le_SucI)

lemma taken_distinct: "distinct (List.map f ps) \<Longrightarrow> distinct (List.map f (taken C n ps))"
  using taken_subset by (induction ps arbitrary: n) (auto simp: image_iff, fastforce)

lemma accept_pairs_frame:
  "accept_pairs C ps w = (w', out) \<Longrightarrow> w_backend w' = w_backend w \<and> w_webhooks w' = w_webhooks w"
  by (induction ps arbitrary: w w' out)
    (auto simp: Let_def split: accept_outcome.splits prod.splits sum.splits)

lemma accept_pairs_Inr:
  "accept_pairs C ps w = (w', Inr acc) \<Longrightarrow>
     acc = taken C (length (w_dispatched w)) ps \<and> w_dispatched w' = w_dispatched w @ handed_out ps"
proof (induction ps arbitrary: w acc)
  case (Cons p ps)
  let ?w1 = "w\<lparr>w_dispatched := w_dispatched w @ [(al_resource_id (fst p), snd p)]\<rparr>"
  show ?case
  proof (cases "c_acceptor C (length (w_dispatched w)) (al_resource_id (fst p)) (snd p)")
    case Accepted
    then obtain acc' where "accept_pairs C ps ?w1 = (w', Inr acc')" "acc = p # acc'"
      using Cons.prems by (auto simp: Let_def split: prod.splits sum.splits)
    then show ?thesis using Cons.IH [of ?w1 acc'] Accepted by (simp add: handed_out_def case_prod_unfold)
  next
    case Rejected
    then show ?thesis using Cons.IH [of ?w1 acc] Cons.prems by (simp add: handed_out_def case_prod_unfold Let_def)
  next
    case Acceptor_raised
    then show ?thesis using Cons.prems by (simp add: Let_def)
  qed
qed (simp add: handed_out_def)

lemma notify_if_frame:
  "notify_if C cb event p w = (w', out) \<Longrightarrow> w_backend w' = w_backend w \<and> w_dispatched w' = w_dispatched w"
  by (auto simp: notify_if_def notify_def split: if_splits prod.splits sum.splits)

text \<open>The ledger after the instructions of a reservation were dispatched.\<close>

definition activated ::
    "'b collaborators \<Rightarrow> uuid \<Rightarrow> instant \<Rightarrow> nat \<Rightarrow> ledger \<Rightarrow> uuid \<Rightarrow> (allocation \<times> instruction) list \<Rightarrow> activation
     \<Rightarrow> ledger \<Rightarrow> bool" where
  "activated C aid now n L i pairs a L' \<longleftrightarrow>
     (\<exists>r. l_reservation L i = Some r \<and> r_status r = CONFIRMED \<and> l_activation_of L i = None \<and>
        build_pairs C r 0 (l_allocations L i) = Inr pairs \<and>
        a = finished_activation aid r pairs (taken C n pairs) now \<and>
        L' = ledger_activate a (finished_reservation r pairs (taken C n pairs))
          (List.map fst (taken C n pairs)) (List.map snd pairs) L)"

lemma finished_simps [simp]:
  "ac_activation_id (finished_activation aid r ps acc now) = aid"
  "ac_reservation_id (finished_activation aid r ps acc now) = r_reservation_id r"
  "r_reservation_id (finished_reservation r ps acc) = r_reservation_id r"
  "same_booking r (finished_reservation r ps acc)"
  by (simp_all add: finished_activation_def finished_reservation_def same_booking_def Let_def)

lemma activated_evolves:
  assumes "activated C aid now n L i pairs a L'" "\<And>r. l_reservation L i = Some r \<Longrightarrow> r_reservation_id r = i"
  shows "evolves L L'"
proof -
  from assms(1) obtain r where r: "l_reservation L i = Some r" "r_status r = CONFIRMED" "l_activation_of L i = None"
    "L' = ledger_activate a (finished_reservation r pairs (taken C n pairs))
          (List.map fst (taken C n pairs)) (List.map snd pairs) L"
    unfolding activated_def by blast
  let ?r = "finished_reservation r pairs (taken C n pairs)"
  have id: "r_reservation_id ?r = i" using assms(2) r(1) by simp
  have "l_reservation L (r_reservation_id ?r) = Some r" unfolding id by (rule r(1))
  moreover have "same_booking r ?r" by (rule finished_simps(4))
  moreover have "may_become (r_status r) (r_status ?r)" using r(2) by (simp add: may_become_def)
  moreover have "l_activation_of L (r_reservation_id ?r) = None" unfolding id by (rule r(3))
  ultimately show ?thesis unfolding r(4) by (rule evolves_activate)
qed

context ledger_backend begin

text \<open>
  What the body of an activation does from the moment the reservation is known to be confirmed:
  either nothing happened to the backend, or the activation was saved.
\<close>

lemma dispatch_and_save_cases:
  assumes inv: "inv (w_backend w)" and r: "l_reservation (abs (w_backend w)) i = Some r"
    and st: "r_status r = CONFIRMED" and none: "l_activation_of (abs (w_backend w)) i = None"
    and fresh: "l_activation (abs (w_backend w)) aid = None"
    and run: "dispatch_and_save U C aid now cb r w = (w', out)"
  shows "(w_backend w' = w_backend w \<and> (\<exists>e. out = Inl e)) \<or>
    (\<exists>pairs a. activated C aid now (length (w_dispatched w)) (abs (w_backend w)) i pairs a (abs (w_backend w')) \<and>
       inv (w_backend w') \<and> w_dispatched w' = w_dispatched w @ handed_out pairs \<and>
       (\<forall>a'. out = Inr a' \<longrightarrow> a' = a))"
proof -
  have id: "r_reservation_id r = i" and ok: "allocs_ok (l_allocations (abs (w_backend w)) i)"
    using ids [OF inv r] by simp_all
  have allocs: "u_get_allocations U i (w_backend w) = Inr (l_allocations (abs (w_backend w)) i)"
    using get_allocations [OF inv] r by simp
  show ?thesis
  proof (cases "build_pairs C r 0 (l_allocations (abs (w_backend w)) i)")
    case (Inl e)
    then have "w' = w" "out = Inl e"
      using run by (simp_all add: dispatch_and_save_def act_bind_def id allocs)
    then show ?thesis by blast
  next
    case (Inr pairs)
    obtain w1 o1 where w1: "accept_pairs C pairs w = (w1, o1)" by (cases "accept_pairs C pairs w")
    have back1: "w_backend w1 = w_backend w" using accept_pairs_frame [OF w1] by simp
    show ?thesis
    proof (cases o1)
      case (Inl e)
      then have "w' = w1" "out = Inl e"
        using run Inr w1 by (simp_all add: dispatch_and_save_def act_bind_def id allocs)
      then show ?thesis using back1 by blast
    next
      case acc: (Inr acc)
      let ?n = "length (w_dispatched w)"
      have acc': "acc = taken C ?n pairs" and disp: "w_dispatched w1 = w_dispatched w @ handed_out pairs"
        using accept_pairs_Inr w1 acc by blast+
      define a where "a = finished_activation aid r pairs acc now"
      define r' where "r' = finished_reservation r pairs acc"
      define m where "m = act_then (on_backend (act_write Backend_error
                    (u_save_activation U a r' (List.map fst acc) (List.map snd pairs))))
                  (act_then (notify_if C cb
                      (if ac_rejected_instruction_count a \<noteq> 0 then ''activation.failed''
                       else ''activation.completed'') (Activation_payload a))
                    (act_return a))"
      have run1: "m w1 = (w', out)"
        using run Inr w1 acc unfolding dispatch_and_save_def a_def r'_def m_def Let_def
        by (simp add: act_bind_def [of "act_get _"] act_bind_def [of "act_lift _"] act_bind_def [of "accept_pairs _ _"]
            id allocs)
      have accs: "allocs_ok (List.map fst acc)"
      proof -
        have f: "List.map fst pairs = l_allocations (abs (w_backend w)) i" using build_pairs_fst [OF Inr] .
        have "distinct (List.map (al_resource_id \<circ> fst) pairs)"
          using ok f [symmetric] by (simp add: allocs_ok_def)
        then have "distinct (List.map (al_resource_id \<circ> fst) acc)" unfolding acc' by (rule taken_distinct)
        moreover have "fst ` set acc \<subseteq> set (l_allocations (abs (w_backend w)) i)"
          using taken_subset [of C ?n pairs] f acc' by (metis image_mono image_set)
        ultimately show ?thesis using ok by (auto simp: allocs_ok_def)
      qed
      show ?thesis
      proof (cases "u_save_activation U a r' (List.map fst acc) (List.map snd pairs) (w_backend w1)")
        case (Inl e)
        then have "w_backend w' = w_backend w1" "out = Inl (Backend_error e)"
          using run1 by (simp_all add: m_def act_then_def act_bind_def on_backend_def act_write_def)
        then show ?thesis using back1 by simp
      next
        case sv: (Inr s2)
        have s2: "inv s2 \<and> abs s2 = ledger_activate a r' (List.map fst acc) (List.map snd pairs) (abs (w_backend w))"
        proof (rule save_activation)
          show "inv (w_backend w)" by (rule inv)
          show "l_reservation (abs (w_backend w)) (r_reservation_id r') = Some r" using r id by (simp add: r'_def)
          show "same_booking r r'" by (simp add: r'_def)
          show "u_save_activation U a r' (List.map fst acc) (List.map snd pairs) (w_backend w) = Inr s2"
            using sv back1 by simp
        qed (use none fresh id accs in \<open>simp_all add: a_def r'_def\<close>)
        let ?w2 = "w1\<lparr>w_backend := s2\<rparr>"
        obtain w3 o3 where w3: "notify_if C cb (if ac_rejected_instruction_count a \<noteq> 0 then ''activation.failed''
            else ''activation.completed'') (Activation_payload a) ?w2 = (w3, o3)"
          by (metis surj_pair)
        have fin: "w' = w3" "out = Inr a \<or> (\<exists>e. out = Inl e)"
        proof -
          have "m w1 = act_then (notify_if C cb (if ac_rejected_instruction_count a \<noteq> 0 then ''activation.failed''
            else ''activation.completed'') (Activation_payload a)) (act_return a) ?w2"
            unfolding m_def act_then_eq by (rule act_bind_run(1)) (simp add: on_backend_def act_write_def sv)
          also have "\<dots> = (case o3 of Inl e \<Rightarrow> (w3, Inl e) | Inr _ \<Rightarrow> (w3, Inr a))"
            unfolding act_then_eq act_bind_def w3 by (cases o3) simp_all
          finally have fin': "(case o3 of Inl e \<Rightarrow> (w3, Inl e) | Inr _ \<Rightarrow> (w3, Inr a)) = (w', out)"
            unfolding run1 by (rule sym)
          show "w' = w3" using fin' by (cases o3) simp_all
          show "out = Inr a \<or> (\<exists>e. out = Inl e)" using fin' by (cases o3) auto
        qed
        have "w_backend w' = s2" "w_dispatched w' = w_dispatched w1"
          using notify_if_frame [OF w3] fin(1) by simp_all
        moreover have "activated C aid now ?n (abs (w_backend w)) i pairs a (abs s2)"
          unfolding activated_def using r st none Inr s2 acc' by (auto simp: a_def r'_def)
        ultimately show ?thesis using s2 disp fin(2) by (intro disjI2 exI [of _ pairs] exI [of _ a]) auto
      qed
    qed
  qed
qed

end

context ledger_backend begin

lemma activate_found_cases:
  assumes inv: "inv (w_backend w)" and r: "l_reservation (abs (w_backend w)) i = Some r"
    and none: "l_activation_of (abs (w_backend w)) i = None"
    and fresh: "l_activation (abs (w_backend w)) aid = None"
    and run: "activate_found U C aid now i r w = (w', out)"
  shows "(w_backend w' = w_backend w \<and> (\<exists>e. out = Inl e)) \<or>
    (\<exists>pairs a. activated C aid now (length (w_dispatched w)) (abs (w_backend w)) i pairs a (abs (w_backend w')) \<and>
       inv (w_backend w') \<and> w_dispatched w' = w_dispatched w @ handed_out pairs \<and>
       (\<forall>a'. out = Inr a' \<longrightarrow> a' = a))"
proof (cases "r_status r = CONFIRMED")
  case False
  then show ?thesis using run by (auto simp: activate_found_def)
next
  case st: True
  let ?cb = "u_callback_url U i (w_backend w)"
  obtain w3 o3 where w3: "notify_if C ?cb ''activation.accepted'' (Reservation_payload r) w = (w3, o3)"
    by (metis surj_pair)
  note f3 = notify_if_frame [OF w3]
  show ?thesis
  proof (cases o3)
    case (Inl e)
    then show ?thesis using run st w3 f3 by (auto simp: activate_found_def act_bind_def act_then_def)
  next
    case o3: (Inr u)
    obtain w4 o4 where w4: "notify_if C ?cb ''activation.started'' (Reservation_payload r) w3 = (w4, o4)"
      by (metis surj_pair)
    have f4: "w_backend w4 = w_backend w" "w_dispatched w4 = w_dispatched w"
      using notify_if_frame [OF w4] f3 by simp_all
    show ?thesis
    proof (cases o4)
      case (Inl e)
      then show ?thesis using run st w3 o3 w4 f4 by (auto simp: activate_found_def act_bind_def act_then_def)
    next
      case o4: (Inr u)
      then have d: "dispatch_and_save U C aid now ?cb r w4 = (w', out)"
        using run st w3 o3 w4 by (simp add: activate_found_def act_bind_def act_then_def)
      from dispatch_and_save_cases [OF _ _ st _ _ d, unfolded f4, OF inv r none fresh] show ?thesis .
    qed
  qed
qed

lemma activate_cases:
  assumes inv: "inv (w_backend w)" and fresh: "l_activation (abs (w_backend w)) aid = None"
    and run: "activate U C aid now1 now2 i w = (w', out)"
  obtains (existing) a where "l_activation_of (abs (w_backend w)) i = Some a" "out = Inr a" "w' = w"
  | (failed) e where "l_activation_of (abs (w_backend w)) i = None" "out = Inl e" "inv (w_backend w')"
      "abs (w_backend w') = abs (w_backend w) \<or> abs (w_backend w') = ledger_expire now1 (abs (w_backend w))"
  | (activated) pairs a where "l_activation_of (abs (w_backend w)) i = None"
      "activated C aid now2 (length (w_dispatched w)) (ledger_expire now1 (abs (w_backend w))) i pairs a
         (abs (w_backend w'))" "inv (w_backend w')" "w_dispatched w' = w_dispatched w @ handed_out pairs"
      "\<And>a'. out = Inr a' \<Longrightarrow> a' = a"
proof (cases "l_activation_of (abs (w_backend w)) i")
  case (Some a)
  then have "w' = w" "out = Inr a"
    using run activation_for [OF inv] by (simp_all add: activate_def transact_world_def act_bind_def)
  then show ?thesis using that(1) Some by blast
next
  case None
  note outcome = that
  let ?s1 = "u_expire U now1 (w_backend w)" and ?L = "ledger_expire now1 (abs (w_backend w))"
  have s1: "inv ?s1" "abs ?s1 = ?L" using expire [OF inv] by simp_all
  define w1 where "w1 = w\<lparr>w_backend := ?s1\<rparr>"
  have w1: "w_backend w1 = ?s1" "w_dispatched w1 = w_dispatched w" by (simp_all add: w1_def)
  obtain w2 o2 where body: "(case l_reservation ?L i of None \<Rightarrow> (w1, Inl ReservationNotFound)
      | Some r \<Rightarrow> activate_found U C aid now2 i r w1) = (w2, o2)" by (metis surj_pair)
  define B where "B = act_bind (act_get (\<lambda>w. u_activation_for_reservation U i (w_backend w))) (\<lambda>existing.
       case existing of
         Some a \<Rightarrow> act_return a
       | None \<Rightarrow>
         act_then (on_backend (act_modify (u_expire U now1)))
          (act_bind (on_backend (find_reservation U i)) (activate_found U C aid now2 i)))"
  have "B w = (w2, o2)"
    using body None activation_for [OF inv] find_reservation_run [OF s1(1), of i] s1(2)
    by (simp add: B_def act_bind_def act_then_def on_backend_def w1_def split: option.splits)
  moreover have "transact_world U B w = (w', out)" using run by (simp add: activate_def B_def)
  ultimately have final: "out = o2"
      "w' = (if is_ok o2 \<or> \<not> u_rolls_back U then w2 else w2\<lparr>w_backend := w_backend w\<rparr>)"
    by (cases o2, auto simp: transact_world_def)+
  have failing: thesis if "w_backend w2 = ?s1" "o2 = Inl e" for e
  proof (rule outcome(2) [OF None])
    show "out = Inl e" using final(1) \<open>o2 = Inl e\<close> by simp
    show "inv (w_backend w')" "abs (w_backend w') = abs (w_backend w) \<or> abs (w_backend w') = ?L"
      using final(2) \<open>w_backend w2 = ?s1\<close> s1 inv by auto
  qed
  show ?thesis
  proof (cases "l_reservation ?L i")
    case n: None
    then show ?thesis using body w1 by (intro failing) auto
  next
    case r: (Some r)
    then have b: "activate_found U C aid now2 i r w1 = (w2, o2)" using body by simp
    have pre: "l_activation_of (abs ?s1) i = None" "l_activation (abs ?s1) aid = None"
      "l_reservation (abs ?s1) i = Some r"
      using None fresh r by (simp_all add: s1(2) ledger_expire_def)
    from activate_found_cases [OF _ _ _ _ b, unfolded w1, OF s1(1) pre(3,1,2)]
    consider e where "w_backend w2 = ?s1" "o2 = Inl e"
      | pairs a where "activated C aid now2 (length (w_dispatched w)) ?L i pairs a (abs (w_backend w2))"
        "inv (w_backend w2)" "w_dispatched w2 = w_dispatched w @ handed_out pairs" "\<And>a'. o2 = Inr a' \<Longrightarrow> a' = a"
      unfolding s1(2) by blast
    then show ?thesis
    proof cases
      case 1
      then show ?thesis by (rule failing)
    next
      case 2
      show ?thesis
      proof (cases "is_ok o2 \<or> \<not> u_rolls_back U")
        case True
        then have "w' = w2" using final(2) by simp
        then show ?thesis using that(3) [OF None, of pairs a] 2 final(1) by blast
      next
        case False
        then obtain e where e: "o2 = Inl e" by (cases o2) auto
        show ?thesis
          by (rule that(2) [OF None, of e]) (use final False e inv in simp_all)
      qed
    qed
  qed
qed

end

section \<open>Histories of the service\<close>

text \<open>
  One call of the service, with whatever the outside world supplies: clock readings, offers,
  collaborators, and identifiers that are new, as random UUIDs are.
\<close>

inductive service_step :: "'s uow \<Rightarrow> 's world \<Rightarrow> 's world \<Rightarrow> bool" for U :: "'s uow" where
  step_create: "env_ok env \<Longrightarrow> is_f64 (fin_val (rq_power_kw q)) \<Longrightarrow>
    u_get_reservation U rid (w_backend w) = None \<Longrightarrow>
    service_step U w (fst (on_backend (create U env rid cid ikey q now) w))"
| step_get: "service_step U w (fst (on_backend (get_reservation_at U i now) w))"
| step_cancel: "service_step U w (fst (on_backend (cancel U i now) w))"
| step_activate: "u_get_activation U aid (w_backend w) = None \<Longrightarrow>
    service_step U w (fst (activate U (C :: string collaborators) aid now1 now2 i w))"

lemma on_backend_fst: "w_backend (fst (on_backend m w)) = fst (m (w_backend w))"
  by (simp add: on_backend_def split: prod.splits)

context ledger_backend begin

lemma same_ids: "inv s \<Longrightarrow> l_reservation (ledger_expire now (abs s)) i = Some r \<Longrightarrow> r_reservation_id r = i"
  using ids [of s i] by (auto simp: ledger_expire_def)

lemma create_evolves:
  assumes "inv s" "env_ok env" "is_f64 (fin_val (rq_power_kw q))" "l_reservation (abs s) rid = None"
    and run: "create U env rid cid ikey q now s = (s', out)"
  shows "inv s' \<and> evolves (abs s) (abs s')"
proof (cases rule: create_cases [OF assms])
  case (1 e)
  then show ?thesis using evolves_expire by auto
next
  case (2 i r)
  then show ?thesis using expire [OF assms(1)] evolves_expire by auto
next
  case (3 as r)
  let ?s1 = "u_expire U now s"
  have "l_reservation (abs ?s1) rid = None" using assms(4) expire_abs [OF assms(1)] by (simp add: ledger_expire_def)
  then have "evolves (abs ?s1) (abs s')"
    using 3(3) unfolding created_def by (auto simp: new_reservation_def intro!: evolves_save)
  then have "evolves (abs s) (abs s')"
    using evolves_trans [OF evolves_expire] expire_abs [OF assms(1)] by metis
  then show ?thesis using 3(3) unfolding created_def by blast
qed

lemma cancel_evolves:
  assumes "inv s" and run: "cancel U i now s = (s', out)"
  shows "inv s' \<and> evolves (abs s) (abs s')"
proof (cases rule: cancel_cases [OF assms])
  case (1 e)
  then show ?thesis using evolves_expire by auto
next
  case (2 r)
  have "r_reservation_id r = i" using same_ids [OF assms(1) 2(3)] .
  then have "evolves (ledger_expire now (abs s)) (abs s')"
    unfolding 2(6) using 2(2,3) by (intro evolves_update [of _ _ r]) (simp_all add: may_become_def)
  then show ?thesis using evolves_trans [OF evolves_expire] 2(4) by blast
qed

lemma activate_evolves:
  assumes "inv (w_backend w)" "l_activation (abs (w_backend w)) aid = None"
    and run: "activate U C aid now1 now2 i w = (w', out)"
  shows "inv (w_backend w') \<and> evolves (abs (w_backend w)) (abs (w_backend w'))"
proof (cases rule: activate_cases [OF assms])
  case (1 a)
  then show ?thesis using assms(1) by simp
next
  case (2 e)
  then show ?thesis using evolves_expire by auto
next
  case (3 pairs a)
  have "evolves (ledger_expire now1 (abs (w_backend w))) (abs (w_backend w'))"
    using activated_evolves [OF 3(2)] same_ids [OF assms(1)] by blast
  then show ?thesis using evolves_trans [OF evolves_expire] 3(3) by blast
qed

lemma service_step_evolves:
  assumes "service_step U w w'" "inv (w_backend w)"
  shows "inv (w_backend w') \<and> evolves (abs (w_backend w)) (abs (w_backend w'))"
  using assms
proof cases
  case (step_create env q rid cid ikey now)
  have fresh: "l_reservation (abs (w_backend w)) rid = None"
    using step_create(4) get_reservation [OF assms(2)] by simp
  show ?thesis unfolding step_create(1) on_backend_fst
    by (rule create_evolves [OF assms(2) step_create(2,3) fresh prod.collapse [symmetric]])
next
  case (step_get i now)
  show ?thesis unfolding step_get on_backend_fst
    using get_cases [OF assms(2) prod.collapse [symmetric], of i now] evolves_expire [of "abs (w_backend w)" now] by auto
next
  case (step_cancel i now)
  show ?thesis unfolding step_cancel on_backend_fst
    by (rule cancel_evolves [OF assms(2) prod.collapse [symmetric]])
next
  case (step_activate aid C now1 now2 i)
  have "l_activation (abs (w_backend w)) aid = None"
    using step_activate(2) get_activation [OF assms(2)] by simp
  then show ?thesis unfolding step_activate(1)
    by (rule activate_evolves [OF assms(2) _ prod.collapse [symmetric]])
qed

lemma service_run_evolves:
  assumes "(service_step U)\<^sup>*\<^sup>* w w'" "inv (w_backend w)"
  shows "inv (w_backend w') \<and> evolves (abs (w_backend w)) (abs (w_backend w'))"
  using assms
proof induction
  case (step w1 w2)
  then show ?case using service_step_evolves evolves_trans by blast
qed simp

text \<open>A retry of an accepted request, after anything, is answered with the same reservation.\<close>

lemma create_retry:
  assumes "inv (w_backend w)" "env_ok env" "is_f64 (fin_val (rq_power_kw q))" "l_reservation (abs (w_backend w)) rid = None"
    and first: "create U env rid cid ikey q now (w_backend w) = (s1, Inr r)"
    and run: "(service_step U)\<^sup>*\<^sup>* (w\<lparr>w_backend := s1\<rparr>) w2"
    and env': "env_ok env'" "e_fingerprint env' q = e_fingerprint env q"
    and fresh': "l_reservation (abs (w_backend w2)) rid' = None"
    and retry: "create U env' rid' cid' ikey q now' (w_backend w2) = (s3, out)"
  shows "\<exists>r'. out = Inr r' \<and> same_booking r r' \<and> may_become (r_status r) (r_status r') \<and>
    s3 = u_expire U now' (w_backend w2)"
proof -
  let ?key = "tenant_key (rq_tenant_id q) ikey"
  have inv1: "inv s1" using create_evolves [OF assms(1-4) first] by simp
  have "request_ok q \<and> (\<exists>i. l_idempotency (abs s1) ?key = Some (e_fingerprint env q, i) \<and> l_reservation (abs s1) i = Some r)"
  proof (cases rule: create_cases [OF assms(1-4) first])
    case (2 i r')
    then show ?thesis using expire_abs [OF assms(1)] by (auto simp: ledger_expire_def)
  next
    case (3 as r')
    then show ?thesis unfolding created_def by (auto simp: ledger_save_def)
  qed simp
  then obtain i where i: "request_ok q" "l_idempotency (abs s1) ?key = Some (e_fingerprint env q, i)"
    "l_reservation (abs s1) i = Some r" by blast
  have ev: "inv (w_backend w2)" "evolves (abs s1) (abs (w_backend w2))"
    using service_run_evolves [OF run] inv1 by simp_all
  then have idem: "l_idempotency (abs (w_backend w2)) ?key = Some (e_fingerprint env' q, i)"
    using i(2) env'(2) unfolding evolves_def by simp
  have "evolves (abs s1) (abs (u_expire U now' (w_backend w2)))"
    using evolves_trans [OF ev(2) evolves_expire] expire_abs [OF ev(1)] by simp
  then obtain r' where r': "l_reservation (abs (u_expire U now' (w_backend w2))) i = Some r'" "same_booking r r'"
    "may_become (r_status r) (r_status r')" using i(3) unfolding evolves_def by blast
  have inv2: "inv (u_expire U now' (w_backend w2))" using expire_inv ev(1) by simp
  have "l_idempotency (abs (u_expire U now' (w_backend w2))) = l_idempotency (abs (w_backend w2))"
    using expire_abs [OF ev(1)] by (simp add: ledger_expire_def)
  then have "create U env' rid' cid' ikey q now' (w_backend w2) = (u_expire U now' (w_backend w2), Inr r')"
    using i(1) idem get_idempotency [OF inv2] find_reservation_run [OF inv2] r'(1)
    by (simp add: create_def transact_def act_then_def act_bind_def Let_def)
  then show ?thesis using retry r' by auto
qed

lemma activate_again:
  assumes "inv (w_backend w)" "l_activation (abs (w_backend w)) aid = None"
    and first: "activate U C aid now1 now2 i w = (w1, Inr a)"
    and run: "(service_step U)\<^sup>*\<^sup>* w1 w2"
  shows "activate U C' aid' now1' now2' i w2 = (w2, Inr a)"
proof -
  have "inv (w_backend w1) \<and> l_activation_of (abs (w_backend w1)) i = Some a"
  proof (cases rule: activate_cases [OF assms(1-3)])
    case (1 a')
    then show ?thesis using assms(1) by simp
  next
    case (3 pairs a')
    have "l_activation_of (abs (w_backend w1)) i = Some a'"
      using 3(2) same_ids [OF assms(1)] unfolding activated_def ledger_activate_def by auto
    then show ?thesis using 3(3,5) by simp
  qed simp
  then have ev: "inv (w_backend w2)" "l_activation_of (abs (w_backend w2)) i = Some a"
    using service_run_evolves [OF run] unfolding evolves_def by blast+
  then show ?thesis
    using activation_for [OF ev(1)] by (simp add: activate_def transact_world_def act_bind_def)
qed

end

section \<open>Capacity\<close>

lemma power_for_absent: "rid \<notin> al_resource_id ` set as \<Longrightarrow> power_for rid as = 0"
proof -
  assume "rid \<notin> al_resource_id ` set as"
  then have "filter (\<lambda>a. al_resource_id a = rid) as = []" by (auto simp: filter_empty_conv)
  then show ?thesis by (simp add: power_for_def)
qed

lemma power_for_member:
  assumes "allocs_ok as" "a \<in> set as"
  shows "power_for (al_resource_id a) as = al_power_kw a"
proof -
  have "find (\<lambda>c. al_resource_id c = al_resource_id a) as \<noteq> None"
    using assms(2) by (auto simp: find_None_iff)
  then obtain b where b: "find (\<lambda>c. al_resource_id c = al_resource_id a) as = Some b" by blast
  then have "b \<in> set as" "al_resource_id b = al_resource_id a" by (auto simp: find_Some_iff)
  moreover have "inj_on al_resource_id (set as)" using assms(1) by (simp add: allocs_ok_def distinct_map)
  ultimately have "b = a" using assms(2) by (metis inj_onD)
  then show ?thesis using b power_for_single [OF assms(1)] by simp
qed

lemma taken_from_offer:
  assumes "taken_from U d s fs a" "distinct (List.map o_resource_id fs)" "f \<in> set fs" "o_resource_id f = al_resource_id a"
    "u_reserved_for_offer U f d s = Inr x"
  shows "al_power_kw a \<le> fsub (offer_capacity d f) x"
proof -
  from assms(1) obtain g y where g: "g \<in> set fs" "u_reserved_for_offer U g d s = Inr y"
    "a = allocate_from g (al_power_kw a)" "al_power_kw a \<le> fsub (offer_capacity d g) y"
    unfolding taken_from_def by blast
  then have "o_resource_id g = o_resource_id f" using assms(4) by (simp add: allocate_from_def) (metis allocation.select_convs(1))
  moreover have "inj_on o_resource_id (set fs)" using assms(2) by (simp add: distinct_map)
  ultimately have "g = f" using assms(3) g(1) by (metis inj_onD)
  then show ?thesis using g assms(5) by simp
qed

context ledger_backend begin

text \<open>The allocations of a new reservation.\<close>

lemma created_allocations:
  assumes "inv s" "env_ok env" "is_f64 (fin_val (rq_power_kw q))" "request_ok q"
    and c: "created env rid cid key q now s as s' r"
  shows "allocs_ok as" "\<forall>a \<in> set as. taken_from U (rq_direction q) s (e_offers env q now) a"
    "\<bar>fin_val (rq_power_kw q) - sum_list (List.map al_power_kw as)\<bar>
       \<le> nano + of_nat (length (e_offers env q now)) * sub_error (fin_val (rq_power_kw q))"
    "l_allocations (abs s') rid = as" "l_reservation (abs s') rid = Some r"
proof -
  let ?fs = "e_offers env q now" and ?p = "fin_val (rq_power_kw q)"
  from c obtain rest where loop: "allocate_loop U (rq_direction q) s ?fs [] ?p = Inr (as, rest)" "rest \<le> nano"
    unfolding created_def by blast
  have p: "0 \<le> ?p" using assms(4) by (simp add: request_ok_def)
  have dist: "distinct (List.map o_resource_id ?fs)" using assms(2) by (simp add: env_ok_def)
  from allocate_loop_spec [OF loop(1) assms(3) p dist] have
    spec: "\<forall>a \<in> set as. taken_from U (rq_direction q) s ?fs a" "distinct (List.map al_resource_id as)"
      "length as \<le> length ?fs" "0 \<le> rest"
      "\<bar>?p - sum_list (List.map al_power_kw as) - rest\<bar> \<le> of_nat (length as) * sub_error ?p" by auto
  show "allocs_ok as" by (rule taken_from_allocs_ok [OF spec(1,2)])
  show "\<forall>a \<in> set as. taken_from U (rq_direction q) s ?fs a" by (rule spec(1))
  have "0 \<le> sub_error ?p" using p by (simp add: sub_error_def)
  then have "of_nat (length as) * sub_error ?p \<le> of_nat (length ?fs) * sub_error ?p"
    using spec(3) by (intro mult_right_mono) simp_all
  then show "\<bar>?p - sum_list (List.map al_power_kw as)\<bar> \<le> nano + of_nat (length ?fs) * sub_error ?p"
    using spec(4,5) loop(2) by linarith
  show "l_allocations (abs s') rid = as" "l_reservation (abs s') rid = Some r"
    using c unfolding created_def by (auto simp: ledger_save_def new_reservation_def)
qed

lemma created_reserved:
  assumes "inv s" "env_ok env" "is_f64 (fin_val (rq_power_kw q))" "request_ok q"
    and fresh: "l_reservation (abs s) rid = None"
    and c: "created env rid cid key q now s as s' r"
    and f: "f \<in> set (e_offers env q now)" and x: "u_reserved_for_offer U f (rq_direction q) s = Inr x"
  shows "\<exists>y. u_reserved_for_offer U f (rq_direction q) s' = Inr y \<and>
    y \<le> max x (offer_capacity (rq_direction q) f + offer_capacity (rq_direction q) f / 2 ^ 51 + 1 / 2 ^ 1070)"
proof -
  note al = created_allocations [OF assms(1-4) c]
  have cell: "offer_cell f = (rq_tenant_id q, rq_zone_id q, instant_of (rq_interval_start q),
      instant_of (rq_interval_end q), rq_consequence_type q)"
    and dist: "distinct (List.map o_resource_id (e_offers env q now))"
    using assms(2) f by (auto simp: env_ok_def)
  have prod: "offer_in_product f (rq_direction q) r" "active_status (r_status r)" "r_reservation_id r = rid"
    using c cell unfolding created_def
    by (auto simp: offer_in_product_def product_matches_def new_reservation_def active_status_def offer_cell_def)
  have x0: "is_f64 x" "0 \<le> x" using reserved [OF assms(1), of f "rq_direction q"] x by auto
  have sv: "u_save_reservation U r as key (e_fingerprint env q) (rq_callback_url q) s = Inr s'"
    "l_idempotency (abs s) key = None" using c unfolding created_def by blast+
  have new: "u_reserved_for_offer U f (rq_direction q) s' = Inr (fadd x (power_for (o_resource_id f) as))"
    by (rule reserved_save [OF assms(1) _ sv(2) al(1) prod(2,1) sv(1) x]) (simp add: prod(3) fresh)
  show ?thesis
  proof (cases "o_resource_id f \<in> al_resource_id ` set as")
    case False
    then show ?thesis using new x0(1) by (simp add: power_for_absent)
  next
    case True
    then obtain a where a: "a \<in> set as" "o_resource_id f = al_resource_id a" by blast
    have "0 < al_power_kw a" using al(2) a(1) unfolding taken_from_def by blast
    moreover have "al_power_kw a \<le> fsub (offer_capacity (rq_direction q) f) x"
      using taken_from_offer [OF bspec [OF al(2) a(1)] dist f a(2) x] .
    ultimately show ?thesis using new reserve_bound [OF x0(2)] power_for_member [OF al(1) a(1)] a(2)
      by (auto intro: le_max_iff_disj [THEN iffD2])
  qed
qed

end

end
