(* ===== verification/ReservationProps.thy ===== *)
theory ReservationProps
  imports ReservationService
begin

text \<open>
  The properties of the reservation service over the in-memory backend. The lemmas they rest on
  are proved once for every backend that keeps the ledger, in \<open>ledger_backend\<close>.
\<close>

section \<open>Example\<close>

definition ex_request :: request where
  "ex_request = \<lparr> rq_tenant_id = ''T'', rq_zone_id = ''Z'', rq_interval_start = Aware 0 0,
     rq_interval_end = Aware (minutes 15) 0, rq_direction = UPWARD, rq_power_kw = Fin 2,
     rq_consequence_type = DEFER, rq_callback_url = Some ''u'' \<rparr>"

definition ex_fp :: "request \<Rightarrow> string" where
  "ex_fp q = rq_zone_id q"

definition ex_run :: "mem_backend \<times> (service_error + reservation)" where
  "ex_run = create mem_uow (store_env ex_fp ex_store2) 7 8 ''k'' ex_request (- 1) mem_new"

lemma ex_run_ok: "ex_run = (fst ex_run, Inr (projr (snd ex_run)))"
  by (rule pair_Inr) code_simp

lemma ex_run': "create mem_uow (store_env ex_fp ex_store2) 7 8 ''k'' ex_request (- 1) mem_new
    = (fst ex_run, Inr (projr (snd ex_run)))"
  using ex_run_ok unfolding ex_run_def .

lemma ex_power_f64: "is_f64 (fin_val (rq_power_kw ex_request))"
  using is_f64_of_int [of 2] by (simp add: ex_request_def fin_val_def)

section \<open>Creating\<close>

text \<open>
  C2 create_sound. A reservation newly created from the offers of the store is confirmed, counts at
  least the privacy threshold of participants, and its stored allocations each take a positive
  power from one distinct eligible offer, at most what the offer has left in this product after
  every active reservation, under the offer's own baseline and constraint version; together they
  meet the requested power up to one nanowatt-scale tolerance and the rounding of the subtractions.
\<close>

theorem create_sound:
  assumes st: "store_inv st" and inv: "mem_inv s" and power: "is_f64 (fin_val (rq_power_kw q))"
    and fresh: "mem_get_reservation rid s = None"
    and run: "create mem_uow (store_env fp st) rid cid key q now s = (s', Inr r)"
    and new: "mem_get_reservation (r_reservation_id r) s = None"
  shows "\<exists>as. mem_get_allocations rid s' = Inr as \<and> mem_get_reservation rid s' = Some r \<and>
    r_reservation_id r = rid \<and> r_status r = CONFIRMED \<and> minimum_participants st \<le> r_participant_count r \<and>
    distinct (List.map al_resource_id as) \<and>
    (\<forall>a \<in> set as. taken_from mem_uow (rq_direction q) (mem_expire now s) (request_offers st q now) a) \<and>
    \<bar>fin_val (rq_power_kw q) - sum_list (List.map al_power_kw as)\<bar>
      \<le> nano + of_nat (length (request_offers st q now)) * sub_error (fin_val (rq_power_kw q))"
proof -
  have env: "env_ok (store_env fp st)" by (rule store_env_ok [OF st])
  have fresh': "l_reservation (mem_abs s) rid = None" using fresh by (simp add: mem_get_reservation_def)
  show ?thesis
  proof (cases rule: mem_ledger.create_cases [OF inv env power fresh' run])
    case (2 i r')
    then have "mem_get_reservation i s \<noteq> None"
      using mem_ledger.idem_saved [OF inv] by (simp add: mem_get_reservation_def)
    moreover have "r_reservation_id r = i"
      using mem_invD(2) [of s' i r] mem_ledger.expire_inv [OF inv, of now] 2 by simp
    ultimately show ?thesis using new by simp
  next
    case (3 as r')
    have inv1: "mem_inv (mem_expire now s)" using mem_ledger.expire_inv [OF inv] by simp
    have c: "mem_ledger.created (store_env fp st) rid cid (tenant_key (rq_tenant_id q) key) q now (mem_expire now s) as s' r"
      using 3 by simp
    note al = mem_ledger.created_allocations [OF inv1 env power 3(2) c]
    have inv': "mem_inv s'" using c unfolding mem_ledger.created_def by blast
    have r: "r = new_reservation rid cid q now (request_offers st q now) as"
      "minimum_participants st \<le> r_participant_count r"
      using c unfolding mem_ledger.created_def store_env_def service_env.simps by blast+
    have "mem_get_reservation rid s' = Some r" using al(5) by (simp add: mem_get_reservation_def)
    moreover have "mem_get_allocations rid s' = Inr as"
      using mem_allocations_law(1) [OF inv'] al(4,5) by simp
    ultimately show ?thesis using al(1-3) r
      by (auto simp: allocs_ok_def new_reservation_def store_env_def)
  qed simp
qed

theorem create_sound_witness:
  "\<exists>as. mem_get_allocations 7 (fst ex_run) = Inr as \<and> minimum_participants ex_store2 \<le> r_participant_count (projr (snd ex_run))"
proof -
  have n: "mem_get_reservation (r_reservation_id (projr (snd ex_run))) mem_new = None"
    "mem_get_reservation 7 mem_new = None"
    by (simp_all add: mem_get_reservation_def mem_new_def)
  show ?thesis
    using create_sound [OF ex_store2_inv mem_inv_new ex_power_f64 n(2) ex_run' n(1)] by blast
qed

text \<open>
  C1 create_no_overbooking. Creating a reservation never books an eligible offer beyond its
  capacity: what is reserved of the offer afterwards, as the code itself sums it, is at most the
  larger of what was reserved before and the capacity with a relative rounding error of
  \<open>2 ^ -51\<close>, whatever the request and however often it is repeated.
\<close>

theorem create_no_overbooking:
  assumes st: "store_inv st" and inv: "mem_inv s" and power: "is_f64 (fin_val (rq_power_kw q))"
    and fresh: "mem_get_reservation rid s = None"
    and run: "create mem_uow (store_env fp st) rid cid key q now s = (s', Inr r)"
    and f: "f \<in> set (request_offers st q now)"
    and x: "mem_reserved_for_offer f (rq_direction q) (mem_expire now s) = Inr x"
  shows "\<exists>y. mem_reserved_for_offer f (rq_direction q) s' = Inr y \<and>
    y \<le> max x (offer_capacity (rq_direction q) f + offer_capacity (rq_direction q) f / 2 ^ 51 + 1 / 2 ^ 1070)"
proof -
  have env: "env_ok (store_env fp st)" by (rule store_env_ok [OF st])
  have fresh': "l_reservation (mem_abs s) rid = None" using fresh by (simp add: mem_get_reservation_def)
  show ?thesis
  proof (cases rule: mem_ledger.create_cases [OF inv env power fresh' run])
    case (2 i r')
    then show ?thesis using x by simp
  next
    case (3 as r')
    have inv1: "mem_inv (mem_expire now s)" using mem_ledger.expire_inv [OF inv] by simp
    have c: "mem_ledger.created (store_env fp st) rid cid (tenant_key (rq_tenant_id q) key) q now (mem_expire now s) as s' r'"
      using 3 by simp
    have f1: "l_reservation (mem_abs (mem_expire now s)) rid = None" using fresh' by (simp add: mem_expire_get)
    have f': "f \<in> set (e_offers (store_env fp st) q now)" using f by (simp add: store_env_def)
    show ?thesis using mem_ledger.created_reserved [OF inv1 env power 3(2) f1 c f'] x by simp
  qed simp
qed

theorem create_no_overbooking_witness:
  "\<exists>y. mem_reserved_for_offer (ex_offer ''a'' 1) UPWARD (fst ex_run) = Inr y \<and>
     y \<le> max 0 (3/2 + (3/2) / 2 ^ 51 + 1 / 2 ^ 1070)"
proof -
  have n: "mem_get_reservation 7 mem_new = None" by (simp add: mem_get_reservation_def mem_new_def)
  have f: "ex_offer ''a'' 1 \<in> set (request_offers ex_store2 ex_request (- 1))" by code_simp
  have x: "mem_reserved_for_offer (ex_offer ''a'' 1) (rq_direction ex_request) (mem_expire (- 1) mem_new) = Inr 0"
    by code_simp
  have v: "rq_direction ex_request = UPWARD" "offer_capacity UPWARD (ex_offer ''a'' 1) = 3/2"
    by (simp_all add: ex_request_def offer_capacity_def ex_offer_def)
  show ?thesis
    using create_no_overbooking [OF ex_store2_inv mem_inv_new ex_power_f64 n ex_run' f x] unfolding v .
qed

section \<open>Histories\<close>

text \<open>
  C3 create_idempotent. Once a request was accepted, repeating it under its idempotency key, after
  any calls of the service and whatever offers there are by then, returns that reservation, with
  only its status and allocated power moved along its life cycle, and allocates nothing again.
\<close>

theorem create_idempotent:
  assumes "mem_inv (w_backend w)" and "env_ok env" and "is_f64 (fin_val (rq_power_kw q))"
    and "mem_get_reservation rid (w_backend w) = None"
    and "create mem_uow env rid cid key q now (w_backend w) = (s1, Inr r)"
    and "(service_step mem_uow)\<^sup>*\<^sup>* (w\<lparr>w_backend := s1\<rparr>) w2"
    and "env_ok env'" and "e_fingerprint env' q = e_fingerprint env q"
    and "mem_get_reservation rid' (w_backend w2) = None"
    and "create mem_uow env' rid' cid' key q now' (w_backend w2) = (s3, out)"
  shows "\<exists>r'. out = Inr r' \<and> same_booking r r' \<and> may_become (r_status r) (r_status r') \<and>
    s3 = mem_expire now' (w_backend w2)"
  using mem_ledger.create_retry [OF assms(1-3) _ assms(5-8) _ assms(10)] assms(4,9)
  by (simp add: mem_get_reservation_def)

definition ex_world :: "mem_backend \<Rightarrow> mem_backend world" where
  "ex_world s = \<lparr> w_backend = s, w_webhooks = \<lparr>wh_calls = 0, wh_deliveries = []\<rparr>, w_dispatched = [] \<rparr>"

definition ex_store3 :: offer_store where
  "ex_store3 = run_store ex_store [Op_upsert (ex_offer ''a'' 9), Op_upsert (ex_offer ''c'' 1)]"

theorem create_idempotent_witness:
  "\<exists>r'. snd (create mem_uow (store_env ex_fp ex_store3) 9 10 ''k'' ex_request (minutes 1) (fst ex_run)) = Inr r'
     \<and> same_booking (projr (snd ex_run)) r'"
proof -
  have n: "mem_get_reservation 7 (w_backend (ex_world mem_new)) = None"
    by (simp add: mem_get_reservation_def mem_new_def ex_world_def)
  have i: "mem_inv (w_backend (ex_world mem_new))" by (simp add: ex_world_def)
  have st3: "store_inv ex_store3" by code_simp
  have run: "create mem_uow (store_env ex_fp ex_store2) 7 8 ''k'' ex_request (- 1) (w_backend (ex_world mem_new))
    = (fst ex_run, Inr (projr (snd ex_run)))" using ex_run' by (simp add: ex_world_def)
  have n2: "mem_get_reservation 9 (w_backend ((ex_world mem_new)\<lparr>w_backend := fst ex_run\<rparr>)) = None" by code_simp
  have fp: "e_fingerprint (store_env ex_fp ex_store3) ex_request = e_fingerprint (store_env ex_fp ex_store2) ex_request"
    by (simp add: store_env_def)
  have again: "create mem_uow (store_env ex_fp ex_store3) 9 10 ''k'' ex_request (minutes 1)
      (w_backend ((ex_world mem_new)\<lparr>w_backend := fst ex_run\<rparr>))
    = (fst (create mem_uow (store_env ex_fp ex_store3) 9 10 ''k'' ex_request (minutes 1) (fst ex_run)),
       snd (create mem_uow (store_env ex_fp ex_store3) 9 10 ''k'' ex_request (minutes 1) (fst ex_run)))"
    by simp
  show ?thesis
    using create_idempotent [OF i store_env_ok [OF ex_store2_inv] ex_power_f64 n run rtranclp.rtrancl_refl
        store_env_ok [OF st3] fp n2 again] by blast
qed

text \<open>
  C4 reservation_lifecycle. Through any calls of the service a reservation is never lost and never
  changes anything but its status and allocated power, and its status only moves from confirmed,
  or from activated to completed or failed: cancelled, expired, completed and failed are final.
\<close>

theorem reservation_lifecycle:
  assumes "(service_step mem_uow)\<^sup>*\<^sup>* w w'" and "mem_inv (w_backend w)"
    and "mem_get_reservation i (w_backend w) = Some r"
  shows "\<exists>r'. mem_get_reservation i (w_backend w') = Some r' \<and> same_booking r r' \<and>
    may_become (r_status r) (r_status r')"
  using mem_ledger.service_run_evolves [OF assms(1,2)] assms(3)
  by (auto simp: evolves_def mem_get_reservation_def)

definition ex_cancelled :: "mem_backend \<times> (service_error + reservation)" where
  "ex_cancelled = cancel mem_uow 7 (- 1) (fst ex_run)"

theorem reservation_lifecycle_witness:
  "\<exists>r'. mem_get_reservation 7 (fst (cancel mem_uow 7 (minutes 2) (fst ex_cancelled))) = Some r' \<and> r_status r' = CANCELLED"
proof -
  let ?w = "ex_world (fst ex_cancelled)"
  have "service_step mem_uow ?w (fst (on_backend (cancel mem_uow 7 (minutes 2)) ?w))"
    by (rule step_cancel)
  then have run: "(service_step mem_uow)\<^sup>*\<^sup>* ?w (fst (on_backend (cancel mem_uow 7 (minutes 2)) ?w))" ..
  have get: "mem_get_reservation 7 (fst ex_cancelled) = Some ((projr (snd ex_run))\<lparr>r_status := CANCELLED\<rparr>)"
    by code_simp
  have i0: "mem_inv (w_backend (ex_world mem_new))" by (simp add: ex_world_def)
  have n: "l_reservation (mem_abs mem_new) 7 = None" by (simp add: mem_new_def)
  have inv1: "mem_inv (fst ex_run)"
    using mem_ledger.create_evolves [OF mem_inv_new store_env_ok [OF ex_store2_inv] ex_power_f64 n ex_run'] by simp
  have "cancel mem_uow 7 (- 1) (fst ex_run) = (fst ex_cancelled, snd ex_cancelled)"
    by (simp add: ex_cancelled_def)
  from mem_ledger.cancel_evolves [OF inv1 this] have inv: "mem_inv (w_backend ?w)"
    by (simp add: ex_world_def)
  have get': "mem_get_reservation 7 (w_backend ?w) = Some ((projr (snd ex_run))\<lparr>r_status := CANCELLED\<rparr>)"
    using get by (simp add: ex_world_def)
  from reservation_lifecycle [OF run inv get']
  show ?thesis unfolding on_backend_fst by (auto simp: may_become_def ex_world_def)
qed

end
