(* ===== verification/PgReservations.thy ===== *)
theory PgReservations
  imports Backend
begin

text \<open>
  The PostgreSQL reservation backend, \<open>reservations/postgres.py\<close>: its tables with their
  constraints, and the unit of work, statement by statement. A table with a primary key is a
  dictionary from the key to the row, in insertion order, which is the order a scan without
  \<open>ORDER BY\<close> is taken to have. A statement that violates a constraint is a \<open>backend_error\<close>. A
  transaction is one atomic step. The JSON of a payload column is the value it encodes.
\<close>

section \<open>Tables and their constraints\<close>

record reservation_row =
  rr_value :: reservation
  rr_idempotency_key :: string
  rr_request_fingerprint :: string
  rr_callback_url :: "string option"

definition reservation_check :: "reservation \<Rightarrow> bool" where
  "reservation_check r \<longleftrightarrow> r_tenant_id r \<noteq> [] \<and> r_interval_end r > r_interval_start r \<and>
     (r_requested_power_kw r > 0 \<and> r_requested_power_kw r \<le> 1000000 \<and>
      r_allocated_power_kw r \<ge> 0 \<and> r_allocated_power_kw r \<le> r_requested_power_kw r) \<and>
     r_participant_count r > 0"

definition allocation_check :: "allocation \<Rightarrow> bool" where
  "allocation_check a \<longleftrightarrow> al_source_version a \<noteq> [] \<and>
     (al_power_kw a > 0 \<and> al_power_kw a \<le> 1000000) \<and>
     (al_baseline_power_kw a \<ge> - 100000000 \<and> al_baseline_power_kw a \<le> 100000000)"

definition activation_check :: "activation \<Rightarrow> bool" where
  "activation_check a \<longleftrightarrow>
     (ac_instruction_count a \<ge> 0 \<and> ac_accepted_instruction_count a \<ge> 0 \<and>
      ac_rejected_instruction_count a \<ge> 0 \<and>
      ac_accepted_instruction_count a + ac_rejected_instruction_count a \<le> ac_instruction_count a) \<and>
     (case ac_completed_at a of
        None \<Rightarrow> ac_status a = ACT_PENDING
      | Some t \<Rightarrow> ac_status a \<in> {ACT_COMPLETED, ACT_FAILED} \<and> t \<ge> ac_created_at a \<and>
          ac_accepted_instruction_count a + ac_rejected_instruction_count a = ac_instruction_count a)"

datatype outbox_status = OB_PENDING | OB_PROCESSING | OB_RETRY | OB_DELIVERED | OB_DEAD

record outbox_row =
  ob_task :: outbox_task
  ob_status :: outbox_status
  ob_available_at :: instant
  ob_locked_until :: "instant option"
  ob_created_at :: instant
  ob_delivered_at :: "instant option"
  ob_last_error :: "string option"

definition outbox_check :: "outbox_row \<Rightarrow> bool" where
  "outbox_check b \<longleftrightarrow> ot_destination (ob_task b) \<noteq> [] \<and> ot_event_type (ob_task b) \<noteq> [] \<and>
     ot_attempts (ob_task b) \<ge> 0 \<and>
     (ot_kind (ob_task b) = RESOURCE \<and> ot_allocation_index (ob_task b) \<noteq> None \<or>
      ot_kind (ob_task b) = WEBHOOK \<and> ot_allocation_index (ob_task b) = None)"

record residual_row =
  rs_residual :: residual
  rs_suppressed :: bool

definition residual_check :: "cell \<Rightarrow> residual \<Rightarrow> bool" where
  "residual_check c x \<longleftrightarrow> fst c \<noteq> [] \<and>
     (case x of (u, d, ue, de) \<Rightarrow> u \<ge> 0 \<and> d \<ge> 0 \<and> ue \<ge> 0 \<and> de \<ge> 0)"

text \<open>
  The database: \<open>pg_now\<close> is what \<open>now()\<close> returns in the transaction, the default of
  \<open>created_at\<close>.
\<close>

record pg =
  pg_reservations :: "(uuid, reservation_row) dict"
  pg_allocations :: "(uuid \<times> nat, allocation) dict"
  pg_activations :: "(uuid, activation) dict"
  pg_instructions :: "(uuid \<times> nat, instruction) dict"
  pg_outbox :: "(uuid, outbox_row) dict"
  pg_residuals :: "(cell, residual_row) dict"
  pg_now :: instant

definition pg_new :: pg where
  "pg_new = \<lparr> pg_reservations = [], pg_allocations = [], pg_activations = [], pg_instructions = [],
     pg_outbox = [], pg_residuals = [], pg_now = 0 \<rparr>"

section \<open>The unit of work\<close>

definition pg_expire :: "instant \<Rightarrow> pg \<Rightarrow> pg" where
  "pg_expire now s = s\<lparr>pg_reservations :=
     List.map (\<lambda>(i, row). (i, row\<lparr>rr_value := expire_at now (rr_value row)\<rparr>)) (pg_reservations s)\<rparr>"

definition pg_get_idempotency :: "string \<Rightarrow> pg \<Rightarrow> (string \<times> uuid) option" where
  "pg_get_idempotency k s = map_option (\<lambda>(i, row). (rr_request_fingerprint row, i))
     (find (\<lambda>(i, row). rr_idempotency_key row = k) (pg_reservations s))"

definition pg_get_reservation :: "uuid \<Rightarrow> pg \<Rightarrow> reservation option" where
  "pg_get_reservation i s = map_option rr_value (dict_get i (pg_reservations s))"

definition select_indexed :: "uuid \<Rightarrow> (uuid \<times> nat, 'a) dict \<Rightarrow> 'a list" where
  "select_indexed i rows = List.map snd (sort_key (\<lambda>row. snd (fst row)) (filter (\<lambda>row. fst (fst row) = i) rows))"

definition pg_get_allocations :: "uuid \<Rightarrow> pg \<Rightarrow> backend_error + allocation list" where
  "pg_get_allocations i s = Inr (select_indexed i (pg_allocations s))"

definition joined_matches :: "offer \<Rightarrow> direction \<Rightarrow> pg \<Rightarrow> (uuid \<times> nat) \<times> allocation \<Rightarrow> bool" where
  "joined_matches f d s row = (case dict_get (fst (fst row)) (pg_reservations s) of
     None \<Rightarrow> False
   | Some rr \<Rightarrow> al_resource_id (snd row) = o_resource_id f \<and> r_tenant_id (rr_value rr) = o_tenant_id f \<and>
       product_matches f d (rr_value rr) \<and> active_status (r_status (rr_value rr)))"

definition sql_sum :: "rat list \<Rightarrow> rat" where
  "sql_sum xs = foldl fadd 0 xs"

definition pg_reserved_for_offer :: "offer \<Rightarrow> direction \<Rightarrow> pg \<Rightarrow> backend_error + rat" where
  "pg_reserved_for_offer f d s = Inr (sql_sum (List.map (al_power_kw \<circ> snd)
     (filter (joined_matches f d s) (pg_allocations s))))"

fun insert_allocations :: "uuid \<Rightarrow> nat \<Rightarrow> allocation list \<Rightarrow> (uuid \<times> nat, allocation) dict
    \<Rightarrow> backend_error + (uuid \<times> nat, allocation) dict" where
  "insert_allocations i n [] rows = Inr rows"
| "insert_allocations i n (a # as) rows =
     (if \<not> allocation_check a then Inl (CheckViolation ''allocation'')
      else if dict_get (i, n) rows \<noteq> None then Inl UniqueViolation
      else insert_allocations i (Suc n) as (rows @ [((i, n), a)]))"

definition replace_allocations :: "uuid \<Rightarrow> allocation list \<Rightarrow> pg \<Rightarrow> backend_error + pg" where
  "replace_allocations i as s =
     (let kept = filter (\<lambda>row. fst (fst row) \<noteq> i) (pg_allocations s)
      in bind_res (insert_allocations i 0 as kept) (\<lambda>rows.
        if as \<noteq> [] \<and> dict_get i (pg_reservations s) = None then Inl ForeignKeyViolation
        else Inr (s\<lparr>pg_allocations := rows\<rparr>)))"

definition pg_save_reservation ::
    "reservation \<Rightarrow> allocation list \<Rightarrow> string \<Rightarrow> string \<Rightarrow> string option \<Rightarrow> pg \<Rightarrow> backend_error + pg" where
  "pg_save_reservation r as idempotency_key fingerprint callback s =
     (let i = r_reservation_id r;
          row = \<lparr> rr_value = r, rr_idempotency_key = idempotency_key,
                  rr_request_fingerprint = fingerprint, rr_callback_url = callback \<rparr>
      in if \<not> reservation_check r then Inl (CheckViolation ''reservation'')
         else if dict_get i (pg_reservations s) \<noteq> None \<or>
           idempotency_key \<in> rr_idempotency_key ` set (dict_values (pg_reservations s)) then Inl UniqueViolation
         else replace_allocations i as (s\<lparr>pg_reservations := pg_reservations s @ [(i, row)]\<rparr>))"

text \<open>Only the status and the allocated power are written; the checks are those of the new row.\<close>

definition pg_update_reservation :: "reservation \<Rightarrow> pg \<Rightarrow> backend_error + pg" where
  "pg_update_reservation r s =
     (case dict_get (r_reservation_id r) (pg_reservations s) of
        None \<Rightarrow> Inr s
      | Some row \<Rightarrow>
          let new = (rr_value row)\<lparr>r_status := r_status r, r_allocated_power_kw := r_allocated_power_kw r\<rparr>
          in if \<not> reservation_check new then Inl (CheckViolation ''reservation'')
             else Inr (s\<lparr>pg_reservations :=
               dict_set (r_reservation_id r) (row\<lparr>rr_value := new\<rparr>) (pg_reservations s)\<rparr>))"

definition pg_callback_url :: "uuid \<Rightarrow> pg \<Rightarrow> string option" where
  "pg_callback_url i s = (case dict_get i (pg_reservations s) of
     None \<Rightarrow> None | Some row \<Rightarrow> if truthy (rr_callback_url row) then rr_callback_url row else None)"

definition pg_activation_for_reservation :: "uuid \<Rightarrow> pg \<Rightarrow> activation option" where
  "pg_activation_for_reservation i s =
     find (\<lambda>a. ac_reservation_id a = i) (dict_values (pg_activations s))"

definition pg_get_activation :: "uuid \<Rightarrow> pg \<Rightarrow> activation option" where
  "pg_get_activation aid s = dict_get aid (pg_activations s)"

definition insert_activation :: "activation \<Rightarrow> pg \<Rightarrow> backend_error + pg" where
  "insert_activation a s =
     (if \<not> activation_check a then Inl (CheckViolation ''activation'')
      else if dict_get (ac_activation_id a) (pg_activations s) \<noteq> None \<or>
        pg_activation_for_reservation (ac_reservation_id a) s \<noteq> None then Inl UniqueViolation
      else if dict_get (ac_reservation_id a) (pg_reservations s) = None then Inl ForeignKeyViolation
      else Inr (s\<lparr>pg_activations := pg_activations s @ [(ac_activation_id a, a)]\<rparr>))"

fun insert_instructions :: "uuid \<Rightarrow> nat \<Rightarrow> instruction list \<Rightarrow> (uuid \<times> nat, instruction) dict
    \<Rightarrow> backend_error + (uuid \<times> nat, instruction) dict" where
  "insert_instructions aid n [] rows = Inr rows"
| "insert_instructions aid n (i # ins) rows =
     (if dict_get (aid, n) rows \<noteq> None then Inl UniqueViolation
      else insert_instructions aid (Suc n) ins (rows @ [((aid, n), i)]))"

definition pg_save_activation ::
    "activation \<Rightarrow> reservation \<Rightarrow> allocation list \<Rightarrow> instruction list \<Rightarrow> pg \<Rightarrow> backend_error + pg" where
  "pg_save_activation a r as instrs s =
     bind_res (replace_allocations (r_reservation_id r) as s) (\<lambda>s1.
     bind_res (pg_update_reservation r s1) (\<lambda>s2.
     bind_res (insert_activation a s2) (\<lambda>s3.
     bind_res (insert_instructions (ac_activation_id a) 0 instrs (pg_instructions s3)) (\<lambda>rows.
       Inr (s3\<lparr>pg_instructions := rows\<rparr>)))))"

text \<open>\<open>INSERT ... ON CONFLICT (event_id) DO NOTHING\<close>: the checks come before the conflict.\<close>

definition pg_enqueue_outbox :: "outbox_task \<Rightarrow> instant \<Rightarrow> pg \<Rightarrow> backend_error + pg" where
  "pg_enqueue_outbox task available_at s =
     (let row = \<lparr> ob_task = task\<lparr>ot_attempts := 0\<rparr>, ob_status = OB_PENDING, ob_available_at = available_at,
            ob_locked_until = None, ob_created_at = pg_now s, ob_delivered_at = None, ob_last_error = None \<rparr>
      in if \<not> outbox_check row then Inl (CheckViolation ''outbox'')
         else if dict_get (ot_event_id task) (pg_outbox s) \<noteq> None then Inr s
         else if dict_get (ot_activation_id task) (pg_activations s) = None \<or>
           dict_get (ot_reservation_id task) (pg_reservations s) = None then Inl ForeignKeyViolation
         else Inr (s\<lparr>pg_outbox := pg_outbox s @ [(ot_event_id task, row)]\<rparr>))"

definition pg_instructions_for :: "uuid \<Rightarrow> pg \<Rightarrow> backend_error + instruction list" where
  "pg_instructions_for aid s = Inr (select_indexed aid (pg_instructions s))"

definition pg_active_reservations :: "pg \<Rightarrow> reservation list" where
  "pg_active_reservations s = filter (\<lambda>r. active_status (r_status r))
     (List.map rr_value (dict_values (pg_reservations s)))"

definition pg_published_residual :: "cell \<Rightarrow> pg \<Rightarrow> residual option" where
  "pg_published_residual c s = map_option rs_residual (dict_get c (pg_residuals s))"

definition pg_set_published_residual :: "cell \<Rightarrow> residual \<Rightarrow> pg \<Rightarrow> backend_error + pg" where
  "pg_set_published_residual c x s =
     (if \<not> residual_check c x then Inl (CheckViolation ''residual'')
      else Inr (s\<lparr>pg_residuals := dict_set c
        (case dict_get c (pg_residuals s) of
           None \<Rightarrow> \<lparr>rs_residual = x, rs_suppressed = False\<rparr>
         | Some row \<Rightarrow> row\<lparr>rs_residual := x\<rparr>) (pg_residuals s)\<rparr>))"

definition pg_suppress_public_cell :: "cell \<Rightarrow> pg \<Rightarrow> pg" where
  "pg_suppress_public_cell c s =
     (case dict_get c (pg_residuals s) of
        None \<Rightarrow> s
      | Some row \<Rightarrow> s\<lparr>pg_residuals := dict_set c (row\<lparr>rs_suppressed := True\<rparr>) (pg_residuals s)\<rparr>)"

definition pg_public_cell_is_suppressed :: "cell \<Rightarrow> pg \<Rightarrow> bool" where
  "pg_public_cell_is_suppressed c s \<longleftrightarrow>
     (case dict_get c (pg_residuals s) of None \<Rightarrow> False | Some row \<Rightarrow> rs_suppressed row)"

definition pg_uow :: "pg uow" where
  "pg_uow = \<lparr> u_durable_outbox = True, u_rolls_back = True,
     u_expire = pg_expire, u_get_idempotency = pg_get_idempotency,
     u_get_reservation = pg_get_reservation, u_get_allocations = pg_get_allocations,
     u_reserved_for_offer = pg_reserved_for_offer, u_save_reservation = pg_save_reservation,
     u_update_reservation = pg_update_reservation, u_callback_url = pg_callback_url,
     u_activation_for_reservation = pg_activation_for_reservation,
     u_get_activation = pg_get_activation, u_save_activation = pg_save_activation,
     u_enqueue_outbox = pg_enqueue_outbox, u_instructions_for = pg_instructions_for,
     u_active_reservations = pg_active_reservations,
     u_published_residual = pg_published_residual,
     u_set_published_residual = pg_set_published_residual,
     u_suppress_public_cell = pg_suppress_public_cell,
     u_public_cell_is_suppressed = pg_public_cell_is_suppressed \<rparr>"

lemma pg_uow_simps [simp]:
  "u_durable_outbox pg_uow" "u_rolls_back pg_uow"
  "u_expire pg_uow = pg_expire" "u_get_idempotency pg_uow = pg_get_idempotency"
  "u_get_reservation pg_uow = pg_get_reservation" "u_get_allocations pg_uow = pg_get_allocations"
  "u_reserved_for_offer pg_uow = pg_reserved_for_offer"
  "u_save_reservation pg_uow = pg_save_reservation"
  "u_update_reservation pg_uow = pg_update_reservation" "u_callback_url pg_uow = pg_callback_url"
  "u_activation_for_reservation pg_uow = pg_activation_for_reservation"
  "u_get_activation pg_uow = pg_get_activation" "u_save_activation pg_uow = pg_save_activation"
  "u_enqueue_outbox pg_uow = pg_enqueue_outbox" "u_instructions_for pg_uow = pg_instructions_for"
  "u_active_reservations pg_uow = pg_active_reservations"
  "u_published_residual pg_uow = pg_published_residual"
  "u_set_published_residual pg_uow = pg_set_published_residual"
  "u_suppress_public_cell pg_uow = pg_suppress_public_cell"
  "u_public_cell_is_suppressed pg_uow = pg_public_cell_is_suppressed"
  by (simp_all add: pg_uow_def)

section \<open>Indexed rows\<close>

definition indexed :: "uuid \<Rightarrow> nat \<Rightarrow> 'a list \<Rightarrow> (uuid \<times> nat, 'a) dict" where
  "indexed i n xs = List.map (\<lambda>(k, x). ((i, k), x)) (enumerate n xs)"

lemma indexed_Nil [simp]: "indexed i n [] = []"
  by (simp add: indexed_def)

lemma indexed_Cons [simp]: "indexed i n (x # xs) = ((i, n), x) # indexed i (Suc n) xs"
  by (simp add: indexed_def enumerate_simps)

lemma indexed_keys: "row \<in> set (indexed i n xs) \<Longrightarrow> fst (fst row) = i \<and> snd row \<in> set xs"
  by (auto simp: indexed_def in_set_enumerate_eq nth_mem)

lemma indexed_sorted: "sorted (List.map (\<lambda>row. snd (fst row)) (indexed i n xs))"
proof -
  have "List.map (\<lambda>row. snd (fst row)) (indexed i n xs) = [n..<n + length xs]"
    by (induction xs arbitrary: n) (simp_all del: upt_Suc add: upt_conv_Cons)
  then show ?thesis by simp
qed

lemma indexed_values [simp]: "List.map snd (indexed i n xs) = xs"
  by (induction xs arbitrary: n) simp_all

lemma insert_allocations_Inr:
  "insert_allocations i n as rows = Inr rows' \<Longrightarrow> rows' = rows @ indexed i n as \<and> (\<forall>a \<in> set as. allocation_check a)"
  by (induction as arbitrary: n rows) (simp, fastforce split: if_splits)

lemma insert_instructions_Inr:
  "insert_instructions aid n xs rows = Inr rows' \<Longrightarrow> rows' = rows @ indexed aid n xs"
  by (induction xs arbitrary: n rows) (simp, fastforce split: if_splits)

lemma select_append_indexed:
  assumes "\<forall>row \<in> set rows. fst (fst row) \<noteq> i"
  shows "select_indexed j (rows @ indexed i n xs) = (if j = i then xs else select_indexed j rows)"
proof (cases "j = i")
  case True
  have "filter (\<lambda>row. fst (fst row) = i) rows = []" using assms by (simp add: filter_empty_conv)
  moreover have "filter (\<lambda>row. fst (fst row) = i) (indexed i n xs) = indexed i n xs"
    using indexed_keys [of _ i n xs] by (simp add: filter_id_conv)
  ultimately show ?thesis using True indexed_sorted [of i n xs]
    by (simp add: select_indexed_def sort_key_id_if_sorted)
next
  case False
  then have "filter (\<lambda>row. fst (fst row) = j) (indexed i n xs) = []"
    using indexed_keys [of _ i n xs] by (auto simp: filter_empty_conv)
  then show ?thesis using False by (simp add: select_indexed_def)
qed

lemma select_other: "j \<noteq> i \<Longrightarrow> select_indexed j (filter (\<lambda>row. fst (fst row) \<noteq> i) rows) = select_indexed j rows"
  by (simp add: select_indexed_def filter_filter cong: filter_cong) (metis (mono_tags, lifting))

lemma select_set: "set (select_indexed i rows) = snd ` {row \<in> set rows. fst (fst row) = i}"
  by (auto simp: select_indexed_def)

lemma select_none: "\<forall>row \<in> set rows. fst (fst row) \<noteq> i \<Longrightarrow> select_indexed i rows = []"
  by (simp add: select_indexed_def filter_empty_conv)

lemma find_map_option: "find P (List.map f xs) = map_option f (find (P \<circ> f) xs)"
  by (induction xs) simp_all

lemma find_append: "find P (xs @ ys) = (case find P xs of None \<Rightarrow> find P ys | Some x \<Rightarrow> Some x)"
  by (induction xs) simp_all

lemma dict_set_map:
  "dict_ok d \<Longrightarrow> dict_get k d \<noteq> None \<Longrightarrow> dict_set k v d = List.map (\<lambda>(k', v'). (k', if k' = k then v else v')) d"
proof (induction d)
  case (Cons p d)
  obtain k0 v0 where p: "p = (k0, v0)" by (cases p)
  show ?case
  proof (cases "k0 = k")
    case True
    have "\<forall>q \<in> set d. fst q \<noteq> k" using Cons.prems(1) p True by (force simp: dict_ok_def)
    then have "List.map (\<lambda>(k', v'). (k', if k' = k then v else v')) d = d"
      by (intro map_idI) auto
    then show ?thesis using p True by (simp add: dict_set_def)
  next
    case False
    then show ?thesis using Cons p by (simp add: dict_set_def dict_get_def dict_ok_def)
  qed
qed simp

section \<open>The tables as a ledger\<close>

definition pg_abs :: "pg \<Rightarrow> ledger" where
  "pg_abs s = \<lparr> l_reservation = (\<lambda>i. pg_get_reservation i s),
     l_allocations = (\<lambda>i. select_indexed i (pg_allocations s)),
     l_idempotency = (\<lambda>k. pg_get_idempotency k s),
     l_callback = (\<lambda>i. pg_callback_url i s),
     l_activation_of = (\<lambda>i. pg_activation_for_reservation i s),
     l_activation = (\<lambda>a. pg_get_activation a s),
     l_instructions = (\<lambda>a. select_indexed a (pg_instructions s)) \<rparr>"

definition reservation_rows_ok :: "(uuid, reservation_row) dict \<Rightarrow> bool" where
  "reservation_rows_ok d \<longleftrightarrow> dict_ok d \<and> distinct (List.map (rr_idempotency_key \<circ> snd) d) \<and>
     (\<forall>(i, row) \<in> set d. r_reservation_id (rr_value row) = i)"

definition pg_inv :: "pg \<Rightarrow> bool" where
  "pg_inv s \<longleftrightarrow> reservation_rows_ok (pg_reservations s) \<and>
     (\<forall>row \<in> set (pg_allocations s). dict_get (fst (fst row)) (pg_reservations s) \<noteq> None) \<and>
     (\<forall>i. allocs_ok (select_indexed i (pg_allocations s))) \<and>
     (\<forall>row \<in> set (pg_instructions s). dict_get (fst (fst row)) (pg_activations s) \<noteq> None)"

lemma pg_inv_new [simp]: "pg_inv pg_new"
  by (simp add: pg_inv_def pg_new_def reservation_rows_ok_def select_indexed_def allocs_ok_def)

lemma pg_abs_simps [simp]:
  "l_reservation (pg_abs s) = (\<lambda>i. pg_get_reservation i s)"
  "l_allocations (pg_abs s) = (\<lambda>i. select_indexed i (pg_allocations s))"
  "l_idempotency (pg_abs s) = (\<lambda>k. pg_get_idempotency k s)"
  "l_callback (pg_abs s) = (\<lambda>i. pg_callback_url i s)"
  "l_activation_of (pg_abs s) = (\<lambda>i. pg_activation_for_reservation i s)"
  "l_activation (pg_abs s) = (\<lambda>a. pg_get_activation a s)"
  by (simp_all add: pg_abs_def)

text \<open>The reservations table, its values rewritten row by row, as \<open>UPDATE\<close> does.\<close>

definition map_rows :: "(uuid \<Rightarrow> reservation \<Rightarrow> reservation) \<Rightarrow> (uuid, reservation_row) dict \<Rightarrow> (uuid, reservation_row) dict" where
  "map_rows g d = List.map (\<lambda>(i, row). (i, row\<lparr>rr_value := g i (rr_value row)\<rparr>)) d"

lemma map_rows_get: "dict_get i (map_rows g d) = map_option (\<lambda>row. row\<lparr>rr_value := g i (rr_value row)\<rparr>) (dict_get i d)"
  by (induction d) (auto simp: map_rows_def dict_get_def)

lemma map_rows_ok:
  assumes "reservation_rows_ok d" "\<And>i r. r_reservation_id (g i r) = r_reservation_id r"
  shows "reservation_rows_ok (map_rows g d)"
proof -
  have k: "List.map fst (map_rows g d) = List.map fst d"
    "List.map (rr_idempotency_key \<circ> snd) (map_rows g d) = List.map (rr_idempotency_key \<circ> snd) d"
    by (auto simp: map_rows_def)
  have "\<forall>(i, row) \<in> set (map_rows g d). r_reservation_id (rr_value row) = i"
    using assms by (auto simp: reservation_rows_ok_def map_rows_def)
  then show ?thesis using assms(1) unfolding reservation_rows_ok_def dict_ok_def k by blast
qed

lemma map_rows_laws:
  assumes inv: "pg_inv s" and g: "\<And>i r. r_reservation_id (g i r) = r_reservation_id r"
    and s': "s' = s\<lparr>pg_reservations := map_rows g (pg_reservations s)\<rparr>"
  shows "pg_inv s'" "pg_abs s' = (pg_abs s)\<lparr>l_reservation := \<lambda>i. map_option (g i) (l_reservation (pg_abs s) i)\<rparr>"
proof -
  show "pg_inv s'" using inv map_rows_ok [OF _ g, of "pg_reservations s"]
    by (simp add: pg_inv_def s' map_rows_get)
  have "pg_get_idempotency k s' = pg_get_idempotency k s" for k
    unfolding pg_get_idempotency_def s'
    by (simp add: map_rows_def find_map_option comp_def split_def option.map_comp)
  moreover have "pg_callback_url i s' = pg_callback_url i s" for i
    by (simp add: pg_callback_url_def s' map_rows_get split: option.splits)
  moreover have "pg_get_reservation i s' = map_option (g i) (pg_get_reservation i s)" for i
    by (simp add: pg_get_reservation_def s' map_rows_get option.map_comp comp_def)
  moreover have "pg_activation_for_reservation i s' = pg_activation_for_reservation i s"
    "pg_get_activation i s' = pg_get_activation i s" for i
    by (simp_all add: pg_activation_for_reservation_def pg_get_activation_def s')
  ultimately show "pg_abs s' = (pg_abs s)\<lparr>l_reservation := \<lambda>i. map_option (g i) (l_reservation (pg_abs s) i)\<rparr>"
    by (simp add: pg_abs_def s')
qed

lemma pg_expire_laws:
  assumes "pg_inv s"
  shows "pg_inv (pg_expire now s)" "pg_abs (pg_expire now s) = ledger_expire now (pg_abs s)"
proof -
  have "pg_expire now s = s\<lparr>pg_reservations := map_rows (\<lambda>_. expire_at now) (pg_reservations s)\<rparr>"
    by (simp add: pg_expire_def map_rows_def)
  from map_rows_laws [OF assms _ this]
  show "pg_inv (pg_expire now s)" "pg_abs (pg_expire now s) = ledger_expire now (pg_abs s)"
    by (simp_all add: ledger_expire_def)
qed

lemma rows_ok_id:
  "reservation_rows_ok d \<Longrightarrow> dict_get i d = Some row \<Longrightarrow> r_reservation_id (rr_value row) = i"
  by (auto simp: reservation_rows_ok_def dest!: dict_get_Some_in)

lemma pg_update_laws:
  assumes inv: "pg_inv s" and old: "pg_get_reservation (r_reservation_id r) s = Some r0"
    and same: "same_booking r0 r" and up: "pg_update_reservation r s = Inr s'"
  shows "pg_inv s'" "pg_abs s' = ledger_update r (pg_abs s)"
    "pg_allocations s' = pg_allocations s" "pg_activations s' = pg_activations s"
    "pg_instructions s' = pg_instructions s" "pg_outbox s' = pg_outbox s"
proof -
  let ?i = "r_reservation_id r"
  obtain row where row: "dict_get ?i (pg_reservations s) = Some row" "rr_value row = r0"
    using old by (auto simp: pg_get_reservation_def)
  have new: "r0\<lparr>r_status := r_status r, r_allocated_power_kw := r_allocated_power_kw r\<rparr> = r"
    using same by (simp add: same_booking_def)
  have ok: "dict_ok (pg_reservations s)" "reservation_rows_ok (pg_reservations s)"
    using inv by (simp_all add: pg_inv_def reservation_rows_ok_def)
  have id0: "r_reservation_id r0 = ?i" using rows_ok_id [OF ok(2) row(1)] row(2) by simp
  define g where "g = (\<lambda>i x. if i = ?i \<and> r_reservation_id x = ?i then r else (x :: reservation))"
  have s': "s' = s\<lparr>pg_reservations := map_rows g (pg_reservations s)\<rparr>"
  proof -
    have "dict_set ?i (row\<lparr>rr_value := r\<rparr>) (pg_reservations s)
        = List.map (\<lambda>(k, v). (k, if k = ?i then row\<lparr>rr_value := r\<rparr> else v)) (pg_reservations s)"
      using dict_set_map [OF ok(1)] row(1) by simp
    also have "\<dots> = map_rows g (pg_reservations s)"
      unfolding map_rows_def
    proof (rule map_cong [OF refl])
      fix p assume p: "p \<in> set (pg_reservations s)"
      obtain k v where kv': "p = (k, v)" by (cases p)
      then have kv: "(k, v) \<in> set (pg_reservations s)" using p by simp
      have "(k, if k = ?i then row\<lparr>rr_value := r\<rparr> else v) = (k, v\<lparr>rr_value := g k (rr_value v)\<rparr>)"
      proof (cases "k = ?i")
        case True
        then have "dict_get ?i (pg_reservations s) = Some v" using kv dict_get_iff_in [OF ok(1)] by simp
        then have "v = row" using row(1) by simp
        then show ?thesis using True id0 row(2) by (simp add: g_def)
      next
        case False
        then show ?thesis by (simp add: g_def)
      qed
      then show "(case p of (k, v) \<Rightarrow> (k, if k = ?i then row\<lparr>rr_value := r\<rparr> else v))
        = (case p of (i, row) \<Rightarrow> (i, row\<lparr>rr_value := g i (rr_value row)\<rparr>))" by (simp add: kv')
    qed
    finally show ?thesis using up row new by (simp add: pg_update_reservation_def Let_def split: if_splits)
  qed
  have "r_reservation_id (g i x) = r_reservation_id x" for i x by (simp add: g_def)
  note laws = map_rows_laws [OF inv this s']
  show "pg_inv s'" by (rule laws(1))
  have "map_option (g i) (pg_get_reservation i s) = ((\<lambda>i. pg_get_reservation i s)(?i := Some r)) i" for i
    using old id0 by (cases "pg_get_reservation i s") (auto simp: g_def)
  then have "(\<lambda>i. map_option (g i) (pg_get_reservation i s)) = (\<lambda>i. pg_get_reservation i s)(?i := Some r)"
    by (rule ext)
  then show "pg_abs s' = ledger_update r (pg_abs s)" unfolding laws(2) ledger_update_def by simp
  show "pg_allocations s' = pg_allocations s" "pg_activations s' = pg_activations s"
    "pg_instructions s' = pg_instructions s" "pg_outbox s' = pg_outbox s" by (simp_all add: s')
qed

lemma replace_laws:
  assumes inv: "pg_inv s" and old: "pg_get_reservation i s \<noteq> None" and ok: "allocs_ok as"
    and rp: "replace_allocations i as s = Inr s'"
  shows "pg_inv s'" "pg_abs s' = (pg_abs s)\<lparr>l_allocations := (l_allocations (pg_abs s))(i := as)\<rparr>"
    "pg_allocations s' = filter (\<lambda>row. fst (fst row) \<noteq> i) (pg_allocations s) @ indexed i 0 as"
    "s' = s\<lparr>pg_allocations := pg_allocations s'\<rparr>" "\<forall>a \<in> set as. allocation_check a"
proof -
  let ?kept = "filter (\<lambda>row. fst (fst row) \<noteq> i) (pg_allocations s)"
  obtain rows where rows: "insert_allocations i 0 as ?kept = Inr rows" "s' = s\<lparr>pg_allocations := rows\<rparr>"
    using rp by (auto simp: replace_allocations_def Let_def bind_res_Inr split: if_splits)
  note al = insert_allocations_Inr [OF rows(1)]
  show s': "pg_allocations s' = ?kept @ indexed i 0 as" "s' = s\<lparr>pg_allocations := pg_allocations s'\<rparr>"
    "\<forall>a \<in> set as. allocation_check a" using al rows(2) by simp_all
  have sel: "select_indexed j (pg_allocations s') = (if j = i then as else select_indexed j (pg_allocations s))" for j
    unfolding s'(1) by (subst select_append_indexed) (simp_all add: select_other)
  have get: "dict_get i (pg_reservations s) \<noteq> None" using old by (simp add: pg_get_reservation_def)
  have "\<forall>row \<in> set (pg_allocations s'). dict_get (fst (fst row)) (pg_reservations s) \<noteq> None"
    using inv get indexed_keys [of _ i 0 as] unfolding s'(1) pg_inv_def by auto
  then show "pg_inv s'" using inv ok sel rows(2) by (simp add: pg_inv_def)
  have "(\<lambda>j. select_indexed j (pg_allocations s')) = (\<lambda>j. select_indexed j (pg_allocations s))(i := as)"
    using sel by auto
  then show "pg_abs s' = (pg_abs s)\<lparr>l_allocations := (l_allocations (pg_abs s))(i := as)\<rparr>"
    by (simp add: pg_abs_def rows(2) pg_get_reservation_def pg_get_idempotency_def pg_callback_url_def
        pg_activation_for_reservation_def pg_get_activation_def)
qed

lemma find_idem_None:
  "pg_get_idempotency k s = None \<longleftrightarrow> k \<notin> rr_idempotency_key ` set (dict_values (pg_reservations s))"
proof -
  have "rr_idempotency_key ` set (dict_values (pg_reservations s)) = (\<lambda>p. rr_idempotency_key (snd p)) ` set (pg_reservations s)"
    by (simp add: dict_values_def image_image)
  then show ?thesis by (auto simp: pg_get_idempotency_def find_None_iff split_def)
qed

lemma dict_get_snoc: "dict_get k (d @ [(k', v)]) = (case dict_get k d of None \<Rightarrow> if k = k' then Some v else None | Some x \<Rightarrow> Some x)"
  by (simp add: dict_get_def map_add_def split: option.splits)

lemma pg_save_laws:
  assumes inv: "pg_inv s" and fresh: "pg_get_reservation (r_reservation_id r) s = None"
    and ok: "allocs_ok as" and sv: "pg_save_reservation r as k fp cb s = Inr s'"
  shows "pg_inv s'" "pg_abs s' = ledger_save r as k fp cb (pg_abs s)"
    "pg_allocations s' = pg_allocations s @ indexed (r_reservation_id r) 0 as"
    "pg_reservations s' = pg_reservations s @ [(r_reservation_id r,
       \<lparr> rr_value = r, rr_idempotency_key = k, rr_request_fingerprint = fp, rr_callback_url = cb \<rparr>)]"
    "reservation_check r" "\<forall>a \<in> set as. allocation_check a"
proof -
  let ?i = "r_reservation_id r"
  let ?row = "\<lparr> rr_value = r, rr_idempotency_key = k, rr_request_fingerprint = fp, rr_callback_url = cb \<rparr>"
  define s1 where "s1 = s\<lparr>pg_reservations := pg_reservations s @ [(?i, ?row)]\<rparr>"
  have chk: "reservation_check r" and new: "dict_get ?i (pg_reservations s) = None"
    and key: "k \<notin> rr_idempotency_key ` set (dict_values (pg_reservations s))"
    and rp: "replace_allocations ?i as s1 = Inr s'"
    using sv by (auto simp: pg_save_reservation_def Let_def s1_def split: if_splits)
  have old: "\<forall>row \<in> set (pg_allocations s). fst (fst row) \<noteq> ?i" using inv new unfolding pg_inv_def by metis
  have get1: "dict_get j (pg_reservations s1) = (if j = ?i then Some ?row else dict_get j (pg_reservations s))" for j
    using new by (simp add: s1_def dict_get_snoc split: option.splits)
  have rows1: "reservation_rows_ok (pg_reservations s1)"
  proof -
    have "reservation_rows_ok (pg_reservations s)" using inv by (simp add: pg_inv_def)
    moreover have "?i \<notin> fst ` set (pg_reservations s)" using new by (simp add: dict_get_None_iff)
    moreover have "k \<notin> (rr_idempotency_key \<circ> snd) ` set (pg_reservations s)"
      using key by (simp add: dict_values_def image_comp)
    ultimately show ?thesis by (simp add: reservation_rows_ok_def dict_ok_def s1_def)
  qed
  have frame: "pg_allocations s1 = pg_allocations s" "pg_instructions s1 = pg_instructions s"
    "pg_activations s1 = pg_activations s" by (simp_all add: s1_def)
  have inv1: "pg_inv s1" using inv rows1 unfolding pg_inv_def frame by (simp add: get1)
  have get: "pg_get_reservation j s1 = (if j = ?i then Some r else pg_get_reservation j s)" for j
    by (simp add: pg_get_reservation_def get1)
  have none1: "pg_get_reservation ?i s1 \<noteq> None" by (simp add: get)
  note laws = replace_laws [OF inv1 none1 ok rp]
  show "pg_inv s'" by (rule laws(1))
  show "reservation_check r" by (rule chk)
  show "\<forall>a \<in> set as. allocation_check a" by (rule laws(5))
  have "filter (\<lambda>row. fst (fst row) \<noteq> ?i) (pg_allocations s) = pg_allocations s"
    using old by (simp add: filter_id_conv)
  then show "pg_allocations s' = pg_allocations s @ indexed ?i 0 as" using laws(3) by (simp add: s1_def)
  have "pg_reservations s' = pg_reservations s1" by (subst laws(4)) simp
  then show "pg_reservations s' = pg_reservations s @ [(?i, ?row)]" by (simp add: s1_def)
  have idem: "(\<lambda>j. pg_get_idempotency j s1) = (\<lambda>j. pg_get_idempotency j s)(k := Some (fp, ?i))"
  proof (rule ext)
    fix j
    have "pg_get_idempotency k s = None" using key by (simp add: find_idem_None)
    then show "pg_get_idempotency j s1 = ((\<lambda>j. pg_get_idempotency j s)(k := Some (fp, ?i))) j"
      by (auto simp: pg_get_idempotency_def s1_def find_append split: option.splits)
  qed
  have "(\<lambda>j. pg_callback_url j s1) = (\<lambda>j. pg_callback_url j s)(?i := if truthy cb then cb else None)"
    by (rule ext) (simp add: pg_callback_url_def get1)
  moreover have "(\<lambda>j. pg_get_reservation j s1) = (\<lambda>j. pg_get_reservation j s)(?i := Some r)"
    by (rule ext) (simp add: get)
  ultimately show "pg_abs s' = ledger_save r as k fp cb (pg_abs s)"
    unfolding laws(2) by (simp add: ledger_save_def pg_abs_def idem)
      (simp add: s1_def pg_activation_for_reservation_def pg_get_activation_def)
qed

lemma insert_activation_laws:
  assumes inv: "pg_inv s" and ins: "insert_activation a s = Inr s'"
  shows "pg_inv s'" "pg_abs s' = (pg_abs s)\<lparr>
      l_activation_of := (l_activation_of (pg_abs s))(ac_reservation_id a := Some a),
      l_activation := (l_activation (pg_abs s))(ac_activation_id a := Some a)\<rparr>"
    "s' = s\<lparr>pg_activations := pg_activations s @ [(ac_activation_id a, a)]\<rparr>" "activation_check a"
    "dict_get (ac_activation_id a) (pg_activations s) = None"
proof -
  show s': "s' = s\<lparr>pg_activations := pg_activations s @ [(ac_activation_id a, a)]\<rparr>"
    and "activation_check a" and new: "dict_get (ac_activation_id a) (pg_activations s) = None"
    using ins by (auto simp: insert_activation_def split: if_splits)
  have none: "pg_activation_for_reservation (ac_reservation_id a) s = None"
    using ins by (auto simp: insert_activation_def split: if_splits)
  have get: "dict_get j (pg_activations s') = (if j = ac_activation_id a then Some a else dict_get j (pg_activations s))" for j
    using new by (simp add: s' dict_get_snoc split: option.splits)
  show "pg_inv s'" using inv unfolding pg_inv_def get by (auto simp: s')
  have "(\<lambda>j. pg_activation_for_reservation j s') = (\<lambda>j. pg_activation_for_reservation j s)(ac_reservation_id a := Some a)"
    using none by (intro ext) (auto simp: pg_activation_for_reservation_def s' dict_values_def find_append split: option.splits)
  moreover have "(\<lambda>j. pg_get_activation j s') = (\<lambda>j. pg_get_activation j s)(ac_activation_id a := Some a)"
    by (intro ext) (simp add: pg_get_activation_def get)
  ultimately show "pg_abs s' = (pg_abs s)\<lparr>
      l_activation_of := (l_activation_of (pg_abs s))(ac_reservation_id a := Some a),
      l_activation := (l_activation (pg_abs s))(ac_activation_id a := Some a)\<rparr>"
    by (simp add: pg_abs_def) (simp add: s' pg_get_reservation_def pg_get_idempotency_def pg_callback_url_def)
qed

lemma pg_save_activation_laws:
  assumes inv: "pg_inv s" and old: "pg_get_reservation (r_reservation_id r) s = Some r0"
    and same: "same_booking r0 r" and ids: "ac_reservation_id a = r_reservation_id r" and ok: "allocs_ok as"
    and sv: "pg_save_activation a r as instrs s = Inr s'"
  shows "pg_inv s'" "pg_abs s' = ledger_activate a r as instrs (pg_abs s)" "activation_check a"
    "pg_outbox s' = pg_outbox s"
proof -
  let ?i = "r_reservation_id r" and ?aid = "ac_activation_id a"
  obtain s1 s2 s3 rows where s1: "replace_allocations ?i as s = Inr s1"
    and s2: "pg_update_reservation r s1 = Inr s2" and s3: "insert_activation a s2 = Inr s3"
    and rows: "insert_instructions ?aid 0 instrs (pg_instructions s3) = Inr rows"
    and s': "s' = s3\<lparr>pg_instructions := rows\<rparr>"
    using sv by (auto simp: pg_save_activation_def bind_res_Inr)
  have "pg_get_reservation ?i s \<noteq> None" using old by simp
  note l1 = replace_laws [OF inv this ok s1]
  have old1: "pg_get_reservation ?i s1 = Some r0" using old by (subst l1(4)) (simp add: pg_get_reservation_def)
  note l2 = pg_update_laws [OF l1(1) old1 same s2]
  note l3 = insert_activation_laws [OF l2(1) s3]
  show "activation_check a" by (rule l3(4))
  have ins: "pg_instructions s3 = pg_instructions s2" "pg_activations s3 = pg_activations s2 @ [(?aid, a)]"
    by (subst l3(3), simp)+
  have no: "\<forall>row \<in> set (pg_instructions s3). fst (fst row) \<noteq> ?aid"
    using l2(1) l3(5) unfolding pg_inv_def ins by metis
  have rows': "rows = pg_instructions s3 @ indexed ?aid 0 instrs" using insert_instructions_Inr [OF rows] .
  have sel: "(\<lambda>j. select_indexed j rows) = (\<lambda>j. select_indexed j (pg_instructions s3))(?aid := instrs)"
    using select_append_indexed [OF no, of _ 0 instrs] by (intro ext) (simp add: rows')
  have "dict_get ?aid (pg_activations s3) \<noteq> None" by (simp add: ins dict_get_snoc split: option.splits)
  then have "\<forall>row \<in> set rows. dict_get (fst (fst row)) (pg_activations s3) \<noteq> None"
    using l3(1) indexed_keys [of _ ?aid 0 instrs] unfolding rows' pg_inv_def by (metis Un_iff set_append)
  then show "pg_inv s'" using l3(1) by (simp add: pg_inv_def s')
  have "pg_outbox s3 = pg_outbox s2" by (subst l3(3)) simp
  moreover have "pg_outbox s1 = pg_outbox s" by (subst l1(4)) simp
  ultimately show "pg_outbox s' = pg_outbox s" using l2(6) by (simp add: s')
  have "pg_abs s' = (pg_abs s3)\<lparr>l_instructions := (l_instructions (pg_abs s3))(?aid := instrs)\<rparr>"
    using sel by (simp add: pg_abs_def s' pg_get_reservation_def pg_get_idempotency_def pg_callback_url_def
        pg_activation_for_reservation_def pg_get_activation_def)
  then show "pg_abs s' = ledger_activate a r as instrs (pg_abs s)"
    unfolding l3(2) l2(2) l1(2) by (simp add: ledger_activate_def ledger_update_def ids pg_abs_def)
qed

section \<open>What is reserved of an offer\<close>

lemma sql_sum_f64:
  "(\<forall>x \<in> set xs. 0 \<le> x) \<Longrightarrow> is_f64 acc \<Longrightarrow> 0 \<le> acc \<Longrightarrow> is_f64 (foldl fadd acc xs) \<and> 0 \<le> foldl fadd acc xs"
  by (induction xs arbitrary: acc) (simp_all add: fadd_nonneg)

lemma pg_rows_positive:
  assumes "pg_inv s" "row \<in> set (pg_allocations s)"
  shows "0 < al_power_kw (snd row)" "is_f64 (al_power_kw (snd row))"
proof -
  have "snd row \<in> set (select_indexed (fst (fst row)) (pg_allocations s))" using assms(2) by (auto simp: select_set)
  then show "0 < al_power_kw (snd row)" "is_f64 (al_power_kw (snd row))"
    using assms(1) by (auto simp: pg_inv_def allocs_ok_def)
qed

lemma pg_reserved_total:
  assumes "pg_inv s"
  shows "\<exists>x. pg_reserved_for_offer f d s = Inr x \<and> is_f64 x \<and> 0 \<le> x"
proof -
  have "\<forall>x \<in> set (List.map (al_power_kw \<circ> snd) (filter (joined_matches f d s) (pg_allocations s))). 0 \<le> x"
    using pg_rows_positive(1) [OF assms] by (auto intro: less_imp_le)
  from sql_sum_f64 [OF this, of 0] show ?thesis by (simp add: pg_reserved_for_offer_def sql_sum_def)
qed

lemma filter_indexed:
  assumes "allocs_ok as"
  shows "List.map (al_power_kw \<circ> snd) (filter (\<lambda>row. al_resource_id (snd row) = rid) (indexed i n as))
    = (case find (\<lambda>a. al_resource_id a = rid) as of None \<Rightarrow> [] | Some a \<Rightarrow> [al_power_kw a])"
  using assms
proof (induction as arbitrary: n)
  case (Cons a as)
  have ok: "allocs_ok as" using Cons.prems by (simp add: allocs_ok_def)
  show ?case
  proof (cases "al_resource_id a = rid")
    case True
    then have "find (\<lambda>a. al_resource_id a = rid) as = None"
      using Cons.prems by (auto simp: allocs_ok_def find_None_iff image_iff)
    then show ?thesis using True Cons.IH [OF ok, of "Suc n"] by simp
  next
    case False
    then show ?thesis using Cons.IH [OF ok, of "Suc n"] by simp
  qed
qed simp

lemma pg_reserved_save:
  assumes inv: "pg_inv s" and fresh: "pg_get_reservation (r_reservation_id r) s = None"
    and ok: "allocs_ok as" and act: "active_status (r_status r)" and prod: "offer_in_product f d r"
    and sv: "pg_save_reservation r as k fp cb s = Inr s'" and x: "pg_reserved_for_offer f d s = Inr x"
  shows "pg_reserved_for_offer f d s' = Inr (fadd x (power_for (o_resource_id f) as))"
proof -
  let ?i = "r_reservation_id r"
  note l = pg_save_laws [OF inv fresh ok sv]
  have none: "dict_get ?i (pg_reservations s) = None" using fresh by (simp add: pg_get_reservation_def)
  have get: "dict_get j (pg_reservations s') = (if j = ?i then
      Some \<lparr> rr_value = r, rr_idempotency_key = k, rr_request_fingerprint = fp, rr_callback_url = cb \<rparr>
      else dict_get j (pg_reservations s))" for j
    unfolding l(4) using none by (simp add: dict_get_snoc split: option.splits)
  have "joined_matches f d s' row = joined_matches f d s row" if "row \<in> set (pg_allocations s)" for row
  proof -
    have "fst (fst row) \<noteq> ?i" using inv that none unfolding pg_inv_def by metis
    then show ?thesis by (simp add: joined_matches_def get)
  qed
  then have old: "filter (joined_matches f d s') (pg_allocations s) = filter (joined_matches f d s) (pg_allocations s)"
    by (rule filter_cong [OF refl])
  have "joined_matches f d s' row = (al_resource_id (snd row) = o_resource_id f)" if "row \<in> set (indexed ?i 0 as)" for row
    using indexed_keys [OF that] act prod by (auto simp: joined_matches_def get offer_in_product_def)
  then have new: "filter (joined_matches f d s') (indexed ?i 0 as)
      = filter (\<lambda>row. al_resource_id (snd row) = o_resource_id f) (indexed ?i 0 as)"
    by (rule filter_cong [OF refl])
  have f64: "is_f64 x" using pg_reserved_total [OF inv, of f d] x by auto
  show ?thesis using x f64 unfolding pg_reserved_for_offer_def sql_sum_def l(3) filter_append old new map_append foldl_append
      filter_indexed [OF ok] power_for_single [OF ok] by (auto split: option.splits)
qed

interpretation pg_ledger: ledger_backend pg_uow pg_abs pg_inv
proof unfold_locales
  fix s i r assume s: "pg_inv s" "l_reservation (pg_abs s) i = Some r"
  then obtain row where "dict_get i (pg_reservations s) = Some row" "rr_value row = r"
    by (auto simp: pg_get_reservation_def)
  then show "r_reservation_id r = i \<and> allocs_ok (l_allocations (pg_abs s) i)"
    using rows_ok_id s(1) by (auto simp: pg_inv_def)
next
  fix s k fp i assume s: "pg_inv s" "l_idempotency (pg_abs s) k = Some (fp, i)"
  then obtain row where "(i, row) \<in> set (pg_reservations s)"
    by (auto simp: pg_get_idempotency_def find_Some_iff) (metis nth_mem)
  then have "dict_get i (pg_reservations s) = Some row"
    using s(1) by (simp add: pg_inv_def reservation_rows_ok_def dict_get_iff_in)
  then show "l_reservation (pg_abs s) i \<noteq> None" by (simp add: pg_get_reservation_def)
next
  fix s and r :: reservation and k as fp cb s'
  assume "pg_inv s" "l_reservation (pg_abs s) (r_reservation_id r) = None" "allocs_ok as"
    "u_save_reservation pg_uow r as k fp cb s = Inr s'"
  then show "pg_inv s' \<and> pg_abs s' = ledger_save r as k fp cb (pg_abs s)"
    using pg_save_laws(1,2) [of s r as k fp cb s'] by simp
next
  fix s and r r0 :: reservation and s'
  assume "pg_inv s" "l_reservation (pg_abs s) (r_reservation_id r) = Some r0" "same_booking r0 r"
    "u_update_reservation pg_uow r s = Inr s'"
  then show "pg_inv s' \<and> pg_abs s' = ledger_update r (pg_abs s)"
    using pg_update_laws(1,2) [of s r r0 s'] by simp
next
  fix s and r r0 :: reservation and a :: activation and as instrs s'
  assume "pg_inv s" "l_reservation (pg_abs s) (r_reservation_id r) = Some r0" "same_booking r0 r"
    "ac_reservation_id a = r_reservation_id r" "allocs_ok as" "u_save_activation pg_uow a r as instrs s = Inr s'"
  then show "pg_inv s' \<and> pg_abs s' = ledger_activate a r as instrs (pg_abs s)"
    using pg_save_activation_laws(1,2) [of s r r0 a as instrs s'] by simp
next
  fix s and r :: reservation and k as f d fp cb s' x
  assume "pg_inv s" "l_reservation (pg_abs s) (r_reservation_id r) = None" "allocs_ok as"
    "active_status (r_status r)" "offer_in_product f d r"
    "u_save_reservation pg_uow r as k fp cb s = Inr s'" "u_reserved_for_offer pg_uow f d s = Inr x"
  then show "u_reserved_for_offer pg_uow f d s' = Inr (fadd x (power_for (o_resource_id f) as))"
    using pg_reserved_save [of s r as f d k fp cb s' x] by simp
next
  fix s f d assume "pg_inv s"
  then show "\<exists>x. u_reserved_for_offer pg_uow f d s = Inr x \<and> is_f64 x \<and> 0 \<le> x"
    using pg_reserved_total by simp
next
  fix s now assume "pg_inv s"
  then show "pg_inv (u_expire pg_uow now s) \<and> pg_abs (u_expire pg_uow now s) = ledger_expire now (pg_abs s)"
    using pg_expire_laws by simp
qed (simp_all add: pg_get_allocations_def)

end
