(* ===== verification/BackendProps.thy ===== *)
theory BackendProps
  imports PgReservations
begin

text \<open>
  The two backends keep the same ledger: the same writes leave both in states that answer every
  read alike, as far as PostgreSQL accepts the writes.
\<close>

section \<open>Writes\<close>

datatype ledger_write = W_expire instant
  | W_save reservation "allocation list" string string "string option"
  | W_update reservation
  | W_activate activation reservation "allocation list" "instruction list"

fun apply_write :: "'s uow \<Rightarrow> ledger_write \<Rightarrow> 's \<Rightarrow> backend_error + 's" where
  "apply_write U (W_expire now) s = Inr (u_expire U now s)"
| "apply_write U (W_save r as k fp cb) s = u_save_reservation U r as k fp cb s"
| "apply_write U (W_update r) s = u_update_reservation U r s"
| "apply_write U (W_activate a r as instrs) s = u_save_activation U a r as instrs s"

fun ledger_apply :: "ledger_write \<Rightarrow> ledger \<Rightarrow> ledger" where
  "ledger_apply (W_expire now) L = ledger_expire now L"
| "ledger_apply (W_save r as k fp cb) L = ledger_save r as k fp cb L"
| "ledger_apply (W_update r) L = ledger_update r L"
| "ledger_apply (W_activate a r as instrs) L = ledger_activate a r as instrs L"

text \<open>What the service guarantees of a write before it makes it.\<close>

fun write_ok :: "ledger_write \<Rightarrow> ledger \<Rightarrow> bool" where
  "write_ok (W_expire now) L \<longleftrightarrow> True"
| "write_ok (W_save r as k fp cb) L \<longleftrightarrow>
     l_reservation L (r_reservation_id r) = None \<and> l_idempotency L k = None \<and> allocs_ok as"
| "write_ok (W_update r) L \<longleftrightarrow>
     (case l_reservation L (r_reservation_id r) of None \<Rightarrow> False | Some r0 \<Rightarrow> same_booking r0 r)"
| "write_ok (W_activate a r as instrs) L \<longleftrightarrow>
     (case l_reservation L (r_reservation_id r) of None \<Rightarrow> False | Some r0 \<Rightarrow> same_booking r0 r) \<and>
     l_activation_of L (r_reservation_id r) = None \<and> l_activation L (ac_activation_id a) = None \<and>
     ac_reservation_id a = r_reservation_id r \<and> allocs_ok as"

fun run_writes :: "'s uow \<Rightarrow> ledger_write list \<Rightarrow> 's \<Rightarrow> backend_error + 's" where
  "run_writes U [] s = Inr s"
| "run_writes U (w # ws) s = bind_res (apply_write U w s) (run_writes U ws)"

fun ledger_run :: "ledger_write list \<Rightarrow> ledger \<Rightarrow> ledger" where
  "ledger_run [] L = L"
| "ledger_run (w # ws) L = ledger_run ws (ledger_apply w L)"

fun writes_ok :: "ledger_write list \<Rightarrow> ledger \<Rightarrow> bool" where
  "writes_ok [] L \<longleftrightarrow> True"
| "writes_ok (w # ws) L \<longleftrightarrow> write_ok w L \<and> writes_ok ws (ledger_apply w L)"

context ledger_backend begin

lemma apply_write_refines:
  assumes "inv s" "write_ok w (abs s)" "apply_write U w s = Inr s'"
  shows "inv s' \<and> abs s' = ledger_apply w (abs s)"
proof (cases w)
  case (W_expire now)
  then show ?thesis using expire [OF assms(1)] assms(3) by auto
next
  case (W_save r as k fp cb)
  then show ?thesis using save [OF assms(1), of r k as fp cb s'] assms(2,3) by simp
next
  case (W_update r)
  then show ?thesis using update [OF assms(1), of r _ s'] assms(2,3) by (auto split: option.splits)
next
  case (W_activate a r as instrs)
  then show ?thesis using save_activation [OF assms(1), of r _ a as instrs s'] assms(2,3)
    by (auto split: option.splits)
qed

lemma run_writes_refines:
  "inv s \<Longrightarrow> writes_ok ws (abs s) \<Longrightarrow> run_writes U ws s = Inr s' \<Longrightarrow> inv s' \<and> abs s' = ledger_run ws (abs s)"
proof (induction ws arbitrary: s)
  case (Cons w ws)
  obtain s1 where s1: "apply_write U w s = Inr s1" "run_writes U ws s1 = Inr s'"
    using Cons.prems(3) by (auto simp: bind_res_Inr)
  have "inv s1 \<and> abs s1 = ledger_apply w (abs s)"
    using apply_write_refines [OF Cons.prems(1) _ s1(1)] Cons.prems(2) by simp
  then show ?case using Cons.IH [of s1] s1(2) Cons.prems(2) by simp
qed simp

end

lemma new_ledgers: "pg_abs pg_new = mem_abs mem_new"
  by (simp add: pg_abs_def mem_abs_def pg_new_def mem_new_def pg_get_reservation_def select_indexed_def
      pg_get_idempotency_def pg_callback_url_def pg_activation_for_reservation_def pg_get_activation_def
      mem_activation_for_reservation_def dict_values_def)

text \<open>
  C5 backends_agree. PostgreSQL refines the in-memory backend: after the same writes from empty
  backends, when the database accepted them all, every reservation, allocation, idempotency record,
  callback and activation reads the same from both.
\<close>

theorem backends_agree:
  assumes "writes_ok ws (mem_abs mem_new)" and "run_writes mem_uow ws mem_new = Inr m"
    and "run_writes pg_uow ws pg_new = Inr p"
  shows "pg_get_reservation i p = mem_get_reservation i m \<and>
    (mem_get_reservation i m = None \<or> pg_get_allocations i p = mem_get_allocations i m \<and>
       pg_callback_url i p = mem_callback_url i m) \<and>
    pg_get_idempotency k p = mem_get_idempotency k m \<and>
    pg_activation_for_reservation i p = mem_activation_for_reservation i m \<and>
    pg_get_activation aid p = mem_get_activation aid m"
proof -
  have m: "mem_inv m" "mem_abs m = ledger_run ws (mem_abs mem_new)"
    using mem_ledger.run_writes_refines [OF mem_inv_new assms(1,2)] by blast+
  have p: "pg_inv p" "pg_abs p = mem_abs m"
    using pg_ledger.run_writes_refines [OF pg_inv_new _ assms(3)] assms(1) m(2) by (simp_all add: new_ledgers)
  show ?thesis
    using mem_ledger.get_reservation [OF m(1), of i] pg_ledger.get_reservation [OF p(1), of i]
      mem_ledger.get_allocations [OF m(1), of i] pg_ledger.get_allocations [OF p(1), of i]
      mem_ledger.callback_url [OF m(1), of i] pg_ledger.callback_url [OF p(1), of i]
      mem_ledger.get_idempotency [OF m(1), of k] pg_ledger.get_idempotency [OF p(1), of k]
      mem_ledger.activation_for [OF m(1), of i] pg_ledger.activation_for [OF p(1), of i]
      mem_ledger.get_activation [OF m(1), of aid] pg_ledger.get_activation [OF p(1), of aid]
    unfolding p(2) mem_uow_simps pg_uow_simps by (metis (no_types))
qed

definition ex_allocs :: "allocation list" where
  "ex_allocs = [ex_allocation ''a'', ex_allocation ''b'']"

definition ex_booking :: "uuid \<Rightarrow> reservation" where
  "ex_booking i = ex_reservation\<lparr>r_reservation_id := i, r_tenant_id := ''T'', r_participant_count := 2,
     r_interval_end := minutes 15, r_requested_power_kw := 9, r_allocated_power_kw := 4\<rparr>"

definition ex_writes :: "ledger_write list" where
  "ex_writes = [W_save (ex_booking 1) ex_allocs ''T:k'' ''f'' (Some ''u''), W_expire 0]"

lemma ex_allocs_ok: "allocs_ok ex_allocs"
proof -
  have "rnd64 (3/2) = 3/2" by code_simp
  then have "is_f64 (3/2)" by (metis is_f64_rnd64)
  then show ?thesis by (simp add: allocs_ok_def ex_allocs_def ex_allocation_def)
qed

theorem backends_agree_witness:
  "pg_get_reservation 1 (projr (run_writes pg_uow ex_writes pg_new)) = mem_get_reservation 1 (projr (run_writes mem_uow ex_writes mem_new))"
proof -
  have "writes_ok ex_writes (mem_abs mem_new)"
    using ex_allocs_ok by (simp add: ex_writes_def mem_new_def)
  moreover have "run_writes mem_uow ex_writes mem_new = Inr (projr (run_writes mem_uow ex_writes mem_new))" by code_simp
  moreover have "run_writes pg_uow ex_writes pg_new = Inr (projr (run_writes pg_uow ex_writes pg_new))" by code_simp
  ultimately show ?thesis using backends_agree by blast
qed

end
