(* ===== verification/PgOutbox.thy ===== *)
theory PgOutbox
  imports PgReservations Text
begin

text \<open>
  The durable outbox of the PostgreSQL backend: claiming due tasks under a lease, resolving a
  claimed task, and finishing an activation once all its resource tasks are settled
  (\<open>claim_outbox\<close>, \<open>resolve_outbox\<close> and \<open>_finalize_activation\<close> of \<open>reservations/postgres.py\<close>).
  \<open>uuid5\<close> is a parameter: the identifier it derives from an activation and a suffix.
\<close>

section \<open>Claiming\<close>

definition claimable :: "instant \<Rightarrow> outbox_row \<Rightarrow> bool" where
  "claimable now b \<longleftrightarrow>
     (ob_status b \<in> {OB_PENDING, OB_RETRY} \<and> ob_available_at b \<le> now) \<or>
     (ob_status b = OB_PROCESSING \<and> (case ob_locked_until b of None \<Rightarrow> False | Some t \<Rightarrow> t \<le> now))"

definition event_rank :: "string \<Rightarrow> nat" where
  "event_rank e = (if e = ''activation.accepted'' then 0 else if e = ''activation.started'' then 1
     else if e = ''pebc.instruction'' then 2 else 3)"

definition claim_order :: "uuid \<times> outbox_row \<Rightarrow> instant \<times> nat \<times> uuid" where
  "claim_order p = (ob_created_at (snd p), event_rank (ot_event_type (ob_task (snd p))), fst p)"

definition candidates :: "instant \<Rightarrow> nat \<Rightarrow> pg \<Rightarrow> uuid list" where
  "candidates now limit s = List.map fst (take limit
     (sort_key claim_order (filter (\<lambda>p. claimable now (snd p)) (pg_outbox s))))"

definition claim_row :: "instant \<Rightarrow> outbox_row \<Rightarrow> outbox_row" where
  "claim_row locked_until b = b\<lparr> ob_status := OB_PROCESSING,
     ob_task := (ob_task b)\<lparr>ot_attempts := ot_attempts (ob_task b) + 1\<rparr>,
     ob_locked_until := Some locked_until \<rparr>"

text \<open>
  \<open>UPDATE ... RETURNING\<close> hands the rows back in an order of its own: \<open>returning\<close> arranges them.
\<close>

definition claim_outbox ::
    "(outbox_task list \<Rightarrow> outbox_task list) \<Rightarrow> instant \<Rightarrow> nat \<Rightarrow> int \<Rightarrow> pg \<Rightarrow> pg \<times> outbox_task list" where
  "claim_outbox returning now limit lease_seconds s =
     (let ids = candidates now limit s;
          locked_until = now + seconds lease_seconds;
          rows = List.map (\<lambda>(i, b). (i, if i \<in> set ids then claim_row locked_until b else b)) (pg_outbox s)
      in (s\<lparr>pg_outbox := rows\<rparr>,
          returning (List.map (\<lambda>(i, b). ob_task b) (filter (\<lambda>(i, b). i \<in> set ids) rows))))"

section \<open>Finishing an activation\<close>

definition resource_tasks :: "uuid \<Rightarrow> pg \<Rightarrow> outbox_row list" where
  "resource_tasks aid s = sort_key (\<lambda>b. the (ot_allocation_index (ob_task b)))
     (filter (\<lambda>b. ot_activation_id (ob_task b) = aid \<and> ot_kind (ob_task b) = RESOURCE)
       (dict_values (pg_outbox s)))"

definition accepted_indices :: "outbox_row list \<Rightarrow> int list" where
  "accepted_indices tasks = List.map (\<lambda>b. the (ot_allocation_index (ob_task b)))
     (filter (\<lambda>b. ob_status b = OB_DELIVERED) tasks)"

definition allocation_chosen :: "uuid \<Rightarrow> int list \<Rightarrow> (uuid \<times> nat) \<times> allocation \<Rightarrow> bool" where
  "allocation_chosen i indices row \<longleftrightarrow> fst (fst row) = i \<and> int (snd (fst row)) \<in> set indices"

definition accepted_power :: "uuid \<Rightarrow> int list \<Rightarrow> pg \<Rightarrow> rat" where
  "accepted_power i indices s =
     sql_sum (List.map (al_power_kw \<circ> snd) (filter (allocation_chosen i indices) (pg_allocations s)))"

definition finished_row :: "outbox_row list \<Rightarrow> instant \<Rightarrow> activation \<Rightarrow> activation" where
  "finished_row tasks now a =
     (let accepted_count = int (length (accepted_indices tasks));
          rejected_count = int (length tasks) - accepted_count
      in a\<lparr> ac_status := (if rejected_count \<noteq> 0 then ACT_FAILED else ACT_COMPLETED),
            ac_accepted_instruction_count := accepted_count,
            ac_rejected_instruction_count := rejected_count, ac_completed_at := Some now \<rparr>)"

definition write_activation :: "activation \<Rightarrow> pg \<Rightarrow> backend_error + pg" where
  "write_activation a s =
     (if \<not> activation_check a then Inl (CheckViolation ''activation'')
      else Inr (s\<lparr>pg_activations := dict_set (ac_activation_id a) a (pg_activations s)\<rparr>))"

definition write_result :: "uuid \<Rightarrow> reservation_status \<Rightarrow> rat \<Rightarrow> pg \<Rightarrow> backend_error + pg" where
  "write_result i st kw s =
     (case dict_get i (pg_reservations s) of
        None \<Rightarrow> Inr s
      | Some row \<Rightarrow>
          let new = (rr_value row)\<lparr>r_status := st, r_allocated_power_kw := kw\<rparr>
          in if \<not> reservation_check new then Inl (CheckViolation ''reservation'')
             else Inr (s\<lparr>pg_reservations := dict_set i (row\<lparr>rr_value := new\<rparr>) (pg_reservations s)\<rparr>))"

definition delete_rejected :: "uuid \<Rightarrow> int list \<Rightarrow> pg \<Rightarrow> pg" where
  "delete_rejected i indices s = s\<lparr>pg_allocations :=
     filter (\<lambda>row. fst (fst row) \<noteq> i \<or> int (snd (fst row)) \<in> set indices) (pg_allocations s)\<rparr>"

definition finished_event :: "activation \<Rightarrow> string" where
  "finished_event a = (if ac_status a = ACT_FAILED then ''activation.failed'' else ''activation.completed'')"

definition enqueue_finished :: "(uuid \<Rightarrow> string \<Rightarrow> uuid) \<Rightarrow> activation \<Rightarrow> string option \<Rightarrow> instant \<Rightarrow> pg \<Rightarrow> backend_error + pg" where
  "enqueue_finished event_uuid a callback_url now s =
     (if truthy callback_url then
        pg_enqueue_outbox \<lparr> ot_event_id = event_uuid (ac_activation_id a) (''webhook:'' @ finished_event a),
          ot_kind = WEBHOOK, ot_destination = the callback_url, ot_event_type = finished_event a,
          ot_payload = Activation_payload a, ot_attempts = 0, ot_activation_id = ac_activation_id a,
          ot_reservation_id = ac_reservation_id a, ot_allocation_index = None \<rparr> now s
      else Inr s)"

definition result_status :: "activation \<Rightarrow> reservation_status" where
  "result_status a = (if ac_status a = ACT_FAILED then FAILED else COMPLETED)"

definition finalize_activation ::
    "(uuid \<Rightarrow> string \<Rightarrow> uuid) \<Rightarrow> uuid \<Rightarrow> instant \<Rightarrow> pg \<Rightarrow> backend_error + pg" where
  "finalize_activation event_uuid aid now s =
     (case dict_get aid (pg_activations s) of
        None \<Rightarrow> Inr s
      | Some a \<Rightarrow>
          (case dict_get (ac_reservation_id a) (pg_reservations s) of
             None \<Rightarrow> Inr s
           | Some row \<Rightarrow>
               if ac_status a \<noteq> ACT_PENDING then Inr s
               else let tasks = resource_tasks aid s in
                 if tasks = [] \<or> (\<exists>b \<in> set tasks. ob_status b \<notin> {OB_DELIVERED, OB_DEAD}) then Inr s
                 else
                   let indices = accepted_indices tasks;
                       kw = accepted_power (ac_reservation_id a) indices s;
                       completed = finished_row tasks now a
                   in bind_res (write_activation completed s) (\<lambda>s1.
                      bind_res (write_result (ac_reservation_id a) (result_status completed) kw s1) (\<lambda>s2.
                        enqueue_finished event_uuid completed (rr_callback_url row) now
                          (delete_rejected (ac_reservation_id a) indices s2)))))"

section \<open>Resolving\<close>

definition delay_seconds :: "int \<Rightarrow> int" where
  "delay_seconds attempts = min 300 (2 ^ nat (max 0 (attempts - 1)))"

definition or_default :: "string option \<Rightarrow> string \<Rightarrow> string" where
  "or_default x d = (if truthy x then the x else d)"

definition settled_row ::
    "bool \<Rightarrow> bool \<Rightarrow> string option \<Rightarrow> instant \<Rightarrow> int \<Rightarrow> outbox_row \<Rightarrow> outbox_row" where
  "settled_row delivered retryable error now max_attempts b =
     (let attempts = ot_attempts (ob_task b);
          terminal = delivered \<or> \<not> retryable \<or> attempts \<ge> max_attempts
      in b\<lparr> ob_status := (if delivered then OB_DELIVERED else if terminal then OB_DEAD else OB_RETRY),
            ob_available_at := (if delivered \<or> terminal then now else now + seconds (delay_seconds attempts)),
            ob_locked_until := None,
            ob_delivered_at := (if delivered then Some now else None),
            ob_last_error := (if delivered then None else Some (take 1000 (or_default error ''delivery rejected''))) \<rparr>)"

definition resolve_outbox ::
    "(uuid \<Rightarrow> string \<Rightarrow> uuid) \<Rightarrow> outbox_task \<Rightarrow> bool \<Rightarrow> bool \<Rightarrow> string option \<Rightarrow> instant \<Rightarrow> int \<Rightarrow> pg
     \<Rightarrow> backend_error + pg" where
  "resolve_outbox event_uuid task delivered retryable error now max_attempts s =
     (case dict_get (ot_event_id task) (pg_outbox s) of
        None \<Rightarrow> Inr s
      | Some b \<Rightarrow>
          if ob_status b \<noteq> OB_PROCESSING \<or> ot_attempts (ob_task b) \<noteq> ot_attempts task then Inr s
          else
            let b' = settled_row delivered retryable error now max_attempts b;
                s' = s\<lparr>pg_outbox := dict_set (ot_event_id task) b' (pg_outbox s)\<rparr>;
                terminal = delivered \<or> \<not> retryable \<or> ot_attempts (ob_task b) \<ge> max_attempts
            in if ot_kind task = RESOURCE \<and> terminal
               then finalize_activation event_uuid (ot_activation_id task) now s'
               else Inr s')"

end
