(* ===== verification/Outbox.thy ===== *)
theory Outbox
  imports PgOutbox BackendProps "HOL-Library.Multiset"
begin

text \<open>
  The outbox processor, \<open>outbox.py\<close>, over the PostgreSQL backend: one batch, draining, and the
  delivery of one task.
\<close>

section \<open>OutboxProcessor\<close>

text \<open>
  What the resource acceptor does when it is called for the n-th time: it answers, or it raises
  an exception with the text the worker records.
\<close>

datatype acceptor_answer = Answers bool | Raises string

record 'b processor =
  op_dispatcher :: "(payload, 'b) dispatcher"
  op_acceptor :: "nat \<Rightarrow> string \<Rightarrow> payload \<Rightarrow> acceptor_answer"
  op_max_attempts :: int
  op_lease_seconds :: int
  op_event_text :: "uuid \<Rightarrow> string"
  op_event_uuid :: "uuid \<Rightarrow> string \<Rightarrow> uuid"
  op_returning :: "outbox_task list \<Rightarrow> outbox_task list"

record outbox_world =
  ow_pg :: pg
  ow_webhooks :: webhook_state
  ow_handed_out :: "(string \<times> payload) list"

definition deliver_task ::
    "'b processor \<Rightarrow> outbox_task \<Rightarrow> outbox_world \<Rightarrow> outbox_world \<times> bool \<times> bool \<times> string option" where
  "deliver_task P task w =
     (if ot_kind task = WEBHOOK then
        (case send_once (op_dispatcher P) (ot_destination task) (ot_event_type task) (ot_payload task)
            (Some (op_event_text P (ot_event_id task))) (ow_webhooks w) of
           (h, Inl e) \<Rightarrow> (w\<lparr>ow_webhooks := h\<rparr>, False, True, Some e)
         | (h, Inr (delivered, error)) \<Rightarrow> (w\<lparr>ow_webhooks := h\<rparr>, delivered, True, error))
      else
        let w' = w\<lparr>ow_handed_out := ow_handed_out w @ [(ot_destination task, ot_payload task)]\<rparr>
        in case op_acceptor P (length (ow_handed_out w)) (ot_destination task) (ot_payload task) of
             Raises e \<Rightarrow> (w', False, True, Some e)
           | Answers delivered \<Rightarrow> (w', delivered, False,
               if delivered then None else Some ''resource rejected instruction''))"

definition record_delivery :: "outbox_task \<Rightarrow> bool \<Rightarrow> outbox_world \<Rightarrow> outbox_world" where
  "record_delivery task delivered w = w\<lparr>ow_webhooks := (ow_webhooks w)\<lparr>wh_deliveries :=
     wh_deliveries (ow_webhooks w) @ [\<lparr>wd_event = ot_event_type task, wd_callback_url = ot_destination task,
       wd_attempts = nat (ot_attempts task), wd_delivered = delivered\<rparr>]\<rparr>\<rparr>"

text \<open>An exception of the database leaves the loop; the tasks before it stay resolved.\<close>

definition process_task :: "'b processor \<Rightarrow> instant \<Rightarrow> outbox_task \<Rightarrow> (outbox_world, backend_error, unit) action" where
  "process_task P current task w =
     (case deliver_task P task w of (w1, delivered, retryable, error) \<Rightarrow>
        (case resolve_outbox (op_event_uuid P) task delivered retryable error current (op_max_attempts P) (ow_pg w1) of
           Inl e \<Rightarrow> (w1, Inl e)
         | Inr s \<Rightarrow>
             let w2 = w1\<lparr>ow_pg := s\<rparr>;
                 terminal = delivered \<or> \<not> retryable \<or> ot_attempts task \<ge> op_max_attempts P
             in (if ot_kind task = WEBHOOK \<and> terminal then record_delivery task delivered w2 else w2, Inr ())))"

fun process_tasks :: "'b processor \<Rightarrow> instant \<Rightarrow> outbox_task list \<Rightarrow> (outbox_world, backend_error, unit) action" where
  "process_tasks P current [] w = (w, Inr ())"
| "process_tasks P current (t # ts) w = act_then (process_task P current t) (process_tasks P current ts) w"

definition run_once :: "'b processor \<Rightarrow> instant \<Rightarrow> nat \<Rightarrow> (outbox_world, backend_error, nat) action" where
  "run_once P current limit w =
     (case claim_outbox (op_returning P) current limit (op_lease_seconds P) (ow_pg w) of (s, tasks) \<Rightarrow>
        act_then (process_tasks P current tasks) (act_return (length tasks)) (w\<lparr>ow_pg := s\<rparr>))"

text \<open>Draining at the clock readings the batches find, at most \<open>max_batches\<close> of them.\<close>

fun drain :: "'b processor \<Rightarrow> (nat \<Rightarrow> instant) \<Rightarrow> nat \<Rightarrow> nat \<Rightarrow> (outbox_world, backend_error, nat) action" where
  "drain P clock 0 processed w = (w, Inr processed)"
| "drain P clock (Suc n) processed w = act_bind (run_once P (clock n) 100) (\<lambda>count.
     if count = 0 then act_return (processed + count) else drain P clock n (processed + count)) w"

section \<open>What the operations do to the outbox\<close>

definition outbox_ok :: "pg \<Rightarrow> bool" where
  "outbox_ok s \<longleftrightarrow> dict_ok (pg_outbox s) \<and> (\<forall>(i, b) \<in> set (pg_outbox s). ot_event_id (ob_task b) = i)"

lemma outbox_ok_get: "outbox_ok s \<Longrightarrow> dict_get i (pg_outbox s) = Some b \<Longrightarrow> ot_event_id (ob_task b) = i"
  by (auto simp: outbox_ok_def dest!: dict_get_Some_in)

definition settled :: "outbox_row \<Rightarrow> bool" where
  "settled b \<longleftrightarrow> ob_status b \<in> {OB_DELIVERED, OB_DEAD}"

lemma settled_not_claimable: "settled b \<Longrightarrow> \<not> claimable now b"
  by (auto simp: settled_def claimable_def)

lemma candidates_claimable:
  assumes "outbox_ok s" "i \<in> set (candidates now limit s)"
  shows "\<exists>b. dict_get i (pg_outbox s) = Some b \<and> claimable now b"
proof -
  obtain b where "(i, b) \<in> set (take limit (sort_key claim_order (filter (\<lambda>p. claimable now (snd p)) (pg_outbox s))))"
    using assms(2) by (auto simp: candidates_def)
  then have "(i, b) \<in> set (pg_outbox s)" "claimable now b" by (auto dest: in_set_takeD)
  then show ?thesis using assms(1) by (auto simp: outbox_ok_def dict_get_iff_in)
qed

lemma candidates_all:
  assumes "dict_get i (pg_outbox s) = Some b" "claimable now b" "length (pg_outbox s) \<le> limit"
  shows "i \<in> set (candidates now limit s)"
proof -
  have "length (filter (\<lambda>p. claimable now (snd p)) (pg_outbox s)) \<le> limit"
    using assms(3) length_filter_le order_trans by blast
  moreover have "(i, b) \<in> set (pg_outbox s)" using assms(1) by (rule dict_get_Some_in)
  ultimately show ?thesis using assms(2) by (force simp: candidates_def)
qed

lemma claim_get:
  "dict_get i (pg_outbox (fst (claim_outbox ret now limit lease s))) =
     map_option (\<lambda>b. if i \<in> set (candidates now limit s) then claim_row (now + seconds lease) b else b)
       (dict_get i (pg_outbox s))"
proof -
  have "dict_get i (List.map (\<lambda>(i, b). (i, if i \<in> A then f b else b)) d)
      = map_option (\<lambda>b. if i \<in> A then f b else b) (dict_get i d)" for A f and d :: "(uuid, outbox_row) dict"
    by (induction d) (auto simp: dict_get_def)
  then show ?thesis by (simp add: claim_outbox_def Let_def)
qed

lemma claim_row_task [simp]:
  "ot_event_id (ob_task (claim_row t b)) = ot_event_id (ob_task b)" "ob_status (claim_row t b) = OB_PROCESSING"
  "ot_attempts (ob_task (claim_row t b)) = ot_attempts (ob_task b) + 1"
  by (simp_all add: claim_row_def)

lemma claim_ok:
  assumes "outbox_ok s" shows "outbox_ok (fst (claim_outbox ret now limit lease s))"
proof -
  have "dict_ok (pg_outbox (fst (claim_outbox ret now limit lease s)))" using assms
    by (simp add: outbox_ok_def claim_outbox_def Let_def dict_ok_def comp_def split_def)
  moreover have "\<forall>(i, b) \<in> set (pg_outbox (fst (claim_outbox ret now limit lease s))). ot_event_id (ob_task b) = i"
    using assms by (auto simp: outbox_ok_def claim_outbox_def Let_def)
  ultimately show ?thesis by (simp add: outbox_ok_def)
qed

lemma settled_row_task [simp]: "ob_task (settled_row d r e now m b) = ob_task b"
  "ob_status (settled_row d r e now m b) \<noteq> OB_PROCESSING"
  by (auto simp: settled_row_def Let_def)

text \<open>New rows are appended under unused identifiers; existing rows stay.\<close>

definition outbox_extends :: "pg \<Rightarrow> pg \<Rightarrow> bool" where
  "outbox_extends s s' \<longleftrightarrow> (\<exists>rows. pg_outbox s' = pg_outbox s @ rows)"

lemma outbox_extends_refl [simp]: "pg_outbox s' = pg_outbox s \<Longrightarrow> outbox_extends s s'"
  by (simp add: outbox_extends_def)

lemma outbox_extends_trans: "outbox_extends a b \<Longrightarrow> outbox_extends b c \<Longrightarrow> outbox_extends a c"
  by (auto simp: outbox_extends_def)

lemma outbox_extends_get: "outbox_extends s s' \<Longrightarrow> dict_get i (pg_outbox s) = Some b \<Longrightarrow> dict_get i (pg_outbox s') = Some b"
  by (auto simp: outbox_extends_def dict_get_def map_add_def)

lemma enqueue_laws:
  assumes "pg_enqueue_outbox task t s = Inr s'" "outbox_ok s"
  shows "outbox_extends s s'" "outbox_ok s'"
proof -
  have cases': "s' = s \<or> (\<exists>b. s' = s\<lparr>pg_outbox := pg_outbox s @ [(ot_event_id task, b)]\<rparr> \<and>
      dict_get (ot_event_id task) (pg_outbox s) = None \<and> ot_event_id (ob_task b) = ot_event_id task)"
    using assms(1) by (auto simp: pg_enqueue_outbox_def Let_def split: if_splits)
  then show "outbox_extends s s'" by (auto simp: outbox_extends_def)
  show "outbox_ok s'" using cases' assms(2) by (auto simp: outbox_ok_def dict_ok_def dict_get_None_iff)
qed

lemma finalize_cases:
  assumes "finalize_activation eu aid now s = Inr s'"
  obtains (unchanged) "s' = s"
  | (finished) a row s1 s2 where "dict_get aid (pg_activations s) = Some a"
      "dict_get (ac_reservation_id a) (pg_reservations s) = Some row" "ac_status a = ACT_PENDING"
      "resource_tasks aid s \<noteq> []" "\<forall>b \<in> set (resource_tasks aid s). ob_status b \<in> {OB_DELIVERED, OB_DEAD}"
      "write_activation (finished_row (resource_tasks aid s) now a) s = Inr s1"
      "write_result (ac_reservation_id a) (result_status (finished_row (resource_tasks aid s) now a))
         (accepted_power (ac_reservation_id a) (accepted_indices (resource_tasks aid s)) s) s1 = Inr s2"
      "enqueue_finished eu (finished_row (resource_tasks aid s) now a) (rr_callback_url row) now
         (delete_rejected (ac_reservation_id a) (accepted_indices (resource_tasks aid s)) s2) = Inr s'"
proof (cases "dict_get aid (pg_activations s)")
  case None
  then show ?thesis using assms that(1) by (simp add: finalize_activation_def)
next
  case a: (Some a)
  show ?thesis
  proof (cases "dict_get (ac_reservation_id a) (pg_reservations s)")
    case None
    then show ?thesis using assms a that(1) by (simp add: finalize_activation_def)
  next
    case row: (Some row)
    show ?thesis
    proof (cases "ac_status a \<noteq> ACT_PENDING \<or> resource_tasks aid s = [] \<or>
        (\<exists>b \<in> set (resource_tasks aid s). ob_status b \<notin> {OB_DELIVERED, OB_DEAD})")
      case True
      then have "finalize_activation eu aid now s = Inr s"
        using a row by (simp add: finalize_activation_def Let_def)
      then show ?thesis using assms that(1) by simp
    next
      case False
      then have st: "\<not> ac_status a \<noteq> ACT_PENDING" and nb: "\<not> (resource_tasks aid s = [] \<or>
          (\<exists>b \<in> set (resource_tasks aid s). ob_status b \<notin> {OB_DELIVERED, OB_DEAD}))" by blast+
      have "bind_res (write_activation (finished_row (resource_tasks aid s) now a) s) (\<lambda>s1.
         bind_res (write_result (ac_reservation_id a) (result_status (finished_row (resource_tasks aid s) now a))
           (accepted_power (ac_reservation_id a) (accepted_indices (resource_tasks aid s)) s) s1) (\<lambda>s2.
         enqueue_finished eu (finished_row (resource_tasks aid s) now a) (rr_callback_url row) now
         (delete_rejected (ac_reservation_id a) (accepted_indices (resource_tasks aid s)) s2))) = Inr s'"
        using assms unfolding finalize_activation_def a row option.case Let_def if_not_P [OF st] if_not_P [OF nb] .
      then obtain s1 s2 where "write_activation (finished_row (resource_tasks aid s) now a) s = Inr s1"
      "write_result (ac_reservation_id a) (result_status (finished_row (resource_tasks aid s) now a))
         (accepted_power (ac_reservation_id a) (accepted_indices (resource_tasks aid s)) s) s1 = Inr s2"
      "enqueue_finished eu (finished_row (resource_tasks aid s) now a) (rr_callback_url row) now
         (delete_rejected (ac_reservation_id a) (accepted_indices (resource_tasks aid s)) s2) = Inr s'"
        unfolding bind_res_Inr by blast
      then show ?thesis using that(2) [OF a row] False by blast
    qed
  qed
qed

lemma write_outbox_frame:
  "write_activation a s = Inr s' \<Longrightarrow> pg_outbox s' = pg_outbox s"
  "write_result i st kw s = Inr s' \<Longrightarrow> pg_outbox s' = pg_outbox s"
  "pg_outbox (delete_rejected i ks s) = pg_outbox s"
  by (auto simp: write_activation_def write_result_def Let_def delete_rejected_def split: if_splits option.splits)

lemma finalize_laws:
  assumes fin: "finalize_activation eu aid now s = Inr s'" and ok: "outbox_ok s"
  shows "outbox_extends s s'" "outbox_ok s'"
proof -
  have "outbox_extends s s' \<and> outbox_ok s'"
  proof (cases rule: finalize_cases [OF fin])
    case 1
    then show ?thesis using ok by simp
  next
    case (2 a row s1 s2)
    let ?s3 = "delete_rejected (ac_reservation_id a) (accepted_indices (resource_tasks aid s)) s2"
    have b: "pg_outbox ?s3 = pg_outbox s" using 2 write_outbox_frame by metis
    then have ok3: "outbox_ok ?s3" using ok by (simp add: outbox_ok_def)
    show ?thesis
    proof (cases "truthy (rr_callback_url row)")
      case True
      from 2(8) True enqueue_laws [OF _ ok3] show ?thesis
        unfolding enqueue_finished_def by (auto simp: outbox_extends_def b)
    next
      case False
      then show ?thesis using 2(8) ok3 b by (simp add: enqueue_finished_def)
    qed
  qed
  then show "outbox_extends s s'" "outbox_ok s'" by blast+
qed

text \<open>
  Resolving changes at most the row of the task, and that only while it is being processed in the
  attempt the task was claimed with.
\<close>

lemma resolve_laws:
  assumes res: "resolve_outbox eu task d r e now m s = Inr s'" and ok: "outbox_ok s"
  shows "outbox_ok s'"
    and "dict_get i (pg_outbox s) = Some b \<Longrightarrow> dict_get i (pg_outbox s') =
      Some (if i = ot_event_id task \<and> ob_status b = OB_PROCESSING \<and> ot_attempts (ob_task b) = ot_attempts task
            then settled_row d r e now m b else b)"
    and "length (pg_outbox s) \<le> length (pg_outbox s')"
proof -
  let ?id = "ot_event_id task"
  have "outbox_ok s' \<and> length (pg_outbox s) \<le> length (pg_outbox s') \<and>
    (\<forall>i b. dict_get i (pg_outbox s) = Some b \<longrightarrow> dict_get i (pg_outbox s') =
      Some (if i = ?id \<and> ob_status b = OB_PROCESSING \<and> ot_attempts (ob_task b) = ot_attempts task
            then settled_row d r e now m b else b))"
  proof (cases "dict_get ?id (pg_outbox s)")
    case None
    then show ?thesis using res ok by (auto simp: resolve_outbox_def)
  next
    case (Some b0)
    show ?thesis
    proof (cases "ob_status b0 \<noteq> OB_PROCESSING \<or> ot_attempts (ob_task b0) \<noteq> ot_attempts task")
      case True
      then show ?thesis using res ok Some by (auto simp: resolve_outbox_def)
    next
      case False
      define s1 where "s1 = s\<lparr>pg_outbox := dict_set ?id (settled_row d r e now m b0) (pg_outbox s)\<rparr>"
      have map: "pg_outbox s1 = List.map (\<lambda>(k', v'). (k', if k' = ?id then settled_row d r e now m b0 else v')) (pg_outbox s)"
        using dict_set_map [of "pg_outbox s" ?id] ok Some by (simp add: s1_def outbox_ok_def)
      have ok1: "outbox_ok s1"
      proof -
        have "dict_ok (pg_outbox s1)" using ok by (simp add: s1_def outbox_ok_def)
        moreover have "\<forall>(i, b) \<in> set (pg_outbox s1). ot_event_id (ob_task b) = i"
          using ok outbox_ok_get [OF ok Some] unfolding map by (auto simp: outbox_ok_def)
        ultimately show ?thesis by (simp add: outbox_ok_def)
      qed
      have ext: "outbox_extends s1 s' \<and> outbox_ok s'"
        using res False Some finalize_laws [OF _ ok1] ok1
        by (auto simp: resolve_outbox_def Let_def s1_def split: if_splits)
      have get1: "dict_get i (pg_outbox s1) = (if i = ?id then Some (settled_row d r e now m b0) else dict_get i (pg_outbox s))" for i
        by (simp add: s1_def dict_get_set)
      have "length (pg_outbox s) = length (pg_outbox s1)" by (simp add: map)
      also have "\<dots> \<le> length (pg_outbox s')" using ext by (auto simp: outbox_extends_def)
      finally have "length (pg_outbox s) \<le> length (pg_outbox s')" .
      moreover have "dict_get i (pg_outbox s') =
          Some (if i = ?id \<and> ob_status b = OB_PROCESSING \<and> ot_attempts (ob_task b) = ot_attempts task
            then settled_row d r e now m b else b)" if "dict_get i (pg_outbox s) = Some b" for i b
        using outbox_extends_get [of s1 s' i] ext get1 [of i] that Some False by (cases "i = ?id") simp_all
      ultimately show ?thesis using ext by blast
    qed
  qed
  then show "outbox_ok s'" "length (pg_outbox s) \<le> length (pg_outbox s')"
    and "dict_get i (pg_outbox s) = Some b \<Longrightarrow> dict_get i (pg_outbox s') =
      Some (if i = ot_event_id task \<and> ob_status b = OB_PROCESSING \<and> ot_attempts (ob_task b) = ot_attempts task
            then settled_row d r e now m b else b)" by blast+
qed

lemma write_outbox: "apply_write pg_uow w s = Inr s' \<Longrightarrow> pg_outbox s' = pg_outbox s"
proof (cases w)
  case (W_expire now)
  then show "apply_write pg_uow w s = Inr s' \<Longrightarrow> pg_outbox s' = pg_outbox s" by (auto simp: pg_expire_def)
next
  case (W_save r as k fp cb)
  then show "apply_write pg_uow w s = Inr s' \<Longrightarrow> pg_outbox s' = pg_outbox s"
    by (auto simp: pg_save_reservation_def replace_allocations_def Let_def bind_res_Inr split: if_splits)
next
  case (W_update r)
  then show "apply_write pg_uow w s = Inr s' \<Longrightarrow> pg_outbox s' = pg_outbox s"
    by (auto simp: pg_update_reservation_def Let_def split: if_splits option.splits)
next
  case (W_activate a r as instrs)
  then show "apply_write pg_uow w s = Inr s' \<Longrightarrow> pg_outbox s' = pg_outbox s"
    by (auto simp: pg_save_activation_def bind_res_Inr replace_allocations_def pg_update_reservation_def
        insert_activation_def Let_def split: if_splits option.splits)
qed

section \<open>Histories\<close>

text \<open>
  A step of the database: a claim or a resolution by any worker, for any task and at any time, an
  enqueue, a write of the service, or the passing of time.
\<close>

inductive outbox_step :: "pg \<Rightarrow> pg \<Rightarrow> bool" where
  ob_claim: "outbox_step s (fst (claim_outbox ret now limit lease s))"
| ob_resolve: "resolve_outbox eu task d r e now m s = Inr s' \<Longrightarrow> outbox_step s s'"
| ob_enqueue: "pg_enqueue_outbox task t s = Inr s' \<Longrightarrow> outbox_step s s'"
| ob_write: "apply_write pg_uow w s = Inr s' \<Longrightarrow> outbox_step s s'"
| ob_clock: "outbox_step s (s\<lparr>pg_now := t\<rparr>)"

lemma outbox_step_settled:
  assumes "outbox_step s s'" "outbox_ok s"
  shows "outbox_ok s' \<and> (\<forall>i b. dict_get i (pg_outbox s) = Some b \<longrightarrow>
    (\<exists>b'. dict_get i (pg_outbox s') = Some b' \<and> ot_attempts (ob_task b) \<le> ot_attempts (ob_task b') \<and>
      (settled b \<longrightarrow> b' = b)))"
  using assms
proof cases
  case (ob_claim ret now limit lease)
  have "i \<notin> set (candidates now limit s)" if "dict_get i (pg_outbox s) = Some b" "settled b" for i b
    using candidates_claimable [OF assms(2), of i now limit] settled_not_claimable [OF that(2), of now] that(1) by auto
  then show ?thesis using claim_ok [OF assms(2)] by (auto simp: ob_claim claim_get)
next
  case (ob_resolve eu task d r e now m)
  show ?thesis using resolve_laws [OF ob_resolve assms(2)] by (auto simp: settled_def)
next
  case (ob_enqueue task t)
  show ?thesis using enqueue_laws [OF ob_enqueue assms(2)] outbox_extends_get by blast
next
  case (ob_write w)
  then show ?thesis using write_outbox [OF ob_write] assms(2) by (simp add: outbox_ok_def)
next
  case (ob_clock t)
  then show ?thesis using assms(2) by (simp add: outbox_ok_def)
qed

text \<open>
  C11 outbox_settled_final. Once an outbox task is delivered or dead it stays as it is, whatever
  workers claim and resolve afterwards, late workers with an expired lease included; and no task
  is ever lost or has its attempt counter lowered.
\<close>

theorem outbox_settled_final:
  assumes "outbox_step\<^sup>*\<^sup>* s s'" and "outbox_ok s" and "dict_get i (pg_outbox s) = Some b"
  shows "\<exists>b'. dict_get i (pg_outbox s') = Some b' \<and> ot_attempts (ob_task b) \<le> ot_attempts (ob_task b') \<and>
    (settled b \<longrightarrow> b' = b)"
proof -
  have "outbox_ok s' \<and> (\<exists>b'. dict_get i (pg_outbox s') = Some b' \<and>
      ot_attempts (ob_task b) \<le> ot_attempts (ob_task b') \<and> (settled b \<longrightarrow> b' = b))"
    using assms
  proof (induction rule: rtranclp_induct)
    case (step s1 s2)
    then obtain b1 where b1: "outbox_ok s1" "dict_get i (pg_outbox s1) = Some b1"
      "ot_attempts (ob_task b) \<le> ot_attempts (ob_task b1)" "settled b \<longrightarrow> b1 = b" by blast
    with outbox_step_settled [OF step(2) b1(1)] show ?case by fastforce
  qed auto
  then show ?thesis by blast
qed

section \<open>Every task is settled\<close>

fun run_rounds :: "'b processor \<Rightarrow> nat \<Rightarrow> instant list \<Rightarrow> (outbox_world, backend_error, unit) action" where
  "run_rounds P limit [] w = (w, Inr ())"
| "run_rounds P limit (t # ts) w = act_bind (run_once P t limit) (\<lambda>count. run_rounds P limit ts) w"

text \<open>Rounds at least the longest retry delay apart.\<close>

fun spaced :: "instant list \<Rightarrow> bool" where
  "spaced (t # t' # ts) \<longleftrightarrow> t + seconds 300 \<le> t' \<and> spaced (t' # ts)"
| "spaced _ \<longleftrightarrow> True"

lemma delay_le: "delay_seconds n \<le> 300"
  by (simp add: delay_seconds_def)

lemma deliver_task_pg: "deliver_task P task w = (w1, x) \<Longrightarrow> ow_pg w1 = ow_pg w"
  by (auto simp: deliver_task_def Let_def split: if_splits sum.splits prod.splits acceptor_answer.splits)

lemma process_task_resolves:
  assumes "process_task P t task w = (w', Inr u)"
  obtains d r e where "resolve_outbox (op_event_uuid P) task d r e t (op_max_attempts P) (ow_pg w) = Inr (ow_pg w')"
proof -
  obtain w1 d r e where d: "deliver_task P task w = (w1, d, r, e)" by (metis prod_cases4)
  obtain s where s: "resolve_outbox (op_event_uuid P) task d r e t (op_max_attempts P) (ow_pg w1) = Inr s" "ow_pg w' = s"
    using assms d by (auto simp: process_task_def Let_def record_delivery_def split: if_splits sum.splits)
  show ?thesis using that [of d r e] s deliver_task_pg [OF d] by simp
qed

lemma process_tasks_row:
  assumes "process_tasks P t ts w = (w', Inr u)" "outbox_ok (ow_pg w)" "dict_get i (pg_outbox (ow_pg w)) = Some b"
    "distinct (List.map ot_event_id ts)"
  shows "outbox_ok (ow_pg w') \<and> length (pg_outbox (ow_pg w)) \<le> length (pg_outbox (ow_pg w')) \<and>
    (if \<exists>task \<in> set ts. ot_event_id task = i \<and> ob_status b = OB_PROCESSING \<and> ot_attempts (ob_task b) = ot_attempts task
     then \<exists>d r e. dict_get i (pg_outbox (ow_pg w')) = Some (settled_row d r e t (op_max_attempts P) b)
     else dict_get i (pg_outbox (ow_pg w')) = Some b)"
  using assms
proof (induction ts arbitrary: w b)
  case (Cons task ts)
  obtain w1 where w1: "process_task P t task w = (w1, Inr ())" "process_tasks P t ts w1 = (w', Inr u)"
    using Cons.prems(1) by (auto simp: act_then_eq act_bind_Inr)
  obtain d r e where res: "resolve_outbox (op_event_uuid P) task d r e t (op_max_attempts P) (ow_pg w) = Inr (ow_pg w1)"
    using process_task_resolves [OF w1(1)] .
  note l = resolve_laws [OF res Cons.prems(2)]
  have dist: "distinct (List.map ot_event_id ts)" "ot_event_id task \<notin> ot_event_id ` set ts" using Cons.prems(4) by auto
  show ?case
  proof (cases "i = ot_event_id task \<and> ob_status b = OB_PROCESSING \<and> ot_attempts (ob_task b) = ot_attempts task")
    case True
    then have "dict_get i (pg_outbox (ow_pg w1)) = Some (settled_row d r e t (op_max_attempts P) b)"
      using l(2) [OF Cons.prems(3)] by simp
    note ih = Cons.IH [OF w1(2) l(1) this dist(1)]
    have "\<not> (\<exists>task' \<in> set ts. ot_event_id task' = i \<and> ob_status (settled_row d r e t (op_max_attempts P) b) = OB_PROCESSING \<and>
        ot_attempts (ob_task (settled_row d r e t (op_max_attempts P) b)) = ot_attempts task')"
      using True dist(2) by auto
    with ih have "outbox_ok (ow_pg w') \<and> length (pg_outbox (ow_pg w1)) \<le> length (pg_outbox (ow_pg w')) \<and>
        dict_get i (pg_outbox (ow_pg w')) = Some (settled_row d r e t (op_max_attempts P) b)" by (simp only: if_False)
    then show ?thesis using True l(3) by auto
  next
    case False
    then have "dict_get i (pg_outbox (ow_pg w1)) = Some b" using l(2) [OF Cons.prems(3)] by auto
    note ih = Cons.IH [OF w1(2) l(1) this dist(1)]
    have "(\<exists>task' \<in> set (task # ts). ot_event_id task' = i \<and> ob_status b = OB_PROCESSING \<and> ot_attempts (ob_task b) = ot_attempts task')
        \<longleftrightarrow> (\<exists>task' \<in> set ts. ot_event_id task' = i \<and> ob_status b = OB_PROCESSING \<and> ot_attempts (ob_task b) = ot_attempts task')"
      using False by auto
    then show ?thesis using ih l(3) by (simp only:) auto
  qed
qed auto

lemma claim_tasks:
  assumes "outbox_ok s" "\<And>xs. mset (ret xs) = mset xs"
  shows "distinct (List.map ot_event_id (snd (claim_outbox ret now limit lease s)))"
    and "dict_get i (pg_outbox s) = Some b \<Longrightarrow> i \<in> set (candidates now limit s) \<Longrightarrow>
      ob_task (claim_row (now + seconds lease) b) \<in> set (snd (claim_outbox ret now limit lease s))"
proof -
  let ?ids = "candidates now limit s" and ?u = "now + seconds lease"
  let ?rows = "List.map (\<lambda>(i, b). (i, if i \<in> set ?ids then claim_row ?u b else b)) (pg_outbox s)"
  let ?ts = "List.map (\<lambda>(i, b). ob_task b) (filter (\<lambda>(i, b). i \<in> set ?ids) ?rows)"
  have snd: "mset (snd (claim_outbox ret now limit lease s)) = mset ?ts"
    unfolding claim_outbox_def Let_def snd_conv by (rule assms(2))
  have keys: "List.map ot_event_id ?ts = List.map fst (filter (\<lambda>(i, b). i \<in> set ?ids) (pg_outbox s))"
    using assms(1) unfolding outbox_ok_def
    by (auto simp: filter_map comp_def split_def intro!: map_cong)
  have "distinct (List.map fst (filter (\<lambda>(i, b). i \<in> set ?ids) (pg_outbox s)))"
    using assms(1) by (simp add: outbox_ok_def dict_ok_def distinct_map_filter)
  then have d: "distinct (List.map ot_event_id ?ts)" unfolding keys .
  have m: "mset (List.map ot_event_id (snd (claim_outbox ret now limit lease s))) = mset (List.map ot_event_id ?ts)"
    unfolding mset_map [of ot_event_id] snd ..
  show "distinct (List.map ot_event_id (snd (claim_outbox ret now limit lease s)))"
    by (rule iffD2 [OF mset_eq_imp_distinct_iff [OF m] d])
  assume b: "dict_get i (pg_outbox s) = Some b" "i \<in> set ?ids"
  then have "(i, b) \<in> set (pg_outbox s)" by (simp add: dict_get_Some_in)
  then have "(\<lambda>(i, b). (i, if i \<in> set ?ids then claim_row ?u b else b)) (i, b) \<in> set ?rows"
    unfolding set_map by (rule imageI)
  then have "(i, claim_row ?u b) \<in> set (filter (\<lambda>(i, b). i \<in> set ?ids) ?rows)"
    using b(2) unfolding set_filter by simp
  then have "(\<lambda>(i, b). ob_task b) (i, claim_row ?u b) \<in> set ?ts" unfolding set_map by (rule imageI)
  then have "ob_task (claim_row ?u b) \<in> set ?ts" unfolding prod.case .
  then show "ob_task (claim_row ?u b) \<in> set (snd (claim_outbox ret now limit lease s))"
    unfolding mset_eq_setD [OF snd] .
qed

lemma run_once_row:
  assumes run: "run_once P t limit w = (w', Inr n)" and ok: "outbox_ok (ow_pg w)"
    and perm: "\<And>xs. mset (op_returning P xs) = mset xs" and b: "dict_get i (pg_outbox (ow_pg w)) = Some b"
  shows "outbox_ok (ow_pg w')"
    "settled b \<Longrightarrow> dict_get i (pg_outbox (ow_pg w')) = Some b"
    "claimable t b \<Longrightarrow> length (pg_outbox (ow_pg w)) \<le> limit \<Longrightarrow>
      \<exists>d r e. dict_get i (pg_outbox (ow_pg w')) =
        Some (settled_row d r e t (op_max_attempts P) (claim_row (t + seconds (op_lease_seconds P)) b))"
proof -
  let ?u = "t + seconds (op_lease_seconds P)"
  obtain s tasks where c: "claim_outbox (op_returning P) t limit (op_lease_seconds P) (ow_pg w) = (s, tasks)"
    by (metis surj_pair)
  then have p: "process_tasks P t tasks (w\<lparr>ow_pg := s\<rparr>) = (w', Inr ())"
    using run by (auto simp: run_once_def act_then_eq act_bind_Inr)
  have s: "outbox_ok (ow_pg (w\<lparr>ow_pg := s\<rparr>))" using claim_ok [OF ok, of "op_returning P" t limit "op_lease_seconds P"] c by simp
  have get: "dict_get i (pg_outbox (ow_pg (w\<lparr>ow_pg := s\<rparr>))) =
      Some (if i \<in> set (candidates t limit (ow_pg w)) then claim_row ?u b else b)"
    using claim_get [of i "op_returning P" t limit "op_lease_seconds P" "ow_pg w"] c b by simp
  have dist: "distinct (List.map ot_event_id tasks)"
    using claim_tasks(1) [OF ok perm, of t limit "op_lease_seconds P"] c by simp
  note row = process_tasks_row [OF p s get dist]
  show "outbox_ok (ow_pg w')" using row by simp
  show "dict_get i (pg_outbox (ow_pg w')) = Some b" if st: "settled b"
  proof -
    have "i \<notin> set (candidates t limit (ow_pg w))"
      using candidates_claimable [OF ok, of i t limit] settled_not_claimable [OF st, of t] b by auto
    then show ?thesis using row st by (auto simp: settled_def split: if_splits)
  qed
  show "\<exists>d r e. dict_get i (pg_outbox (ow_pg w')) = Some (settled_row d r e t (op_max_attempts P) (claim_row ?u b))"
    if cl: "claimable t b" and lim: "length (pg_outbox (ow_pg w)) \<le> limit"
  proof -
    have i: "i \<in> set (candidates t limit (ow_pg w))" by (rule candidates_all [OF b cl lim])
    then have t: "ob_task (claim_row ?u b) \<in> set tasks"
      using claim_tasks(2) [OF ok perm b i, of "op_lease_seconds P"] c by simp
    have "ot_event_id (ob_task (claim_row ?u b)) = i" using outbox_ok_get [OF ok b] by simp
    then have "\<exists>task \<in> set tasks. ot_event_id task = i \<and> ob_status (claim_row ?u b) = OB_PROCESSING \<and>
        ot_attempts (ob_task (claim_row ?u b)) = ot_attempts task" using t by (intro bexI [of _ "ob_task (claim_row ?u b)"]) simp_all
    then show ?thesis using row i by (simp only: if_True)
  qed
qed

definition ready :: "instant \<Rightarrow> outbox_row \<Rightarrow> bool" where
  "ready t b \<longleftrightarrow> settled b \<or> claimable t b"

lemma settled_row_cases:
  "settled (settled_row d r e t m b) \<or>
   ob_status (settled_row d r e t m b) = OB_RETRY \<and> ot_attempts (ob_task b) < m \<and>
   ob_available_at (settled_row d r e t m b) \<le> t + seconds 300"
  using delay_le [of "ot_attempts (ob_task b)"] by (auto simp: settled_row_def settled_def Let_def seconds_def)

lemma process_tasks_ok:
  "process_tasks P t ts w = (w', Inr u) \<Longrightarrow> outbox_ok (ow_pg w) \<Longrightarrow>
     outbox_ok (ow_pg w') \<and> length (pg_outbox (ow_pg w)) \<le> length (pg_outbox (ow_pg w'))"
proof (induction ts arbitrary: w)
  case (Cons task ts)
  obtain w1 where w1: "process_task P t task w = (w1, Inr ())" "process_tasks P t ts w1 = (w', Inr u)"
    using Cons.prems(1) by (auto simp: act_then_eq act_bind_Inr)
  obtain d r e where res: "resolve_outbox (op_event_uuid P) task d r e t (op_max_attempts P) (ow_pg w) = Inr (ow_pg w1)"
    using process_task_resolves [OF w1(1)] .
  show ?case using Cons.IH [OF w1(2) resolve_laws(1) [OF res Cons.prems(2)]] resolve_laws(3) [OF res Cons.prems(2)] by simp
qed simp

lemma run_once_ok:
  assumes run: "run_once P t limit w = (w', Inr n)" and ok: "outbox_ok (ow_pg w)"
  shows "outbox_ok (ow_pg w')" "length (pg_outbox (ow_pg w)) \<le> length (pg_outbox (ow_pg w'))"
proof -
  obtain s tasks where c: "claim_outbox (op_returning P) t limit (op_lease_seconds P) (ow_pg w) = (s, tasks)"
    by (metis surj_pair)
  then have p: "process_tasks P t tasks (w\<lparr>ow_pg := s\<rparr>) = (w', Inr ())"
    using run by (auto simp: run_once_def act_then_eq act_bind_Inr)
  have "outbox_ok (ow_pg (w\<lparr>ow_pg := s\<rparr>))" using claim_ok [OF ok, of "op_returning P" t limit "op_lease_seconds P"] c by simp
  moreover have "length (pg_outbox s) = length (pg_outbox (ow_pg w))" using c by (auto simp: claim_outbox_def Let_def)
  ultimately show "outbox_ok (ow_pg w')" "length (pg_outbox (ow_pg w)) \<le> length (pg_outbox (ow_pg w'))"
    using process_tasks_ok [OF p] by simp_all
qed

lemma run_rounds_length:
  "run_rounds P limit ts w = (w', Inr u) \<Longrightarrow> outbox_ok (ow_pg w) \<Longrightarrow>
     length (pg_outbox (ow_pg w)) \<le> length (pg_outbox (ow_pg w'))"
proof (induction ts arbitrary: w)
  case (Cons t ts)
  obtain w1 n where w1: "run_once P t limit w = (w1, Inr n)" "run_rounds P limit ts w1 = (w', Inr u)"
    using Cons.prems(1) by (auto simp: act_then_eq act_bind_Inr)
  show ?case using Cons.IH [OF w1(2) run_once_ok(1) [OF w1(1) Cons.prems(2)]] run_once_ok(2) [OF w1(1) Cons.prems(2)] by simp
qed simp

lemma run_rounds_settle:
  assumes "run_rounds P limit ts w = (w', Inr u)" "outbox_ok (ow_pg w)" "\<And>xs. mset (op_returning P xs) = mset xs"
    "length (pg_outbox (ow_pg w')) \<le> limit" "spaced ts" "dict_get i (pg_outbox (ow_pg w)) = Some b"
    "settled b \<or> ts \<noteq> [] \<and> claimable (hd ts) b \<and> op_max_attempts P \<le> ot_attempts (ob_task b) + int (length ts)"
  shows "\<exists>b'. dict_get i (pg_outbox (ow_pg w')) = Some b' \<and> settled b'"
  using assms
proof (induction ts arbitrary: w b)
  case Nil
  then show ?case by auto
next
  case (Cons t ts)
  obtain w1 n where w1: "run_once P t limit w = (w1, Inr n)" "run_rounds P limit ts w1 = (w', Inr u)"
    using Cons.prems(1) by (auto simp: act_then_eq act_bind_Inr)
  note row = run_once_row [OF w1(1) Cons.prems(2) Cons.prems(3) Cons.prems(6)]
  have sp: "spaced ts" using Cons.prems(5) by (cases ts) auto
  have "\<exists>b1. dict_get i (pg_outbox (ow_pg w1)) = Some b1 \<and>
    (settled b1 \<or> ts \<noteq> [] \<and> claimable (hd ts) b1 \<and> op_max_attempts P \<le> ot_attempts (ob_task b1) + int (length ts))"
  proof (cases "settled b")
    case True
    then show ?thesis using row(2) by blast
  next
    case False
    then have cl: "claimable t b" and left: "op_max_attempts P \<le> ot_attempts (ob_task b) + int (length (t # ts))"
      using Cons.prems(7) by simp_all
    have "length (pg_outbox (ow_pg w)) \<le> limit"
      using run_rounds_length [OF Cons.prems(1,2)] Cons.prems(4) by simp
    from row(3) [OF cl this] obtain d r e where
      b1: "dict_get i (pg_outbox (ow_pg w1)) = Some (settled_row d r e t (op_max_attempts P) (claim_row (t + seconds (op_lease_seconds P)) b))"
      by blast
    let ?c = "claim_row (t + seconds (op_lease_seconds P)) b"
    from settled_row_cases [of d r e t "op_max_attempts P" ?c] show ?thesis
    proof
      assume "settled (settled_row d r e t (op_max_attempts P) ?c)"
      then show ?thesis using b1 by blast
    next
      assume retry: "ob_status (settled_row d r e t (op_max_attempts P) ?c) = OB_RETRY \<and>
        ot_attempts (ob_task ?c) < op_max_attempts P \<and>
        ob_available_at (settled_row d r e t (op_max_attempts P) ?c) \<le> t + seconds 300"
      then have ne: "ts \<noteq> []" using left by auto
      then have "t + seconds 300 \<le> hd ts" using Cons.prems(5) by (cases ts) auto
      then have "claimable (hd ts) (settled_row d r e t (op_max_attempts P) ?c)"
        using retry by (auto simp: claimable_def)
      then show ?thesis using b1 ne left
        by (intro exI [of _ "settled_row d r e t (op_max_attempts P) ?c"] conjI disjI2) simp_all
    qed
  qed
  then obtain b1 where b1: "dict_get i (pg_outbox (ow_pg w1)) = Some b1" "settled b1 \<or> ts \<noteq> [] \<and> claimable (hd ts) b1 \<and>
      op_max_attempts P \<le> ot_attempts (ob_task b1) + int (length ts)" by blast
  show ?case by (rule Cons.IH [OF w1(2) row(1) Cons.prems(3,4) sp b1])
qed


section \<open>Examples\<close>

definition ex_instruction :: instruction where
  "ex_instruction = \<lparr> in_message_id = 1, in_id = 2, in_envelope_id = 3, in_execution_time = 0,
     in_power_constraints_id = ''v'', in_duration = 900000, in_upper_limit = 500, in_lower_limit = 500 \<rparr>"

definition ex_pending :: activation where
  "ex_pending = \<lparr> ac_activation_id = 5, ac_reservation_id = 1, ac_correlation_id = 2, ac_status = ACT_PENDING,
     ac_instruction_count = 2, ac_accepted_instruction_count = 0, ac_rejected_instruction_count = 0,
     ac_created_at = 0, ac_completed_at = None \<rparr>"

definition ex_task :: "nat \<Rightarrow> outbox_task" where
  "ex_task k = \<lparr> ot_event_id = 10 + k, ot_kind = RESOURCE, ot_destination = ''a'',
     ot_event_type = ''pebc.instruction'', ot_payload = Instruction_payload ex_instruction, ot_attempts = 0,
     ot_activation_id = 5, ot_reservation_id = 1, ot_allocation_index = Some (int k) \<rparr>"

definition ex_outbox_pg :: pg where
  "ex_outbox_pg = projr (bind_res (run_writes pg_uow
       [W_save (ex_booking 1) ex_allocs ''T:k'' ''f'' (Some ''u''),
        W_activate ex_pending ((ex_booking 1)\<lparr>r_status := ACTIVATED\<rparr>) ex_allocs [ex_instruction, ex_instruction]] pg_new)
     (\<lambda>s. bind_res (pg_enqueue_outbox (ex_task 0) 0 s) (pg_enqueue_outbox (ex_task 1) 0)))"

text \<open>A receiver that fails once, and then takes the first instruction and refuses the second.\<close>

definition ex_processor :: "string processor" where
  "ex_processor = \<lparr> op_dispatcher = \<lparr> wc_encode = (\<lambda>_. ''''), wc_hmac = (\<lambda>_. ''''), wc_max_attempts = 3,
       wc_sender = (\<lambda>n url body hs. Status 200) \<rparr>,
     op_acceptor = (\<lambda>n rid p. if n = 0 then Raises ''timeout'' else Answers (n = 2)), op_max_attempts = 2,
     op_lease_seconds = 30, op_event_text = str_of_nat, op_event_uuid = (\<lambda>aid suffix. 1000 + aid),
     op_returning = (\<lambda>xs. xs) \<rparr>"

definition ex_outbox_world :: outbox_world where
  "ex_outbox_world = \<lparr> ow_pg = ex_outbox_pg, ow_webhooks = \<lparr>wh_calls = 0, wh_deliveries = []\<rparr>, ow_handed_out = [] \<rparr>"

definition ex_rounds :: outbox_world where
  "ex_rounds = fst (run_rounds ex_processor 10 [0, seconds 300] ex_outbox_world)"

lemma ex_outbox_ok: "outbox_ok ex_outbox_pg"
  unfolding outbox_ok_def dict_ok_def by code_simp

lemma ex_rounds_run: "run_rounds ex_processor 10 [0, seconds 300] ex_outbox_world = (ex_rounds, Inr ())"
  unfolding ex_rounds_def by code_simp


theorem outbox_settled_final_witness:
  "\<exists>b'. dict_get 10 (pg_outbox (fst (claim_outbox (\<lambda>xs. xs) (seconds 900) 10 30 (ow_pg ex_rounds)))) = Some b' \<and>
     ob_status b' = OB_DELIVERED"
proof -
  define b where "b = the (dict_get 10 (pg_outbox (ow_pg ex_rounds)))"
  have b: "dict_get 10 (pg_outbox (ow_pg ex_rounds)) = Some b" "settled b" "ob_status b = OB_DELIVERED"
    unfolding b_def by code_simp+
  have ok: "outbox_ok (ow_pg ex_rounds)" unfolding outbox_ok_def dict_ok_def by code_simp
  have "outbox_step\<^sup>*\<^sup>* (ow_pg ex_rounds) (fst (claim_outbox (\<lambda>xs. xs) (seconds 900) 10 30 (ow_pg ex_rounds)))"
    by (rule r_into_rtranclp) (rule ob_claim)
  from outbox_settled_final [OF this ok b(1)] show ?thesis using b by auto
qed

end
