(* ===== verification/DurableActivation.thy ===== *)
theory DurableActivation
  imports Outbox ReservationProps
begin

text \<open>
  Activation over a durable outbox, \<open>_activate_durable\<close> of \<open>reservations/service.py\<close>: one
  transaction that saves a pending activation with its instructions and enqueues the messages to
  send, then draining the outbox.
\<close>

section \<open>The transaction\<close>

definition pending_activation :: "uuid \<Rightarrow> reservation \<Rightarrow> (allocation \<times> instruction) list \<Rightarrow> instant \<Rightarrow> activation" where
  "pending_activation aid r pairs now = \<lparr> ac_activation_id = aid, ac_reservation_id = r_reservation_id r,
     ac_correlation_id = r_correlation_id r, ac_status = ACT_PENDING, ac_instruction_count = int (length pairs),
     ac_accepted_instruction_count = 0, ac_rejected_instruction_count = 0, ac_created_at = now,
     ac_completed_at = None \<rparr>"

definition webhook_task :: "(uuid \<Rightarrow> string \<Rightarrow> uuid) \<Rightarrow> uuid \<Rightarrow> reservation \<Rightarrow> string \<Rightarrow> string \<Rightarrow> outbox_task" where
  "webhook_task eu aid r callback_url event = \<lparr> ot_event_id = eu aid (''webhook:'' @ event), ot_kind = WEBHOOK,
     ot_destination = callback_url, ot_event_type = event, ot_payload = Reservation_payload r, ot_attempts = 0,
     ot_activation_id = aid, ot_reservation_id = r_reservation_id r, ot_allocation_index = None \<rparr>"

definition resource_task ::
    "(uuid \<Rightarrow> string \<Rightarrow> uuid) \<Rightarrow> uuid \<Rightarrow> reservation \<Rightarrow> nat \<times> allocation \<times> instruction \<Rightarrow> outbox_task" where
  "resource_task eu aid r p = \<lparr> ot_event_id = eu aid (''resource:'' @ str_of_nat (fst p)), ot_kind = RESOURCE,
     ot_destination = al_resource_id (fst (snd p)), ot_event_type = ''pebc.instruction'',
     ot_payload = Instruction_payload (snd (snd p)), ot_attempts = 0, ot_activation_id = aid,
     ot_reservation_id = r_reservation_id r, ot_allocation_index = Some (int (fst p)) \<rparr>"

definition activation_tasks ::
    "(uuid \<Rightarrow> string \<Rightarrow> uuid) \<Rightarrow> uuid \<Rightarrow> reservation \<Rightarrow> string option \<Rightarrow> (allocation \<times> instruction) list
     \<Rightarrow> outbox_task list" where
  "activation_tasks eu aid r callback_url pairs =
     (if truthy callback_url
      then List.map (webhook_task eu aid r (the callback_url)) [''activation.accepted'', ''activation.started''] else [])
     @ List.map (resource_task eu aid r) (enumerate 0 pairs)"

fun enqueue_all :: "'s uow \<Rightarrow> instant \<Rightarrow> outbox_task list \<Rightarrow> ('s, service_error, unit) action" where
  "enqueue_all U now [] s = (s, Inr ())"
| "enqueue_all U now (t # ts) s =
     act_then (act_write Backend_error (u_enqueue_outbox U t now)) (enqueue_all U now ts) s"

definition activated_reservation :: "reservation \<Rightarrow> reservation" where
  "activated_reservation r = r\<lparr>r_status := ACTIVATED\<rparr>"

definition save_pending ::
    "'s uow \<Rightarrow> 'b collaborators \<Rightarrow> (uuid \<Rightarrow> string \<Rightarrow> uuid) \<Rightarrow> uuid \<Rightarrow> instant \<Rightarrow> uuid \<Rightarrow> reservation
     \<Rightarrow> ('s, service_error, uuid) action" where
  "save_pending U C eu aid now i r =
     (if r_status r \<noteq> CONFIRMED then act_raise ReservationStateConflict
      else act_bind (act_get (u_get_allocations U i)) (\<lambda>as. case as of
        Inl e \<Rightarrow> act_raise (Backend_error e)
      | Inr as \<Rightarrow> act_bind (act_lift (build_pairs C r 0 as)) (\<lambda>pairs.
          act_then (act_write Backend_error
              (u_save_activation U (pending_activation aid r pairs now) (activated_reservation r) as (List.map snd pairs)))
            (act_bind (act_get (u_callback_url U i)) (\<lambda>callback_url.
              act_then (enqueue_all U now (activation_tasks eu aid (activated_reservation r) callback_url pairs))
                (act_return aid))))))"

definition activate_tx ::
    "'s uow \<Rightarrow> 'b collaborators \<Rightarrow> (uuid \<Rightarrow> string \<Rightarrow> uuid) \<Rightarrow> uuid \<Rightarrow> instant \<Rightarrow> uuid
     \<Rightarrow> ('s, service_error, uuid) action" where
  "activate_tx U C eu aid now i =
     transact U (act_bind (act_get (u_activation_for_reservation U i)) (\<lambda>existing. case existing of
       Some a \<Rightarrow> act_return (ac_activation_id a)
     | None \<Rightarrow> act_then (act_modify (u_expire U now))
         (act_bind (find_reservation U i) (save_pending U C eu aid now i))))"

section \<open>With the drained outbox\<close>

definition on_pg :: "(pg, 'e, 'a) action \<Rightarrow> (outbox_world, 'e, 'a) action" where
  "on_pg m w = (case m (ow_pg w) of (s, r) \<Rightarrow> (w\<lparr>ow_pg := s\<rparr>, r))"

definition drained :: "'b processor \<Rightarrow> (nat \<Rightarrow> instant) \<Rightarrow> (outbox_world, service_error, nat) action" where
  "drained P clock w = (case drain P clock 10 0 w of
     (w', Inl e) \<Rightarrow> (w', Inl (Backend_error e)) | (w', Inr n) \<Rightarrow> (w', Inr n))"

definition activate_durable ::
    "'b collaborators \<Rightarrow> 'b processor \<Rightarrow> bool \<Rightarrow> uuid \<Rightarrow> instant \<Rightarrow> (nat \<Rightarrow> instant) \<Rightarrow> uuid
     \<Rightarrow> (outbox_world, service_error, activation) action" where
  "activate_durable C P process_outbox_on_activate aid now clock i =
     act_bind (on_pg (activate_tx pg_uow C (op_event_uuid P) aid now i)) (\<lambda>activation_id.
       act_then (if process_outbox_on_activate then drained P clock else act_return 0)
         (on_pg (get_activation pg_uow activation_id)))"

section \<open>What the transaction does\<close>

text \<open>A backend that keeps the ledger while it enqueues.\<close>

locale durable_backend = ledger_backend +
  assumes enqueue: "inv s \<Longrightarrow> u_enqueue_outbox U task t s = Inr s' \<Longrightarrow> inv s' \<and> abs s' = abs s"
    and durable: "u_rolls_back U"
begin

lemma enqueue_all_abs:
  "inv s \<Longrightarrow> enqueue_all U now ts s = (s', Inr u) \<Longrightarrow> inv s' \<and> abs s' = abs s"
proof (induction ts arbitrary: s)
  case (Cons t ts)
  then obtain s1 where s1: "u_enqueue_outbox U t now s = Inr s1" "enqueue_all U now ts s1 = (s', Inr u)"
    by (auto simp: act_then_eq act_bind_Inr act_write_Inr)
  show ?case using enqueue [OF Cons.prems(1) s1(1)] Cons.IH [OF _ s1(2)] by simp
qed simp

definition pending :: "'b collaborators \<Rightarrow> (uuid \<Rightarrow> string \<Rightarrow> uuid) \<Rightarrow> uuid \<Rightarrow> instant \<Rightarrow> uuid \<Rightarrow> 'a \<Rightarrow> 'a \<Rightarrow> bool" where
  "pending C eu aid now i s s' \<longleftrightarrow> (\<exists>r pairs s1.
     l_reservation (ledger_expire now (abs s)) i = Some r \<and> r_status r = CONFIRMED \<and>
     build_pairs C r 0 (l_allocations (abs s) i) = Inr pairs \<and>
     u_save_activation U (pending_activation aid r pairs now) (activated_reservation r) (l_allocations (abs s) i)
       (List.map snd pairs) (u_expire U now s) = Inr s1 \<and>
     enqueue_all U now (activation_tasks eu aid (activated_reservation r) (l_callback (abs s) i) pairs) s1 = (s', Inr ()) \<and>
     inv s' \<and> abs s' = ledger_activate (pending_activation aid r pairs now) (activated_reservation r)
       (l_allocations (abs s) i) (List.map snd pairs) (ledger_expire now (abs s)))"

lemma activate_tx_cases:
  assumes inv: "inv s" and fresh: "l_activation (abs s) aid = None"
    and run: "activate_tx U C eu aid now i s = (s', out)"
  obtains (existing) a where "l_activation_of (abs s) i = Some a" "out = Inr (ac_activation_id a)" "s' = s"
  | (failed) e where "l_activation_of (abs s) i = None" "out = Inl e" "s' = s"
  | (pending) "l_activation_of (abs s) i = None" "out = Inr aid" "pending C eu aid now i s s'"
proof (cases "l_activation_of (abs s) i")
  case (Some a)
  then have u: "u_activation_for_reservation U i s = Some a" using activation_for [OF inv, of i] by simp
  have "activate_tx U C eu aid now i s = (s, Inr (ac_activation_id a))"
    by (simp add: activate_tx_def transact_def u)
  then show ?thesis using run that(1) [OF Some] by simp
next
  case None
  show ?thesis
  proof (cases out)
    case (Inl e)
    then have "s' = s" using run durable
      by (auto simp: activate_tx_def transact_def split: prod.splits sum.splits)
    then show ?thesis using that(2) None Inl by blast
  next
    case (Inr x)
    let ?s1 = "u_expire U now s"
    have e: "inv ?s1" "abs ?s1 = ledger_expire now (abs s)" using expire [OF inv] by blast+
    have u: "u_activation_for_reservation U i s = None" using None activation_for [OF inv, of i] by simp
    have "transact U (act_then (act_modify (u_expire U now)) (act_bind (find_reservation U i) (save_pending U C eu aid now i))) s = (s', Inr x)"
      using run Inr by (simp add: activate_tx_def transact_def u)
    then have body: "act_bind (find_reservation U i) (save_pending U C eu aid now i) ?s1 = (s', Inr x)"
      by (simp add: transact_def act_then_eq split: prod.splits sum.splits)
    obtain r where r: "l_reservation (abs ?s1) i = Some r" and sp: "save_pending U C eu aid now i r ?s1 = (s', Inr x)"
      using body unfolding act_bind_Inr find_reservation_run [OF e(1)] by (auto split: option.splits)
    have id: "r_reservation_id r = i" and ok: "allocs_ok (l_allocations (abs ?s1) i)" using ids [OF e(1) r] by blast+
    have al2: "l_allocations (abs ?s1) i = l_allocations (abs s) i" by (simp add: e(2) ledger_expire_def)
    have "l_reservation (abs ?s1) i \<noteq> None" using r by simp
    from get_allocations [OF e(1) this] have al: "u_get_allocations U i ?s1 = Inr (l_allocations (abs s) i)"
      unfolding al2 .
    obtain pairs s2 cb where st: "r_status r = CONFIRMED"
      and pairs: "build_pairs C r 0 (l_allocations (abs s) i) = Inr pairs"
      and sv: "u_save_activation U (pending_activation aid r pairs now) (activated_reservation r)
        (l_allocations (abs s) i) (List.map snd pairs) ?s1 = Inr s2"
      and cb: "cb = u_callback_url U i s2"
      and enq: "enqueue_all U now (activation_tasks eu aid (activated_reservation r) cb pairs) s2 = (s', Inr ())"
      and x: "x = aid"
      using sp by (auto simp: save_pending_def act_bind_Inr act_then_eq act_write_Inr al split: if_splits)
    have s2: "inv s2 \<and> abs s2 = ledger_activate (pending_activation aid r pairs now) (activated_reservation r)
        (l_allocations (abs s) i) (List.map snd pairs) (abs ?s1)"
    proof (rule save_activation [OF e(1) _ _ _ _ _ _ sv])
      show "l_reservation (abs ?s1) (r_reservation_id (activated_reservation r)) = Some r"
        using r id by (simp add: activated_reservation_def)
      show "same_booking r (activated_reservation r)" by (simp add: activated_reservation_def)
      show "l_activation_of (abs ?s1) (r_reservation_id (activated_reservation r)) = None"
        using None id by (simp add: activated_reservation_def e(2) ledger_expire_def)
      show "l_activation (abs ?s1) (ac_activation_id (pending_activation aid r pairs now)) = None"
        using fresh by (simp add: pending_activation_def e(2) ledger_expire_def)
      show "ac_reservation_id (pending_activation aid r pairs now) = r_reservation_id (activated_reservation r)"
        by (simp add: pending_activation_def activated_reservation_def)
      show "allocs_ok (l_allocations (abs s) i)" using ok al2 by simp
    qed
    have "l_reservation (abs s2) i \<noteq> None" using s2 id by (simp add: ledger_activate_def activated_reservation_def)
    then have "cb = l_callback (abs s) i"
      using callback_url [of s2 i] s2 cb by (simp add: ledger_activate_def e(2) ledger_expire_def)
    then have "pending C eu aid now i s s'"
      unfolding pending_def using r st pairs sv enq enqueue_all_abs [OF _ enq] s2 e(2)
      by (intro exI [of _ r] exI [of _ pairs] exI [of _ s2]) auto
    then show ?thesis using that(3) None Inr x by simp
  qed
qed

end

lemma pg_enqueue_frame:
  assumes "pg_enqueue_outbox task t s = Inr s'"
  shows "\<exists>rows. s' = s\<lparr>pg_outbox := rows\<rparr>"
proof -
  have "s' = s \<or> (\<exists>rows. s' = s\<lparr>pg_outbox := rows\<rparr>)"
    using assms by (auto simp: pg_enqueue_outbox_def Let_def split: if_splits)
  moreover have "s = s\<lparr>pg_outbox := pg_outbox s\<rparr>" by simp
  ultimately show ?thesis by metis
qed

lemma pg_outbox_irrelevant: "pg_abs (s\<lparr>pg_outbox := rows\<rparr>) = pg_abs s" "pg_inv (s\<lparr>pg_outbox := rows\<rparr>) = pg_inv s"
  by (simp_all add: pg_abs_def pg_inv_def pg_get_reservation_def pg_get_idempotency_def pg_callback_url_def
      pg_activation_for_reservation_def pg_get_activation_def)

interpretation pg_durable: durable_backend pg_uow pg_abs pg_inv
proof unfold_locales
  fix s task t s' assume "pg_inv s" "u_enqueue_outbox pg_uow task t s = Inr s'"
  then show "pg_inv s' \<and> pg_abs s' = pg_abs s"
    using pg_enqueue_frame [of task t s s'] by (auto simp: pg_outbox_irrelevant)
qed simp

definition new_row :: "pg \<Rightarrow> instant \<Rightarrow> outbox_task \<Rightarrow> uuid \<times> outbox_row" where
  "new_row s now t = (ot_event_id t, \<lparr> ob_task = t, ob_status = OB_PENDING, ob_available_at = now,
     ob_locked_until = None, ob_created_at = pg_now s, ob_delivered_at = None, ob_last_error = None \<rparr>)"

lemma enqueue_all_rows:
  assumes "enqueue_all pg_uow now ts s = (s', Inr u)" "distinct (List.map ot_event_id ts)"
    "\<forall>t \<in> set ts. dict_get (ot_event_id t) (pg_outbox s) = None \<and> ot_attempts t = 0"
  shows "pg_outbox s' = pg_outbox s @ List.map (new_row s now) ts"
  using assms
proof (induction ts arbitrary: s)
  case (Cons t ts)
  obtain s1 where s1: "pg_enqueue_outbox t now s = Inr s1" "enqueue_all pg_uow now ts s1 = (s', Inr u)"
    using Cons.prems(1) by (auto simp: act_then_eq act_bind_Inr act_write_Inr)
  have t0: "t\<lparr>ot_attempts := 0\<rparr> = t" using Cons.prems(3) by simp
  have s1': "s1 = s\<lparr>pg_outbox := pg_outbox s @ [new_row s now t]\<rparr>"
    using s1(1) Cons.prems(3) by (auto simp: pg_enqueue_outbox_def new_row_def Let_def t0 split: if_splits)
  have row: "new_row (s\<lparr>pg_outbox := rows\<rparr>) = new_row s" for rows by (simp add: new_row_def fun_eq_iff)
  have fst: "fst (new_row s now t) = ot_event_id t" by (simp add: new_row_def)
  have "\<forall>t' \<in> set ts. dict_get (ot_event_id t') (pg_outbox s1) = None \<and> ot_attempts t' = 0"
  proof
    fix t' assume t': "t' \<in> set ts"
    have "ot_event_id t' \<noteq> ot_event_id t" using Cons.prems(2) t' by (auto simp: image_iff)
    moreover have "dict_get (ot_event_id t') (pg_outbox s) = None" "ot_attempts t' = 0" using Cons.prems(3) t' by auto
    ultimately show "dict_get (ot_event_id t') (pg_outbox s1) = None \<and> ot_attempts t' = 0"
      using fst by (cases "new_row s now t") (simp add: s1' dict_get_snoc)
  qed
  then have "pg_outbox s' = pg_outbox s1 @ List.map (new_row s1 now) ts"
    using Cons.IH [OF s1(2)] Cons.prems(2) by simp
  then show ?case by (simp add: row s1')
qed simp

lemma activation_tasks_ids:
  assumes "inj (eu aid)"
  shows "distinct (List.map ot_event_id (activation_tasks eu aid r cb pairs))"
    "\<forall>t \<in> set (activation_tasks eu aid r cb pairs). ot_attempts t = 0 \<and> (\<exists>x. ot_event_id t = eu aid x)"
proof -
  have eq: "eu aid x = eu aid y \<longleftrightarrow> x = y" for x y using assms by (auto dest: injD)
  have "List.map ot_event_id (List.map (resource_task eu aid r) (enumerate n pairs))
      = List.map (\<lambda>k. eu aid (''resource:'' @ str_of_nat k)) [n..<n + length pairs]" for n
    by (induction pairs arbitrary: n) (simp_all add: resource_task_def enumerate_simps upt_conv_Cons del: upt_Suc)
  then have *: "List.map ot_event_id (List.map (resource_task eu aid r) (enumerate 0 pairs))
      = List.map (\<lambda>k. eu aid (''resource:'' @ str_of_nat k)) [0..<length pairs]" by simp
  have "distinct (List.map (\<lambda>k. eu aid (''resource:'' @ str_of_nat k)) [0..<length pairs])"
    by (simp add: distinct_map inj_on_def eq)
  then show "distinct (List.map ot_event_id (activation_tasks eu aid r cb pairs))"
    unfolding activation_tasks_def map_append distinct_append * by (auto simp: webhook_task_def eq)
  show "\<forall>t \<in> set (activation_tasks eu aid r cb pairs). ot_attempts t = 0 \<and> (\<exists>x. ot_event_id t = eu aid x)"
    by (auto simp: activation_tasks_def webhook_task_def resource_task_def)
qed


section \<open>Example\<close>

fun string_code :: "string \<Rightarrow> nat" where
  "string_code [] = 0"
| "string_code (c # cs) = Suc (of_char c + 256 * string_code cs)"

lemma of_char_bound: "(of_char c :: nat) < 256"
  using nat_of_char_less_256 [of c] by simp

lemma string_code_inject: "string_code xs = string_code ys \<Longrightarrow> xs = ys"
proof (induction xs arbitrary: ys)
  case Nil
  then show ?case by (cases ys) simp_all
next
  case (Cons c cs)
  then obtain d ds where ys: "ys = d # ds" by (cases ys) simp_all
  have eq: "(of_char c :: nat) + 256 * string_code cs = of_char d + 256 * string_code ds" using Cons.prems ys by simp
  have "(of_char c :: nat) = of_char d" "string_code cs = string_code ds"
  proof -
    have "(of_char c :: nat) = (of_char c + 256 * string_code cs) mod 256" using of_char_bound [of c] by simp
    also have "\<dots> = of_char d" unfolding eq using of_char_bound [of d] by simp
    finally show "(of_char c :: nat) = of_char d" .
    then show "string_code cs = string_code ds" using eq by simp
  qed
  then show ?case using Cons.IH ys by simp
qed

definition ex_event_uuid :: "uuid \<Rightarrow> string \<Rightarrow> uuid" where
  "ex_event_uuid aid x =
     (if x = ''webhook:activation.accepted'' then 0 else if x = ''webhook:activation.started'' then 1
      else if x = ''resource:0'' then 2 else if x = ''resource:1'' then 3 else if x = ''resource:2'' then 4
      else 5 + string_code x)"

definition ex_collaborators :: "string collaborators" where
  "ex_collaborators = \<lparr> c_dispatcher = op_dispatcher ex_processor, c_acceptor = (\<lambda>n rid i. Accepted),
     c_parses = (\<lambda>_. True), c_ids = (\<lambda>n. (3 * n, 3 * n + 1, 3 * n + 2)) \<rparr>"

definition ex_booked_pg :: pg where
  "ex_booked_pg = projr (run_writes pg_uow
     [W_save ((ex_booking 1)\<lparr>r_expires_at := minutes 5\<rparr>) ex_allocs ''T:k'' ''f'' (Some ''u'')] pg_new)"

definition ex_activated_pg :: pg where
  "ex_activated_pg = fst (activate_tx pg_uow ex_collaborators ex_event_uuid 5 0 1 ex_booked_pg)"


end
