(* ===== verification/PgProps.thy ===== *)
theory PgProps
  imports DurableActivation
begin

text \<open>
  The settled outcome of a durable activation, and where the PostgreSQL backend and the in-memory
  backend part ways.
\<close>

section \<open>Finishing an activation\<close>

lemma truthy_enqueue_frame:
  "enqueue_finished eu a cb now s = Inr s' \<Longrightarrow> \<exists>rows. s' = s\<lparr>pg_outbox := rows\<rparr>"
proof -
  assume "enqueue_finished eu a cb now s = Inr s'"
  then have "s' = s \<or> (\<exists>task. pg_enqueue_outbox task now s = Inr s')"
    by (auto simp: enqueue_finished_def split: if_splits)
  moreover have "s = s\<lparr>pg_outbox := pg_outbox s\<rparr>" by simp
  ultimately show "\<exists>rows. s' = s\<lparr>pg_outbox := rows\<rparr>" using pg_enqueue_frame by metis
qed

text \<open>
  C9 activation_settles_reservation. When the last resource task of a pending activation is settled,
  the activation is completed, or failed when a resource refused; its accepted and rejected
  instructions add up to all of them; the reservation gets the same outcome with the power of the
  accepted allocations, and of its allocations exactly the accepted ones remain.
\<close>

theorem activation_settles_reservation:
  assumes fin: "finalize_activation eu aid now s = Inr s'"
    and a: "dict_get aid (pg_activations s) = Some a" "ac_activation_id a = aid" "ac_status a = ACT_PENDING"
    and row: "dict_get (ac_reservation_id a) (pg_reservations s) = Some row"
    and tasks: "resource_tasks aid s \<noteq> []" "list_all settled (resource_tasks aid s)"
  shows "\<exists>a' row'. dict_get aid (pg_activations s') = Some a' \<and>
      dict_get (ac_reservation_id a) (pg_reservations s') = Some row' \<and>
      ac_accepted_instruction_count a' + ac_rejected_instruction_count a' = ac_instruction_count a \<and>
      ac_accepted_instruction_count a' = int (length (accepted_indices (resource_tasks aid s))) \<and>
      (if list_all (\<lambda>b. ob_status b = OB_DELIVERED) (resource_tasks aid s)
       then ac_status a' = ACT_COMPLETED \<and> r_status (rr_value row') = COMPLETED
       else ac_status a' = ACT_FAILED \<and> r_status (rr_value row') = FAILED) \<and>
      r_allocated_power_kw (rr_value row') = accepted_power (ac_reservation_id a) (accepted_indices (resource_tasks aid s)) s \<and>
      pg_allocations s' = filter (\<lambda>row. fst (fst row) \<noteq> ac_reservation_id a \<or>
        int (snd (fst row)) \<in> set (accepted_indices (resource_tasks aid s))) (pg_allocations s)"
proof -
  let ?i = "ac_reservation_id a" and ?ts = "resource_tasks aid s"
  let ?b = "finished_row ?ts now a" and ?ks = "accepted_indices ?ts"
  let ?kw = "accepted_power ?i ?ks s"
  have st: "\<not> ac_status a \<noteq> ACT_PENDING" using a(3) by simp
  have nb: "\<not> (?ts = [] \<or> (\<exists>b \<in> set ?ts. ob_status b \<notin> {OB_DELIVERED, OB_DEAD}))"
    using tasks by (auto simp: list_all_iff settled_def)
  have "bind_res (write_activation ?b s) (\<lambda>s1. bind_res (write_result ?i (result_status ?b) ?kw s1) (\<lambda>s2.
     enqueue_finished eu ?b (rr_callback_url row) now (delete_rejected ?i ?ks s2))) = Inr s'"
    using fin unfolding finalize_activation_def a(1) row option.case Let_def if_not_P [OF st] if_not_P [OF nb] .
  then obtain s1 s2 where f: "write_activation ?b s = Inr s1" "write_result ?i (result_status ?b) ?kw s1 = Inr s2"
      "enqueue_finished eu ?b (rr_callback_url row) now (delete_rejected ?i ?ks s2) = Inr s'"
    unfolding bind_res_Inr by blast
  obtain rows where s': "s' = (delete_rejected ?i ?ks s2)\<lparr>pg_outbox := rows\<rparr>"
    using truthy_enqueue_frame [OF f(3)] by blast
  have s1: "s1 = s\<lparr>pg_activations := dict_set aid ?b (pg_activations s)\<rparr>" and chk: "activation_check ?b"
    using f(1) a(2) by (auto simp: write_activation_def finished_row_def Let_def split: if_splits)
  let ?row' = "row\<lparr>rr_value := (rr_value row)\<lparr>r_status := result_status ?b, r_allocated_power_kw := ?kw\<rparr>\<rparr>"
  have s2: "s2 = s1\<lparr>pg_reservations := dict_set ?i ?row' (pg_reservations s)\<rparr>"
    using f(2) row by (auto simp: write_result_def s1 Let_def split: if_splits)
  have len: "length ?ks \<le> length ?ts" by (simp add: accepted_indices_def)
  have all: "int (length ?ts) - int (length ?ks) = 0 \<longleftrightarrow> list_all (\<lambda>b. ob_status b = OB_DELIVERED) ?ts"
    using length_filter_less [of _ ?ts "\<lambda>b. ob_status b = OB_DELIVERED"]
    by (fastforce simp: accepted_indices_def list_all_iff filter_id_conv)
  show ?thesis
    using chk all by (intro exI [of _ ?b] exI [of _ ?row'])
      (simp add: s' delete_rejected_def s2 s1 activation_check_def finished_row_def result_status_def Let_def)
qed

definition ex_settled_pg :: pg where
  "ex_settled_pg = ex_outbox_pg\<lparr>pg_outbox := List.map (\<lambda>(i, b).
     (i, b\<lparr>ob_status := (if i = 10 then OB_DELIVERED else OB_DEAD)\<rparr>)) (pg_outbox ex_outbox_pg)\<rparr>"

theorem activation_settles_reservation_witness:
  "\<exists>a' row'. dict_get 5 (pg_activations (projr (finalize_activation (\<lambda>aid x. 100) 5 7 ex_settled_pg))) = Some a' \<and>
     dict_get 1 (pg_reservations (projr (finalize_activation (\<lambda>aid x. 100) 5 7 ex_settled_pg))) = Some row' \<and>
     ac_status a' = ACT_FAILED \<and> ac_accepted_instruction_count a' = 1 \<and> r_status (rr_value row') = FAILED"
proof -
  have fin: "finalize_activation (\<lambda>aid x. 100) 5 7 ex_settled_pg = Inr (projr (finalize_activation (\<lambda>aid x. 100) 5 7 ex_settled_pg))"
    by code_simp
  have a: "dict_get 5 (pg_activations ex_settled_pg) = Some ex_pending" by code_simp
  define row where "row = the (dict_get 1 (pg_reservations ex_settled_pg))"
  have row: "dict_get (ac_reservation_id ex_pending) (pg_reservations ex_settled_pg) = Some row"
    unfolding row_def by code_simp
  have t: "resource_tasks 5 ex_settled_pg \<noteq> []" "list_all settled (resource_tasks 5 ex_settled_pg)"
    "\<not> list_all (\<lambda>b. ob_status b = OB_DELIVERED) (resource_tasks 5 ex_settled_pg)"
    "length (accepted_indices (resource_tasks 5 ex_settled_pg)) = 1" by code_simp+
  have p: "ac_activation_id ex_pending = 5" "ac_status ex_pending = ACT_PENDING" "ac_reservation_id ex_pending = 1"
    by (simp_all add: ex_pending_def)
  from activation_settles_reservation [OF fin a p(1,2) row t(1,2)]
  show ?thesis unfolding p(3) if_not_P [OF t(3)] t(4) by auto
qed

section \<open>Sums that round differently\<close>

text \<open>
  Tenths of a kilowatt, as binary64 numbers.
\<close>

definition kw :: "int \<Rightarrow> rat" where
  "kw n = rnd64 (of_int n / 10)"

definition ex_small_offer :: "string \<Rightarrow> int \<Rightarrow> offer" where
  "ex_small_offer rid n = (ex_offer rid 1)\<lparr>o_upward_capacity_kw := kw n\<rparr>"

definition ex_small_store :: "offer list \<Rightarrow> offer_store" where
  "ex_small_store fs = run_store ex_store (List.map Op_upsert fs)"

definition ex_small_request :: "int \<Rightarrow> request" where
  "ex_small_request n = ex_request\<lparr>rq_power_kw := Fin (kw n)\<rparr>"


text \<open>A receiver that takes every instruction.\<close>

definition ex_taking_processor :: "string processor" where
  "ex_taking_processor = ex_processor\<lparr>op_acceptor := (\<lambda>n rid p. Answers True), op_event_uuid := ex_event_uuid\<rparr>"

definition ex_sixth_pg :: pg where
  "ex_sixth_pg = fst (activate_tx pg_uow ex_collaborators ex_event_uuid 5 (- 1) 7
     (fst (create pg_uow (store_env ex_fp (ex_small_store [ex_small_offer ''a'' 1, ex_small_offer ''b'' 2, ex_small_offer ''c'' 3]))
        7 8 ''k'' ((ex_small_request 6)\<lparr>rq_callback_url := None\<rparr>) (- 1) pg_new)))"

definition ex_sixth_world :: outbox_world where
  "ex_sixth_world = \<lparr> ow_pg = ex_sixth_pg, ow_webhooks = \<lparr>wh_calls = 0, wh_deliveries = []\<rparr>, ow_handed_out = [] \<rparr>"

text \<open>Two batches, the second when the lease of the first has run out.\<close>

definition ex_two_batches :: "(backend_error + nat) list \<times> nat list" where
  "ex_two_batches = (case run_once ex_taking_processor 0 100 ex_sixth_world of (w1, r1) \<Rightarrow>
     (case run_once ex_taking_processor (seconds 30) 100 w1 of (w2, r2) \<Rightarrow>
        ([r1, r2], [length (ow_handed_out w1), length (ow_handed_out w2)])))"



end
