(* ===== verification/Pebc.thy ===== *)
theory Pebc
  imports Registry Dispatch
begin

text \<open>
  Normalising S2 power-envelope data into offers, \<open>adapters/s2/pebc.py\<close>. The S2 parser is not part
  of the repository: it is a parameter that turns a message into one of the parsed types below,
  which hold the fields the code reads. The intermediate float results are bounded by the physical
  envelope, so no operation overflows; where the confidence overflows to an infinity it is clamped
  to the same bound.
\<close>

section \<open>Parsed messages\<close>

datatype limit_type = UPPER_LIMIT | LOWER_LIMIT

record limit_range =
  lr_supported :: bool
  lr_limit_type :: limit_type
  lr_abnormal_only :: bool
  lr_start :: pyfloat
  lr_end :: pyfloat

record power_constraints =
  pc_id :: string
  pc_valid_from :: instant
  pc_valid_until :: "instant option"
  pc_consequence_type :: consequence
  pc_ranges :: "limit_range list"

record power_value =
  pv_supported :: bool
  pv_expected :: pyfloat
  pv_lower_95 :: "pyfloat option"
  pv_upper_95 :: "pyfloat option"

record forecast_element =
  fe_duration_ms :: int
  fe_values :: "power_value list"

record power_forecast =
  pf_start_time :: instant
  pf_elements :: "forecast_element list"

datatype s2_message = Power_constraints power_constraints | Power_forecast power_forecast | Other_message

datatype pebc_error = Registry_failed registry_error | Pebc_ValueError string | OfferClockSkewError
  | Offer_invalid model_error | ZeroDivisionError

definition parse_constraints :: "('m \<Rightarrow> s2_message option) \<Rightarrow> 'm \<Rightarrow> pebc_error + power_constraints" where
  "parse_constraints s2_parser m = (case s2_parser m of
     None \<Rightarrow> Inl (Pebc_ValueError ''invalid S2 message'')
   | Some (Power_constraints c) \<Rightarrow> Inr c
   | Some _ \<Rightarrow> Inl (Pebc_ValueError ''expected PEBCPowerConstraints''))"

definition parse_forecast :: "('m \<Rightarrow> s2_message option) \<Rightarrow> 'm \<Rightarrow> pebc_error + power_forecast" where
  "parse_forecast s2_parser m = (case s2_parser m of
     None \<Rightarrow> Inl (Pebc_ValueError ''invalid S2 message'')
   | Some (Power_forecast f) \<Rightarrow> Inr f
   | Some _ \<Rightarrow> Inl (Pebc_ValueError ''expected PowerForecast''))"

section \<open>Segments of the forecast\<close>

record segment =
  sg_start :: instant
  sg_end :: instant
  sg_baseline_w :: rat
  sg_upward_w :: rat
  sg_downward_w :: rat
  sg_confidence :: rat

definition confidence_of :: "power_value \<Rightarrow> rat" where
  "confidence_of v = (case (pv_lower_95 v, pv_upper_95 v) of
     (Some lower, Some upper) \<Rightarrow>
       let scale = max (fmul \<bar>fin_val (pv_expected v)\<bar> 2) 1000
       in max 0 (min 1 (fsub 1 (fdiv (fsub (fin_val upper) (fin_val lower)) scale)))
   | _ \<Rightarrow> rnd64 (1/2))"

definition limits :: "limit_type \<Rightarrow> power_constraints \<Rightarrow> limit_range list" where
  "limits t c = filter (\<lambda>l. lr_supported l \<and> lr_limit_type l = t \<and> \<not> lr_abnormal_only l) (pc_ranges c)"

definition range_values :: "power_constraints \<Rightarrow> pyfloat list" where
  "range_values c = concat (List.map (\<lambda>l. [lr_start l, lr_end l]) (limits UPPER_LIMIT c @ limits LOWER_LIMIT c))"

definition minimum_upper_w :: "resource \<Rightarrow> power_constraints \<Rightarrow> rat" where
  "minimum_upper_w p c = max (Min (set (List.map (\<lambda>l. fin_val (lr_start l)) (limits UPPER_LIMIT c))))
     (fmul (p_min_power_kw p) 1000)"

definition maximum_lower_w :: "resource \<Rightarrow> power_constraints \<Rightarrow> rat" where
  "maximum_lower_w p c = min (Max (set (List.map (\<lambda>l. fin_val (lr_end l)) (limits LOWER_LIMIT c))))
     (fmul (p_max_power_kw p) 1000)"

definition ramp_adjustment_w :: "resource \<Rightarrow> int \<Rightarrow> rat" where
  "ramp_adjustment_w p response = fmul (fmul (p_ramp_rate_kw_per_min p) (fdiv (total_seconds response) 60)) 1000"

definition finite_value :: "power_value \<Rightarrow> bool" where
  "finite_value v \<longleftrightarrow> isfinite (pv_expected v) \<and>
     (case pv_lower_95 v of None \<Rightarrow> True | Some x \<Rightarrow> isfinite x) \<and>
     (case pv_upper_95 v of None \<Rightarrow> True | Some x \<Rightarrow> isfinite x)"

definition mk_segment :: "rat \<Rightarrow> rat \<Rightarrow> rat \<Rightarrow> instant \<Rightarrow> instant \<Rightarrow> power_value \<Rightarrow> pebc_error + segment" where
  "mk_segment lo hi ramp start finish v =
     (let baseline_w = fin_val (pv_expected v)
      in if \<not> finite_value v then Inl (Pebc_ValueError ''S2 forecast power values must be finite'')
         else if \<not> (lo \<le> baseline_w \<and> baseline_w \<le> hi)
           then Inl (Pebc_ValueError ''forecast baseline is outside the physical power envelope'')
         else Inr \<lparr> sg_start = start, sg_end = finish, sg_baseline_w = baseline_w,
           sg_upward_w = min (max 0 (fsub baseline_w lo)) ramp,
           sg_downward_w = min (max 0 (fsub hi baseline_w)) ramp, sg_confidence = confidence_of v \<rparr>)"

fun raw_segments ::
    "rat \<Rightarrow> rat \<Rightarrow> rat \<Rightarrow> instant \<Rightarrow> instant \<Rightarrow> instant \<Rightarrow> forecast_element list \<Rightarrow> pebc_error + segment list" where
  "raw_segments lo hi ramp valid_from valid_until cursor [] = Inr []"
| "raw_segments lo hi ramp valid_from valid_until cursor (e # es) =
     (let interval_end = cursor + fe_duration_ms e * 1000;
          vs = filter pv_supported (fe_values e);
          rest = raw_segments lo hi ramp valid_from valid_until interval_end es
      in if length vs = 1 \<and> cursor \<ge> valid_from \<and> interval_end \<le> valid_until
         then bind_res (mk_segment lo hi ramp cursor interval_end (hd vs)) (\<lambda>s. bind_res rest (\<lambda>ss. Inr (s # ss)))
         else rest)"

section \<open>Energy\<close>

definition hours_of :: "segment \<Rightarrow> rat" where
  "hours_of s = fdiv (total_seconds (sg_end s - sg_start s)) 3600"

definition energy_tolerance_kwh :: rat where
  "energy_tolerance_kwh = rnd64 (1 / 10 ^ 9)"

text \<open>The energy content after each segment of the baseline.\<close>

fun baseline_energy :: "rat \<Rightarrow> rat \<Rightarrow> rat \<Rightarrow> segment list \<Rightarrow> pebc_error + rat list" where
  "baseline_energy lo hi e [] = Inr []"
| "baseline_energy lo hi e (s # ss) =
     (let e' = fadd e (fmul (fdiv (sg_baseline_w s) 1000) (hours_of s))
      in if e' < fsub lo energy_tolerance_kwh \<or> e' > fadd hi energy_tolerance_kwh
         then Inl (Pebc_ValueError ''forecast baseline is outside the physical energy envelope'')
         else let e'' = max lo (min hi e')
              in bind_res (baseline_energy lo hi e'' ss) (\<lambda>es. Inr (e'' # es)))"

text \<open>The least headroom from each segment to the end of the forecast, from the right.\<close>

fun headrooms :: "rat list \<Rightarrow> rat list" where
  "headrooms [] = []"
| "headrooms (x # xs) = (case headrooms xs of [] \<Rightarrow> [x] | h # hs \<Rightarrow> min h x # h # hs)"

definition future_upward :: "rat \<Rightarrow> rat list \<Rightarrow> rat list" where
  "future_upward lo ends = List.map (max 0) (headrooms (List.map (\<lambda>e. fsub e lo) ends))"

definition future_downward :: "rat \<Rightarrow> rat list \<Rightarrow> rat list" where
  "future_downward hi ends = List.map (max 0) (headrooms (List.map (fsub hi) ends))"

text \<open>Sharing the budgets out: each segment takes what it wants, up to what is left.\<close>

fun share :: "rat \<Rightarrow> (rat \<times> rat) list \<Rightarrow> rat list" where
  "share allocated [] = []"
| "share allocated ((want, budget) # rest) =
     (let energy = min want (max 0 (fsub budget allocated)) in energy # share (fadd allocated energy) rest)"

definition upward_want :: "segment \<Rightarrow> rat" where
  "upward_want s = fmul (fdiv (sg_upward_w s) 1000) (hours_of s)"

definition downward_want :: "segment \<Rightarrow> rat" where
  "downward_want s = fmul (fdiv (sg_downward_w s) 1000) (hours_of s)"

definition upward_energies :: "rat \<Rightarrow> rat list \<Rightarrow> segment list \<Rightarrow> rat list" where
  "upward_energies lo ends ss = share 0 (zip (List.map upward_want ss) (future_upward lo ends))"

definition downward_energies :: "rat \<Rightarrow> rat list \<Rightarrow> segment list \<Rightarrow> rat list" where
  "downward_energies hi ends ss = share 0 (zip (List.map downward_want ss) (future_downward hi ends))"

text \<open>A segment without duration divides by zero.\<close>

fun limit_segments :: "segment list \<Rightarrow> rat list \<Rightarrow> rat list \<Rightarrow> pebc_error + segment list" where
  "limit_segments (s # ss) (u # us) (d # ds) =
     (if hours_of s = 0 then Inl ZeroDivisionError
      else bind_res (limit_segments ss us ds) (\<lambda>rest.
        Inr (s\<lparr>sg_upward_w := fmul (fdiv u (hours_of s)) 1000, sg_downward_w := fmul (fdiv d (hours_of s)) 1000\<rparr> # rest)))"
| "limit_segments _ _ _ = Inr []"

definition energy_limited :: "resource \<Rightarrow> segment list \<Rightarrow> pebc_error + segment list" where
  "energy_limited p raw =
     bind_res (baseline_energy (p_min_energy_kwh p) (p_max_energy_kwh p) (p_initial_energy_kwh p) raw) (\<lambda>ends.
       limit_segments raw (upward_energies (p_min_energy_kwh p) ends raw) (downward_energies (p_max_energy_kwh p) ends raw))"

section \<open>Buckets\<close>

text \<open>\<open>timedelta(seconds=x)\<close>: whole seconds exactly, the fraction rounded to microseconds.\<close>

definition timedelta_seconds :: "rat \<Rightarrow> int" where
  "timedelta_seconds x = round_half_even (of_int (py_int x) * 1000000 + fmul (x - of_int (py_int x)) 1000000)"

definition isclose :: "rat \<Rightarrow> rat \<Rightarrow> bool" where
  "isclose a b \<longleftrightarrow> a = b \<or> \<bar>fsub b a\<bar> \<le> \<bar>fmul (rnd64 (1 / 10 ^ 9)) b\<bar> \<or> \<bar>fsub b a\<bar> \<le> \<bar>fmul (rnd64 (1 / 10 ^ 9)) a\<bar>"

definition first_bucket :: "int \<Rightarrow> instant \<Rightarrow> instant" where
  "first_bucket resolution start =
     timedelta_seconds (fmul (of_int \<lceil>fdiv (total_seconds start) (total_seconds resolution)\<rceil>) (total_seconds resolution))"

definition overlap_seconds :: "instant \<Rightarrow> instant \<Rightarrow> segment \<Rightarrow> rat" where
  "overlap_seconds bucket_start bucket_end s = total_seconds (min (sg_end s) bucket_end - max (sg_start s) bucket_start)"

definition overlaps :: "instant \<Rightarrow> instant \<Rightarrow> segment list \<Rightarrow> segment list" where
  "overlaps bucket_start bucket_end ss = filter (\<lambda>s. sg_start s < bucket_end \<and> sg_end s > bucket_start) ss"

definition bucket_energy :: "(segment \<Rightarrow> rat) \<Rightarrow> instant \<Rightarrow> instant \<Rightarrow> segment list \<Rightarrow> rat" where
  "bucket_energy w bucket_start bucket_end os =
     fsum (List.map (\<lambda>s. fdiv (fmul (fdiv (w s) 1000) (overlap_seconds bucket_start bucket_end s)) 3600) os)"

text \<open>What does not change from bucket to bucket.\<close>

record bucket_context =
  bc_resource_id :: string
  bc_zone_id :: string
  bc_constraints :: power_constraints
  bc_valid_until :: instant
  bc_epoch :: int
  bc_sequence :: int
  bc_observed_at :: instant
  bc_resolution :: int

definition bucket_offer :: "bucket_context \<Rightarrow> instant \<Rightarrow> instant \<Rightarrow> segment list \<Rightarrow> pebc_error + offer" where
  "bucket_offer bc bucket_start bucket_end os =
     (let baseline_w = fdiv (fsum (List.map (\<lambda>s. fmul (sg_baseline_w s) (overlap_seconds bucket_start bucket_end s)) os))
            (total_seconds (bc_resolution bc));
          input = \<lparr> o_resource_id = bc_resource_id bc, o_zone_id = bc_zone_id bc,
            o_interval_start = Aware bucket_start 0, o_interval_end = Aware bucket_end 0,
            o_baseline_power_kw = Fin (fdiv baseline_w 1000),
            o_upward_capacity_kw = Fin (fdiv (Min (set (List.map sg_upward_w os))) 1000),
            o_downward_capacity_kw = Fin (fdiv (Min (set (List.map sg_downward_w os))) 1000),
            o_upward_energy_kwh = Fin (bucket_energy sg_upward_w bucket_start bucket_end os),
            o_downward_energy_kwh = Fin (bucket_energy sg_downward_w bucket_start bucket_end os),
            o_confidence = Fin (Min (set (List.map sg_confidence os))),
            o_product_class = BEST_EFFORT_PEBC, o_consequence_type = pc_consequence_type (bc_constraints bc),
            o_source_version = pc_id (bc_constraints bc), o_source_epoch = bc_epoch bc,
            o_source_sequence = bc_sequence bc, o_observed_at = Aware (bc_observed_at bc) 0,
            o_expires_at = Aware (bc_valid_until bc) 0, o_tenant_id = ''development'' \<rparr>
      in case mk_offer input of Inl e \<Rightarrow> Inl (Offer_invalid e) | Inr f \<Rightarrow> Inr f)"

text \<open>The while loop; the resolution is positive when it is reached.\<close>

function bucket_offers :: "bucket_context \<Rightarrow> segment list \<Rightarrow> instant \<Rightarrow> instant \<Rightarrow> pebc_error + offer list" where
  "bucket_offers bc ss final_end bucket_start =
     (if 0 < bc_resolution bc \<and> bucket_start + bc_resolution bc \<le> final_end
      then let bucket_end = bucket_start + bc_resolution bc;
               os = overlaps bucket_start bucket_end ss;
               covered = fsum (List.map (overlap_seconds bucket_start bucket_end) os)
           in if os \<noteq> [] \<and> isclose covered (total_seconds (bc_resolution bc))
              then bind_res (bucket_offer bc bucket_start bucket_end os) (\<lambda>f.
                bind_res (bucket_offers bc ss final_end bucket_end) (\<lambda>fs. Inr (f # fs)))
              else bucket_offers bc ss final_end bucket_end
      else Inr [])"
  by pat_completeness auto

termination by (relation "measure (\<lambda>(bc, ss, final_end, bucket_start). nat (final_end - bucket_start))") auto

declare bucket_offers.simps [simp del]

section \<open>normalize_pebc_offer\<close>

record 'm pebc_request =
  pr_resource_id :: string
  pr_zone_id :: string
  pr_constraints :: 'm
  pr_forecast :: 'm
  pr_source_epoch :: int
  pr_source_sequence :: int
  pr_observed_at :: datetime
  pr_received_at :: datetime
  pr_resolution :: int
  pr_response_time :: int
  pr_maximum_age :: int
  pr_future_skew :: int

definition check_clock :: "'m pebc_request \<Rightarrow> pebc_error + unit" where
  "check_clock q =
     (if \<not> tz_aware (pr_observed_at q) \<or> \<not> tz_aware (pr_received_at q)
        then Inl (Pebc_ValueError ''observation and receipt timestamps must be timezone-aware'')
      else if total_seconds (pr_maximum_age q) < 0 \<or> total_seconds (pr_future_skew q) < 0
        then Inl (Pebc_ValueError ''clock tolerances cannot be negative'')
      else if instant_of (pr_observed_at q) < instant_of (pr_received_at q) - pr_maximum_age q
        then Inl OfferClockSkewError
      else if instant_of (pr_observed_at q) > instant_of (pr_received_at q) + pr_future_skew q
        then Inl OfferClockSkewError
      else Inr ())"

definition check_envelope :: "resource \<Rightarrow> 'm pebc_request \<Rightarrow> pebc_error + unit" where
  "check_envelope p q =
     (if p_min_power_kw p > p_max_power_kw p then Inl (Pebc_ValueError ''physical power envelope is invalid'')
      else if \<not> (p_min_energy_kwh p \<le> p_initial_energy_kwh p \<and> p_initial_energy_kwh p \<le> p_max_energy_kwh p)
        then Inl (Pebc_ValueError ''physical energy envelope is invalid'')
      else if p_ramp_rate_kw_per_min p < 0 \<or> total_seconds (pr_response_time q) \<le> 0
        then Inl (Pebc_ValueError ''physical ramp envelope is invalid'')
      else Inr ())"

definition offers_of_segments ::
    "resource \<Rightarrow> 'm pebc_request \<Rightarrow> power_constraints \<Rightarrow> instant \<Rightarrow> segment list \<Rightarrow> pebc_error + offer list" where
  "offers_of_segments p q c valid_until raw =
     (if raw = [] then Inr []
      else bind_res (energy_limited p raw) (\<lambda>ss.
        bucket_offers \<lparr> bc_resource_id = pr_resource_id q, bc_zone_id = pr_zone_id q, bc_constraints = c,
            bc_valid_until = valid_until, bc_epoch = pr_source_epoch q, bc_sequence = pr_source_sequence q,
            bc_observed_at = instant_of (pr_observed_at q), bc_resolution = pr_resolution q \<rparr>
          ss (min (sg_end (last ss)) valid_until) (first_bucket (pr_resolution q) (sg_start (hd ss)))))"

definition normalize_messages ::
    "resource \<Rightarrow> 'm pebc_request \<Rightarrow> power_constraints \<Rightarrow> power_forecast \<Rightarrow> pebc_error + offer list" where
  "normalize_messages p q c f =
     (case pc_valid_until c of
        None \<Rightarrow> Inr []
      | Some valid_until \<Rightarrow>
          if limits UPPER_LIMIT c = [] \<or> limits LOWER_LIMIT c = [] then Inr []
          else if \<not> list_all isfinite (range_values c) then Inl (Pebc_ValueError ''S2 power constraints must be finite'')
          else if valid_until - pc_valid_from c > days 1
            then Inl (Pebc_ValueError ''S2 constraint horizon cannot exceed one day'')
          else if minimum_upper_w p c > maximum_lower_w p c
            then Inl (Pebc_ValueError ''S2 constraints do not overlap the physical power envelope'')
          else if total_seconds (pr_resolution q) \<le> 0 then Inl (Pebc_ValueError ''resolution must be positive'')
          else bind_res (raw_segments (minimum_upper_w p c) (maximum_lower_w p c)
              (ramp_adjustment_w p (pr_response_time q)) (pc_valid_from c) valid_until (pf_start_time f) (pf_elements f))
            (offers_of_segments p q c valid_until))"

definition normalize_pebc_offer ::
    "('m \<Rightarrow> s2_message option) \<Rightarrow> registry \<Rightarrow> 'm pebc_request \<Rightarrow> pebc_error + offer list" where
  "normalize_pebc_offer s2_parser registry q =
     (case require (pr_resource_id q) (pr_zone_id q) ''development'' registry of
        Inl e \<Rightarrow> Inl (Registry_failed e)
      | Inr p \<Rightarrow>
          bind_res (check_clock q) (\<lambda>_.
          bind_res (check_envelope p q) (\<lambda>_.
          bind_res (parse_constraints s2_parser (pr_constraints q)) (\<lambda>c.
          bind_res (parse_forecast s2_parser (pr_forecast q)) (\<lambda>f.
            normalize_messages p q c f)))))"

section \<open>Well-formed offers\<close>

lemma bucket_offer_facts:
  assumes "bucket_offer bc b e os = Inr f"
  shows "offer_ok f" "o_interval_start f = b" "o_interval_end f = e" "o_expires_at f = bc_valid_until bc"
    "o_resource_id f = bc_resource_id bc" "o_zone_id f = bc_zone_id bc" "o_tenant_id f = ''development''"
    "o_source_epoch f = bc_epoch bc" "o_source_sequence f = bc_sequence bc" "o_observed_at f = bc_observed_at bc"
    "o_source_version f = pc_id (bc_constraints bc)" "o_consequence_type f = pc_consequence_type (bc_constraints bc)"
proof -
  show "offer_ok f" using assms by (auto simp: bucket_offer_def Let_def split: sum.splits intro: mk_offer_ok)
  show "o_interval_start f = b" "o_interval_end f = e" "o_expires_at f = bc_valid_until bc"
    "o_resource_id f = bc_resource_id bc" "o_zone_id f = bc_zone_id bc" "o_tenant_id f = ''development''"
    "o_source_epoch f = bc_epoch bc" "o_source_sequence f = bc_sequence bc" "o_observed_at f = bc_observed_at bc"
    "o_source_version f = pc_id (bc_constraints bc)" "o_consequence_type f = pc_consequence_type (bc_constraints bc)"
    using assms by (auto simp: bucket_offer_def Let_def mk_offer_Inr offer_values_def instant_of_def split: sum.splits)
qed

text \<open>One offer of a bucket context.\<close>

definition bucket_ok :: "bucket_context \<Rightarrow> offer \<Rightarrow> bool" where
  "bucket_ok bc f \<longleftrightarrow> offer_ok f \<and> o_interval_end f = o_interval_start f + bc_resolution bc \<and>
     o_expires_at f = bc_valid_until bc \<and> o_resource_id f = bc_resource_id bc \<and> o_zone_id f = bc_zone_id bc \<and>
     o_tenant_id f = ''development'' \<and> o_source_epoch f = bc_epoch bc \<and> o_source_sequence f = bc_sequence bc \<and>
     o_observed_at f = bc_observed_at bc \<and> o_source_version f = pc_id (bc_constraints bc) \<and>
     o_consequence_type f = pc_consequence_type (bc_constraints bc)"

lemma bucket_offers_ok:
  "bucket_offers bc ss final b = Inr fs \<Longrightarrow>
     (\<forall>f \<in> set fs. bucket_ok bc f \<and> b \<le> o_interval_start f \<and> o_interval_end f \<le> final) \<and>
     sorted_wrt (\<lambda>f g. o_interval_end f \<le> o_interval_start g) fs"
proof (induction bc ss final b arbitrary: fs rule: bucket_offers.induct)
  case (1 bc ss final b)
  let ?e = "b + bc_resolution bc"
  let ?os = "overlaps b ?e ss"
  let ?full = "?os \<noteq> [] \<and> isclose (fsum (List.map (overlap_seconds b ?e) ?os)) (total_seconds (bc_resolution bc))"
  show ?case
  proof (cases "0 < bc_resolution bc \<and> ?e \<le> final")
    case False
    then show ?thesis using 1(3) by (subst (asm) bucket_offers.simps) auto
  next
    case more: True
    show ?thesis
    proof (cases ?full)
      case True
      have "bind_res (bucket_offer bc b ?e ?os) (\<lambda>f. bind_res (bucket_offers bc ss final ?e) (\<lambda>fs. Inr (f # fs))) = Inr fs"
        using 1(3) unfolding bucket_offers.simps [of bc ss final b] Let_def if_P [OF more] if_P [OF True] .
      then obtain f fs' where f: "bucket_offer bc b ?e ?os = Inr f" and r: "bucket_offers bc ss final ?e = Inr fs'"
        and fs: "fs = f # fs'" by (auto simp: bind_res_Inr)
      have ih: "(\<forall>g \<in> set fs'. bucket_ok bc g \<and> ?e \<le> o_interval_start g \<and> o_interval_end g \<le> final) \<and>
          sorted_wrt (\<lambda>f g. o_interval_end f \<le> o_interval_start g) fs'"
        using 1(1) [OF more refl refl refl True] r by blast
      note ff = bucket_offer_facts [OF f]
      then have "bucket_ok bc f" by (simp add: bucket_ok_def)
      then show ?thesis using ih fs ff(2,3) more by fastforce
    next
      case False
      have "bucket_offers bc ss final ?e = Inr fs"
        using 1(3) unfolding bucket_offers.simps [of bc ss final b] Let_def if_P [OF more] if_not_P [OF False] .
      from 1(2) [OF more refl refl refl False this] show ?thesis using more by fastforce
    qed
  qed
qed

lemma offers_of_segments_ok:
  assumes "offers_of_segments p q c vu raw = Inr fs"
  shows "(\<forall>f \<in> set fs. offer_ok f \<and> o_interval_end f = o_interval_start f + pr_resolution q \<and>
      o_interval_end f \<le> vu \<and> o_expires_at f = vu \<and> o_resource_id f = pr_resource_id q \<and>
      o_zone_id f = pr_zone_id q \<and> o_tenant_id f = ''development'' \<and> o_source_epoch f = pr_source_epoch q \<and>
      o_source_sequence f = pr_source_sequence q \<and> o_observed_at f = instant_of (pr_observed_at q) \<and>
      o_source_version f = pc_id c \<and> o_consequence_type f = pc_consequence_type c) \<and>
    sorted_wrt (\<lambda>f g. o_interval_end f \<le> o_interval_start g) fs"
proof (cases "raw = []")
  case True
  then show ?thesis using assms by (simp add: offers_of_segments_def)
next
  case False
  then obtain ss where "bucket_offers \<lparr> bc_resource_id = pr_resource_id q, bc_zone_id = pr_zone_id q, bc_constraints = c,
      bc_valid_until = vu, bc_epoch = pr_source_epoch q, bc_sequence = pr_source_sequence q,
      bc_observed_at = instant_of (pr_observed_at q), bc_resolution = pr_resolution q \<rparr>
    ss (min (sg_end (last ss)) vu) (first_bucket (pr_resolution q) (sg_start (hd ss))) = Inr fs"
    using assms by (auto simp: offers_of_segments_def bind_res_Inr)
  from bucket_offers_ok [OF this] show ?thesis by (auto simp: bucket_ok_def)
qed


section \<open>Energy is never promised twice\<close>

definition slack :: "rat \<Rightarrow> rat" where
  "slack x = x + x / 2 ^ 51 + 1 / 2 ^ 1070"

lemma slack_mono: "x \<le> y \<Longrightarrow> slack x \<le> slack y"
  by (simp add: slack_def add_mono divide_right_mono)

lemma slack_nonneg: "0 \<le> x \<Longrightarrow> 0 \<le> slack x"
  by (simp add: slack_def)

lemma share_length [simp]: "length (share acc xs) = length xs"
  by (induction acc xs rule: share.induct) (simp_all add: Let_def)

text \<open>What is shared out up to a segment stays within the budget of that segment.\<close>

lemma share_bound:
  assumes "\<forall>(w, b) \<in> set xs. 0 \<le> w \<and> 0 \<le> b" "sorted (List.map snd xs)" "is_f64 acc" "0 \<le> acc" "k < length xs"
  shows "foldl fadd acc (take (Suc k) (share acc xs)) \<le> max acc (slack (snd (xs ! k)))"
  using assms
proof (induction acc xs arbitrary: k rule: share.induct)
  case (2 acc w b rest)
  define e where "e = min w (max 0 (fsub b acc))"
  have e0: "0 \<le> e" using 2(2) by (simp add: e_def)
  let ?acc = "fadd acc e"
  have acc1: "?acc \<le> max acc (slack b)" "is_f64 ?acc" "0 \<le> ?acc"
  proof -
    show "?acc \<le> max acc (slack b)"
    proof (cases "e = 0")
      case True
      then show ?thesis using 2(4) by simp
    next
      case False
      then have "0 < e" "e \<le> fsub b acc" using e0 by (auto simp: e_def)
      then have "?acc \<le> slack b" using reserve_bound [OF 2(5)] by (simp add: slack_def)
      then show ?thesis by simp
    qed
    show "is_f64 ?acc" "0 \<le> ?acc" using e0 2(5) by (simp_all add: fadd_nonneg)
  qed
  have sh: "share acc ((w, b) # rest) = e # share ?acc rest" by (simp add: e_def Let_def)
  show ?case
  proof (cases k)
    case 0
    then show ?thesis using acc1(1) sh by simp
  next
    case (Suc j)
    have j: "j < length rest" using 2(6) Suc by simp
    have "b \<le> snd (rest ! j)" using 2(3) j by (simp add: sorted_iff_nth_mono)
    then have "max acc (slack b) \<le> max acc (slack (snd (rest ! j)))" by (intro max.mono order_refl slack_mono)
    moreover have "foldl fadd ?acc (take (Suc j) (share ?acc rest)) \<le> max ?acc (slack (snd (rest ! j)))"
      using 2(1) [OF e_def _ _ acc1(2,3) j] 2(2,3) by simp
    ultimately show ?thesis using acc1(1) Suc sh by simp
  qed
qed simp

lemma share_each:
  "k < length xs \<Longrightarrow> share acc xs ! k \<le> fst (xs ! k)"
proof (induction acc xs arbitrary: k rule: share.induct)
  case (2 acc w b rest)
  then show ?case by (cases k) (simp_all add: Let_def)
qed simp

lemma headrooms_length [simp]: "length (headrooms xs) = length xs"
  by (induction xs) (auto split: list.splits)

lemma headrooms_sorted: "sorted (headrooms xs)"
proof (induction xs)
  case (Cons x xs)
  show ?case
  proof (cases "headrooms xs")
    case (Cons h hs)
    then show ?thesis using Cons.IH by auto
  qed simp
qed simp

lemma headrooms_le: "k \<le> j \<Longrightarrow> j < length xs \<Longrightarrow> headrooms xs ! k \<le> xs ! j"
proof (induction xs arbitrary: k j)
  case (Cons x xs)
  show ?case
  proof (cases "headrooms xs")
    case Nil
    then have "xs = []" by (metis headrooms_length length_0_conv)
    then show ?thesis using Cons.prems by simp
  next
    case hs: (Cons h hs)
    have ne: "0 < length xs" using hs by (metis headrooms_length length_greater_0_conv list.distinct(1))
    show ?thesis
    proof (cases k)
      case (Suc k')
      then obtain j' where "j = Suc j'" "k' \<le> j'" using Cons.prems by (cases j) auto
      then show ?thesis using Cons hs Suc by simp
    next
      case 0
      show ?thesis
      proof (cases j)
        case (Suc j')
        then have "headrooms xs ! 0 \<le> xs ! j'" using Cons.IH [of 0 j'] Cons.prems by simp
        then show ?thesis using hs 0 Suc by (simp add: min_le_iff_disj)
      qed (use 0 hs in simp)
    qed
  qed
qed simp

lemma baseline_energy_bounds:
  "baseline_energy lo hi e ss = Inr ends \<Longrightarrow> lo \<le> hi \<Longrightarrow>
     length ends = length ss \<and> (\<forall>x \<in> set ends. lo \<le> x \<and> x \<le> hi)"
proof (induction lo hi e ss arbitrary: ends rule: baseline_energy.induct)
  case (2 lo hi e s ss)
  let ?e1 = "fadd e (fmul (fdiv (sg_baseline_w s) 1000) (hours_of s))"
  let ?e2 = "max lo (min hi ?e1)"
  have in_range: "\<not> (?e1 < fsub lo energy_tolerance_kwh \<or> ?e1 > fadd hi energy_tolerance_kwh)"
    using 2(2) by (auto simp: Let_def split: if_splits)
  then have "bind_res (baseline_energy lo hi ?e2 ss) (\<lambda>es. Inr (?e2 # es)) = Inr ends"
    using 2(2) unfolding baseline_energy.simps Let_def by (simp only: if_False)
  then obtain es where es: "baseline_energy lo hi ?e2 ss = Inr es" "ends = ?e2 # es" by (auto simp: bind_res_Inr)
  have "length es = length ss \<and> (\<forall>x \<in> set es. lo \<le> x \<and> x \<le> hi)"
    by (rule 2(1) [OF refl in_range refl es(1) 2(3)])
  then show ?case using es(2) 2(3) by simp
qed simp

lemma raw_segments_ok:
  assumes "raw_segments lo hi ramp vf vu cur es = Inr ss" "0 \<le> ramp" "\<forall>e \<in> set es. 0 \<le> fe_duration_ms e"
  shows "\<forall>s \<in> set ss. 0 \<le> sg_upward_w s \<and> 0 \<le> sg_downward_w s \<and> sg_start s \<le> sg_end s"
  using assms
proof (induction lo hi ramp vf vu cur es arbitrary: ss rule: raw_segments.induct)
  case (2 lo hi ramp vf vu cur e es)
  let ?e = "cur + fe_duration_ms e * 1000" and ?vs = "filter pv_supported (fe_values e)"
  have ih: "raw_segments lo hi ramp vf vu ?e es = Inr ss' \<Longrightarrow>
      \<forall>s \<in> set ss'. 0 \<le> sg_upward_w s \<and> 0 \<le> sg_downward_w s \<and> sg_start s \<le> sg_end s" for ss'
    using 2(1) [OF refl] 2(3,4) by (simp add: Let_def)
  show ?case
  proof (cases "length ?vs = 1 \<and> cur \<ge> vf \<and> ?e \<le> vu")
    case True
    then have "bind_res (mk_segment lo hi ramp cur ?e (hd ?vs)) (\<lambda>s.
        bind_res (raw_segments lo hi ramp vf vu ?e es) (\<lambda>ss. Inr (s # ss))) = Inr ss"
      using 2(2) by (simp add: Let_def)
    then obtain s ss' where s: "mk_segment lo hi ramp cur ?e (hd ?vs) = Inr s"
      and r: "raw_segments lo hi ramp vf vu ?e es = Inr ss'" and ss: "ss = s # ss'" by (auto simp: bind_res_Inr)
    have "0 \<le> sg_upward_w s \<and> 0 \<le> sg_downward_w s \<and> sg_start s \<le> sg_end s"
      using s 2(3,4) by (auto simp: mk_segment_def Let_def split: if_splits)
    then show ?thesis using ih [OF r] ss by simp
  next
    case False
    then have "raw_segments lo hi ramp vf vu ?e es = Inr ss" using 2(2) by (auto simp: Let_def split: if_splits)
    then show ?thesis by (rule ih)
  qed
qed simp

lemma hours_nonneg: "sg_start s \<le> sg_end s \<Longrightarrow> 0 \<le> hours_of s"
  by (simp add: hours_of_def total_seconds_def fdiv_nonneg)

lemma energies_bound:
  assumes wants: "\<forall>w \<in> set ws. 0 \<le> w" and len: "length ws = length xs" and pos: "\<forall>x \<in> set xs. 0 \<le> x"
    and kj: "k \<le> j" "j < length xs"
  shows "foldl fadd 0 (take (Suc k) (share 0 (zip ws (List.map (max 0) (headrooms xs))))) \<le> slack (xs ! j)"
proof -
  let ?bs = "List.map (max 0) (headrooms xs)"
  have "sorted ?bs" using headrooms_sorted [of xs] by (rule sorted_map_mono) (auto simp: mono_on_def)
  moreover have snd: "List.map snd (zip ws ?bs) = ?bs" using len by (simp add: map_snd_zip)
  moreover have "\<forall>(w, b) \<in> set (zip ws ?bs). 0 \<le> w \<and> 0 \<le> b"
    using wants by (auto elim!: in_set_zipE)
  ultimately have "foldl fadd 0 (take (Suc k) (share 0 (zip ws ?bs))) \<le> max 0 (slack (snd (zip ws ?bs ! k)))"
    using share_bound [of "zip ws ?bs" 0 k] kj len by simp
  moreover have "snd (zip ws ?bs ! k) = max 0 (headrooms xs ! k)" using kj len by simp
  moreover have "slack (max 0 (headrooms xs ! k)) \<le> slack (xs ! j)"
    using headrooms_le [OF kj] pos kj by (intro slack_mono) simp
  moreover have "0 \<le> slack (max 0 (headrooms xs ! k))" by (rule slack_nonneg) simp
  ultimately show ?thesis by simp
qed

text \<open>
  C12 pebc_energy_shared. The flexible energy promised up to any segment of the forecast never
  exceeds, beyond two rounding errors, the headroom the baseline leaves at the end of that segment
  or of any later one, upwards to the minimum and downwards to the maximum energy content: the
  offers of one message can all be called together without leaving the storage envelope.
\<close>

theorem pebc_energy_shared:
  assumes raw: "raw_segments lo hi ramp vf vu cur es = Inr raw" and ramp: "0 \<le> ramp"
    and durations: "\<forall>e \<in> set es. 0 \<le> fe_duration_ms e" and p: "resource_ok p"
    and ends: "baseline_energy (p_min_energy_kwh p) (p_max_energy_kwh p) (p_initial_energy_kwh p) raw = Inr ends"
    and kj: "k \<le> j" "j < length raw"
  shows "foldl fadd 0 (take (Suc k) (upward_energies (p_min_energy_kwh p) ends raw))
      \<le> slack (fsub (ends ! j) (p_min_energy_kwh p)) \<and>
    foldl fadd 0 (take (Suc k) (downward_energies (p_max_energy_kwh p) ends raw))
      \<le> slack (fsub (p_max_energy_kwh p) (ends ! j))"
proof -
  have lohi: "p_min_energy_kwh p \<le> p_max_energy_kwh p" using p by (auto simp: resource_ok_def)
  note b = baseline_energy_bounds [OF ends lohi] and r = raw_segments_ok [OF raw ramp durations]
  have "\<forall>w \<in> set (List.map upward_want raw). 0 \<le> w" "\<forall>w \<in> set (List.map downward_want raw). 0 \<le> w"
    using r by (auto simp: upward_want_def downward_want_def hours_nonneg fmul_nonneg fdiv_nonneg)
  moreover have "\<forall>x \<in> set (List.map (\<lambda>e. fsub e (p_min_energy_kwh p)) ends). 0 \<le> x"
    "\<forall>x \<in> set (List.map (fsub (p_max_energy_kwh p)) ends). 0 \<le> x" using b by (auto simp: fsub_nonneg)
  ultimately show ?thesis
    using energies_bound [of "List.map upward_want raw" "List.map (\<lambda>e. fsub e (p_min_energy_kwh p)) ends" k j]
      energies_bound [of "List.map downward_want raw" "List.map (fsub (p_max_energy_kwh p)) ends" k j] b kj
    by (simp add: upward_energies_def downward_energies_def future_upward_def future_downward_def)
qed

section \<open>Example\<close>

definition ex_battery :: resource where
  "ex_battery = \<lparr> p_resource_id = ''a'', p_zone_id = ''Z'', p_resource_type = BATTERY, p_min_power_kw = -4,
     p_max_power_kw = 4, p_min_energy_kwh = 0, p_max_energy_kwh = 8, p_initial_energy_kwh = 1,
     p_ramp_rate_kw_per_min = 4, p_provisioning_version = 1, p_provisioned_at = 0, p_enabled = True,
     p_tenant_id = ''development'' \<rparr>"

definition ex_value :: power_value where
  "ex_value = \<lparr> pv_supported = True, pv_expected = Fin 1000, pv_lower_95 = None, pv_upper_95 = None \<rparr>"

definition ex_forecast :: power_forecast where
  "ex_forecast = \<lparr> pf_start_time = 0, pf_elements =
     [\<lparr> fe_duration_ms = 900000, fe_values = [ex_value] \<rparr>, \<lparr> fe_duration_ms = 900000, fe_values = [ex_value] \<rparr>] \<rparr>"

definition ex_constraints :: power_constraints where
  "ex_constraints = \<lparr> pc_id = ''v'', pc_valid_from = 0, pc_valid_until = Some (minutes 30),
     pc_consequence_type = DEFER, pc_ranges =
       [\<lparr> lr_supported = True, lr_limit_type = UPPER_LIMIT, lr_abnormal_only = False, lr_start = Fin (-3000), lr_end = Fin 0 \<rparr>,
        \<lparr> lr_supported = True, lr_limit_type = LOWER_LIMIT, lr_abnormal_only = False, lr_start = Fin 0, lr_end = Fin 3000 \<rparr>] \<rparr>"

text \<open>The messages are numbered: the parser reads message 0 as the constraints and 1 as the forecast.\<close>

definition ex_parser :: "nat \<Rightarrow> s2_message option" where
  "ex_parser n = (if n = 0 then Some (Power_constraints ex_constraints) else Some (Power_forecast ex_forecast))"

definition ex_pebc_request :: "nat pebc_request" where
  "ex_pebc_request = \<lparr> pr_resource_id = ''a'', pr_zone_id = ''Z'', pr_constraints = 0, pr_forecast = 1,
     pr_source_epoch = 1, pr_source_sequence = 2, pr_observed_at = Aware 0 0, pr_received_at = Aware 0 0,
     pr_resolution = minutes 15, pr_response_time = minutes 1, pr_maximum_age = minutes 15,
     pr_future_skew = minutes 2 \<rparr>"

definition ex_raw :: "segment list" where
  "ex_raw = [\<lparr> sg_start = 0, sg_end = 900000000, sg_baseline_w = 1000, sg_upward_w = 4000, sg_downward_w = 2000, sg_confidence = 1 / 2 \<rparr>,
     \<lparr> sg_start = 900000000, sg_end = 1800000000, sg_baseline_w = 1000, sg_upward_w = 4000, sg_downward_w = 2000, sg_confidence = 1 / 2 \<rparr>]"

definition ex_segments :: "segment list" where
  "ex_segments = [\<lparr> sg_start = 0, sg_end = 900000000, sg_baseline_w = 1000, sg_upward_w = 4000, sg_downward_w = 2000, sg_confidence = 1 / 2 \<rparr>,
     \<lparr> sg_start = 900000000, sg_end = 1800000000, sg_baseline_w = 1000, sg_upward_w = 2000, sg_downward_w = 2000, sg_confidence = 1 / 2 \<rparr>]"

definition ex_context :: bucket_context where
  "ex_context = \<lparr> bc_resource_id = ''a'', bc_zone_id = ''Z'', bc_constraints = ex_constraints,
     bc_valid_until = minutes 30, bc_epoch = 1, bc_sequence = 2, bc_observed_at = 0, bc_resolution = minutes 15 \<rparr>"

definition ex_pebc_offers :: "offer list" where
  "ex_pebc_offers =
    [\<lparr> o_resource_id = ''a'', o_zone_id = ''Z'', o_interval_start = 0, o_interval_end = 900000000, o_baseline_power_kw = 1,
       o_upward_capacity_kw = 4, o_downward_capacity_kw = 2, o_upward_energy_kwh = 1, o_downward_energy_kwh = 1 / 2,
       o_confidence = 1 / 2, o_product_class = BEST_EFFORT_PEBC, o_consequence_type = DEFER, o_source_version = ''v'',
       o_source_epoch = 1, o_source_sequence = 2, o_observed_at = 0, o_expires_at = 1800000000,
       o_tenant_id = ''development'' \<rparr>,
     \<lparr> o_resource_id = ''a'', o_zone_id = ''Z'', o_interval_start = 900000000, o_interval_end = 1800000000, o_baseline_power_kw = 1,
       o_upward_capacity_kw = 2, o_downward_capacity_kw = 2, o_upward_energy_kwh = 1 / 2, o_downward_energy_kwh = 1 / 2,
       o_confidence = 1 / 2, o_product_class = BEST_EFFORT_PEBC, o_consequence_type = DEFER, o_source_version = ''v'',
       o_source_epoch = 1, o_source_sequence = 2, o_observed_at = 0, o_expires_at = 1800000000,
       o_tenant_id = ''development'' \<rparr>]"

lemma ex_normalize:
  "raw_segments (-3000) 3000 4000 0 (minutes 30) 0 (pf_elements ex_forecast) = Inr ex_raw" "length ex_raw = 2"
  by code_simp+

lemma ex_energy_limited: "energy_limited ex_battery ex_raw = Inr ex_segments"
  by code_simp

lemma ex_buckets: "bucket_offers ex_context ex_segments (minutes 30) 0 = Inr ex_pebc_offers"
  by code_simp

lemma ex_range:
  "min (sg_end (last ex_segments)) (minutes 30) = minutes 30"
  "first_bucket (minutes 15) (sg_start (hd ex_segments)) = 0"
  "length ex_pebc_offers = 2"
  by code_simp+

lemma ex_messages:
  "limits UPPER_LIMIT ex_constraints \<noteq> []" "limits LOWER_LIMIT ex_constraints \<noteq> []"
  "list_all isfinite (range_values ex_constraints)" "minimum_upper_w ex_battery ex_constraints = -3000"
  "maximum_lower_w ex_battery ex_constraints = 3000" "ramp_adjustment_w ex_battery (minutes 1) = 4000"
  "0 < total_seconds (minutes 15)" "check_clock ex_pebc_request = Inr ()"
  "check_envelope ex_battery ex_pebc_request = Inr ()" "minutes 30 \<le> days 1"
  "require ''a'' ''Z'' ''development'' [(''a'', ex_battery)] = Inr ex_battery"
  by code_simp+

lemma ex_normalized: "normalize_pebc_offer ex_parser [(''a'', ex_battery)] ex_pebc_request = Inr ex_pebc_offers"
proof -
  have q: "pr_resource_id ex_pebc_request = ''a''" "pr_zone_id ex_pebc_request = ''Z''" "pr_resolution ex_pebc_request = minutes 15"
    "pr_response_time ex_pebc_request = minutes 1" "pr_source_epoch ex_pebc_request = 1" "pr_source_sequence ex_pebc_request = 2"
    "instant_of (pr_observed_at ex_pebc_request) = 0" "parse_constraints ex_parser (pr_constraints ex_pebc_request) = Inr ex_constraints"
    "parse_forecast ex_parser (pr_forecast ex_pebc_request) = Inr ex_forecast"
    by (simp_all add: ex_pebc_request_def instant_of_def parse_constraints_def parse_forecast_def ex_parser_def)
  have c: "pc_valid_until ex_constraints = Some (minutes 30)" "pc_valid_from ex_constraints = 0" "pf_start_time ex_forecast = 0"
    by (simp_all add: ex_constraints_def ex_forecast_def)
  have ne: "ex_raw \<noteq> []" using ex_normalize(2) by auto
  have fin: "\<not> (\<not> list_all isfinite (range_values ex_constraints))" using ex_messages(3) by blast
  have "offers_of_segments ex_battery ex_pebc_request ex_constraints (minutes 30) ex_raw = Inr ex_pebc_offers"
    unfolding offers_of_segments_def q if_not_P [OF ne] ex_energy_limited bind_res_simps ex_range(1,2)
    using ex_buckets unfolding ex_context_def .
  then have "normalize_messages ex_battery ex_pebc_request ex_constraints ex_forecast = Inr ex_pebc_offers"
    using ex_messages(1,2,7,10) ex_normalize(1)
    unfolding normalize_messages_def c option.case if_not_P [OF fin] q ex_messages(4-6) by simp
  then show ?thesis unfolding normalize_pebc_offer_def q ex_messages(8,9,11) sum.case bind_res_simps .
qed


definition ex_ends :: "rat list" where
  "ex_ends = projr (baseline_energy 0 8 1 ex_raw)"

theorem pebc_energy_shared_witness:
  "foldl fadd 0 (take 2 (upward_energies 0 ex_ends ex_raw)) \<le> slack (fsub (ex_ends ! 1) 0)"
proof -
  note raw = ex_normalize(1,2)
  have p: "p_min_energy_kwh ex_battery = 0" "p_max_energy_kwh ex_battery = 8" "p_initial_energy_kwh ex_battery = 1"
    "resource_ok ex_battery" by (simp_all add: ex_battery_def resource_ok_def)
  have ends: "baseline_energy (p_min_energy_kwh ex_battery) (p_max_energy_kwh ex_battery) (p_initial_energy_kwh ex_battery) ex_raw = Inr ex_ends"
    unfolding p ex_ends_def by code_simp
  have dur: "\<forall>e \<in> set (pf_elements ex_forecast). 0 \<le> fe_duration_ms e" by (simp add: ex_forecast_def)
  show ?thesis using pebc_energy_shared [OF raw(1) _ dur p(4) ends, of 1 1] raw(2) unfolding p by (simp add: numeral_2_eq_2)
qed

text \<open>A segment without duration makes the normalisation divide by zero.\<close>

lemma zero_duration_divides:
  "bind_res (raw_segments (-3000) 3000 4000 0 (minutes 30) 0 [\<lparr> fe_duration_ms = 0, fe_values = [ex_value] \<rparr>])
     (energy_limited ex_battery) = Inl ZeroDivisionError"
  by code_simp

end
