(* ===== verification/PgStore.thy ===== *)
theory PgStore
  imports OfferStore Registry
begin

text \<open>
  The PostgreSQL resource registry and offer store, \<open>domain/postgres.py\<close>. A table is a dictionary
  from its primary key to its row; a method is one transaction under the advisory lock of the store,
  so it is one atomic step, and an error leaves the tables as they were. \<open>ORDER BY\<close> on a text
  column follows the collation of the database, which is a parameter: the sort key of a text. Texts
  hold no NUL character, which the driver refuses.
\<close>

section \<open>Tables\<close>

type_synonym row_key = "string \<times> string \<times> instant \<times> consequence"

record source_row =
  so_position :: position
  so_disconnected :: bool

record pg_domain =
  dm_resources :: "(string, resource) dict"
  dm_sources :: "(string, source_row) dict"
  dm_offers :: "(row_key, offer) dict"
  dm_cohorts :: "(cell, string set \<times> bool) dict"
  dm_query_budgets :: "(string \<times> instant, int) dict"
  dm_snapshots :: "(snapshot_key, aggregate) dict"

datatype domain_error =
    Provisioning registry_error
  | Store store_error
  | Row_refused string
  | Not_provisioned

definition pg_domain_new :: pg_domain where
  "pg_domain_new = \<lparr> dm_resources = [], dm_sources = [], dm_offers = [], dm_cohorts = [],
     dm_query_budgets = [], dm_snapshots = [] \<rparr>"

definition pg_store_config :: "int \<Rightarrow> store_error + int" where
  "pg_store_config min_participants =
     (if min_participants < 1 then Inl StoreValueError else Inr min_participants)"

definition fits_integer :: "int \<Rightarrow> bool" where
  "fits_integer n \<longleftrightarrow> - (2 ^ 31) \<le> n \<and> n < 2 ^ 31"

definition fits_bigint :: "int \<Rightarrow> bool" where
  "fits_bigint n \<longleftrightarrow> - (2 ^ 63) \<le> n \<and> n < 2 ^ 63"

definition resource_check :: "resource \<Rightarrow> bool" where
  "resource_check p \<longleftrightarrow> p_resource_id p \<noteq> [] \<and> p_tenant_id p \<noteq> [] \<and> p_zone_id p \<noteq> [] \<and>
     fits_integer (p_provisioning_version p) \<and> 1 \<le> p_provisioning_version p \<and>
     - 100000 \<le> p_min_power_kw p \<and> p_max_power_kw p \<le> 100000 \<and> p_min_power_kw p \<le> p_max_power_kw p \<and>
     0 \<le> p_min_energy_kwh p \<and> p_max_energy_kwh p \<le> 1000000000 \<and>
     p_min_energy_kwh p \<le> p_initial_energy_kwh p \<and> p_initial_energy_kwh p \<le> p_max_energy_kwh p \<and>
     0 \<le> p_ramp_rate_kw_per_min p \<and> p_ramp_rate_kw_per_min p \<le> 100000"

definition source_check :: "position \<Rightarrow> bool" where
  "source_check p \<longleftrightarrow> fits_bigint (fst p) \<and> 0 \<le> fst p \<and> fits_bigint (snd p) \<and> 0 \<le> snd p"

definition offer_check :: "offer \<Rightarrow> bool" where
  "offer_check f \<longleftrightarrow> o_tenant_id f \<noteq> [] \<and> o_zone_id f \<noteq> [] \<and> o_interval_start f < o_interval_end f \<and>
     - 100000000 \<le> o_baseline_power_kw f \<and> o_baseline_power_kw f \<le> 100000000 \<and>
     0 \<le> o_upward_capacity_kw f \<and> o_upward_capacity_kw f \<le> 1000000 \<and>
     0 \<le> o_downward_capacity_kw f \<and> o_downward_capacity_kw f \<le> 1000000 \<and>
     0 \<le> o_upward_energy_kwh f \<and> o_upward_energy_kwh f \<le> 1000000000 \<and>
     0 \<le> o_downward_energy_kwh f \<and> o_downward_energy_kwh f \<le> 1000000000 \<and>
     0 \<le> o_confidence f \<and> o_confidence f \<le> 1 \<and>
     source_check (offer_position f) \<and> o_interval_end f \<le> o_expires_at f"

section \<open>Suppression and withdrawal\<close>

text \<open>\<open>UPDATE\<close> changes the rows it finds: a cell that was never published has none.\<close>

definition pg_suppress :: "pg_domain \<Rightarrow> cell \<Rightarrow> pg_domain" where
  "pg_suppress s c = s\<lparr>dm_cohorts :=
     List.map (\<lambda>(c', v). (c', if c' = c then (fst v, True) else v)) (dm_cohorts s)\<rparr>"

definition pg_suppress_offers :: "offer list \<Rightarrow> pg_domain \<Rightarrow> pg_domain" where
  "pg_suppress_offers fs s = foldl (\<lambda>s f. pg_suppress s (offer_cell f)) s fs"

definition pg_delete_offers :: "(offer \<Rightarrow> bool) \<Rightarrow> pg_domain \<Rightarrow> pg_domain" where
  "pg_delete_offers P s = s\<lparr>dm_offers := filter (\<lambda>(k, f). \<not> P f) (dm_offers s)\<rparr>"

definition pg_disconnect :: "string \<Rightarrow> pg_domain \<Rightarrow> pg_domain" where
  "pg_disconnect rid s = s\<lparr>dm_sources :=
     List.map (\<lambda>(r, row). (r, if r = rid then row\<lparr>so_disconnected := True\<rparr> else row)) (dm_sources s)\<rparr>"

definition pg_select :: "(offer \<Rightarrow> bool) \<Rightarrow> pg_domain \<Rightarrow> offer list" where
  "pg_select P s = filter P (dict_values (dm_offers s))"

text \<open>Suppress the cells of the chosen offers of a resource, delete them, and mark its source.\<close>

definition pg_withdraw :: "string \<Rightarrow> (offer \<Rightarrow> bool) \<Rightarrow> pg_domain \<Rightarrow> pg_domain" where
  "pg_withdraw rid P s =
     (let rows = pg_select P s; s' = pg_delete_offers P (pg_suppress_offers rows s)
      in if rows \<noteq> [] then pg_disconnect rid s' else s')"

section \<open>The registry\<close>

definition write_resource :: "resource \<Rightarrow> pg_domain \<Rightarrow> domain_error + pg_domain" where
  "write_resource record s =
     (if \<not> resource_check record then Inl (Row_refused ''resource'')
      else Inr (s\<lparr>dm_resources := dict_set (p_resource_id record) record (dm_resources s)\<rparr>))"

definition pg_register :: "resource \<Rightarrow> pg_domain \<Rightarrow> domain_error + pg_domain" where
  "pg_register record s =
     (case dict_get (p_resource_id record) (dm_resources s) of
        None \<Rightarrow> write_resource record s
      | Some current \<Rightarrow>
          if p_provisioning_version record < p_provisioning_version current
            then Inl (Provisioning StaleProvisioningRecord)
          else if p_provisioning_version record = p_provisioning_version current
            then if record = current then Inr s else Inl (Provisioning ResourceProvisioningConflict)
          else write_resource record
            (pg_withdraw (p_resource_id record) (\<lambda>f. o_resource_id f = p_resource_id record) s))"

fun pg_register_all :: "resource list \<Rightarrow> pg_domain \<Rightarrow> domain_error + pg_domain" where
  "pg_register_all [] s = Inr s"
| "pg_register_all (r # rs) s = bind_res (pg_register r s) (pg_register_all rs)"

definition pg_require :: "string \<Rightarrow> string \<Rightarrow> string \<Rightarrow> pg_domain \<Rightarrow> registry_error + resource" where
  "pg_require resource_id zone_id tenant_id s =
     (case dict_get resource_id (dm_resources s) of
        None \<Rightarrow> Inl (UnknownResourceError resource_id)
      | Some record \<Rightarrow>
          if \<not> p_enabled record then Inl (DisabledResourceError resource_id)
          else if p_tenant_id record \<noteq> tenant_id then Inl (UnknownResourceError resource_id)
          else if p_zone_id record \<noteq> zone_id then Inl (ResourceZoneMismatch resource_id zone_id)
          else Inr record)"

section \<open>Privacy budget and snapshots\<close>

text \<open>
  \<open>INSERT ... ON CONFLICT DO UPDATE ... WHERE\<close>: a first query of a window is always granted, later
  ones while the count is below the limit; budgets older than a week are then deleted.
\<close>

definition pg_consume_privacy_query ::
    "string \<Rightarrow> instant \<Rightarrow> int \<Rightarrow> pg_domain \<Rightarrow> domain_error + pg_domain \<times> bool" where
  "pg_consume_privacy_query tenant_id window_start limit s =
     (let key = (tenant_id, window_start);
          current = dict_get key (dm_query_budgets s);
          granted = (case current of None \<Rightarrow> True | Some n \<Rightarrow> n < limit);
          count = (case current of None \<Rightarrow> 1 | Some n \<Rightarrow> n + 1);
          budgets = (if granted then dict_set key count (dm_query_budgets s) else dm_query_budgets s)
      in if tenant_id = [] \<or> \<not> fits_integer count then Inl (Row_refused ''privacy_query_budget'')
         else Inr (s\<lparr>dm_query_budgets := filter (\<lambda>((t, w), n). \<not> w < window_start - days 7) budgets\<rparr>, granted))"

definition snapshot_row :: "string \<Rightarrow> aggregate \<Rightarrow> aggregate" where
  "snapshot_row tenant_id g = g\<lparr>g_tenant_id := tenant_id\<rparr>"

definition pg_publish_privacy_snapshot ::
    "string \<Rightarrow> string \<Rightarrow> instant \<Rightarrow> instant \<Rightarrow> instant \<Rightarrow> aggregate list \<Rightarrow> pg_domain
     \<Rightarrow> domain_error + pg_domain \<times> aggregate list" where
  "pg_publish_privacy_snapshot tenant_id zone_id epoch start finish candidates s =
     (if candidates \<noteq> [] \<and> (tenant_id = [] \<or> zone_id = []) then Inl (Row_refused ''privacy_snapshot'')
      else
        let snapshots = foldl (\<lambda>d c. dict_setdefault (snapshot_key tenant_id zone_id epoch c) (snapshot_row tenant_id c) d)
              (dm_snapshots s) candidates;
            rows = List.map snd (sort_key (\<lambda>((t, z, e, interval_start, interval_end, q), g). (interval_start, interval_end, q))
              (filter (\<lambda>(k, g). snapshot_matches tenant_id zone_id epoch start finish k) snapshots))
        in Inr (s\<lparr>dm_snapshots := filter (\<lambda>((t, z, e, k), g). \<not> e < epoch - days 7) snapshots\<rparr>, rows))"

section \<open>Upsert and removal\<close>

definition row_key :: "offer \<Rightarrow> row_key" where
  "row_key f = (o_resource_id f, o_zone_id f, o_interval_start f, o_consequence_type f)"

definition obsolete_row :: "offer \<Rightarrow> offer \<Rightarrow> bool" where
  "obsolete_row f e \<longleftrightarrow> o_resource_id e = o_resource_id f \<and> offer_position e < offer_position f"

definition pg_drop_obsolete :: "offer \<Rightarrow> pg_domain \<Rightarrow> pg_domain" where
  "pg_drop_obsolete f s =
     pg_delete_offers (obsolete_row f) (pg_suppress_offers (pg_select (obsolete_row f) s) s)"

definition write_source :: "offer \<Rightarrow> pg_domain \<Rightarrow> domain_error + pg_domain" where
  "write_source f s =
     (if \<not> source_check (offer_position f) then Inl (Row_refused ''offer_source'')
      else if dict_get (o_resource_id f) (dm_resources s) = None then Inl Not_provisioned
      else Inr (s\<lparr>dm_sources := dict_set (o_resource_id f)
             \<lparr> so_position = offer_position f, so_disconnected = False \<rparr> (dm_sources s)\<rparr>))"

text \<open>On a conflict every column but the tenant is overwritten.\<close>

definition write_offer :: "offer \<Rightarrow> pg_domain \<Rightarrow> domain_error + pg_domain" where
  "write_offer f s =
     (if \<not> offer_check f then Inl (Row_refused ''offer'')
      else let row = (case dict_get (row_key f) (dm_offers s) of
              None \<Rightarrow> f | Some old \<Rightarrow> f\<lparr>o_tenant_id := o_tenant_id old\<rparr>)
        in Inr ((pg_suppress s (offer_cell f))\<lparr>dm_offers := dict_set (row_key f) row (dm_offers s)\<rparr>))"

definition pg_store_offer :: "offer \<Rightarrow> pg_domain \<Rightarrow> domain_error + pg_domain" where
  "pg_store_offer f s =
     (case dict_get (row_key f) (dm_offers s) of
        None \<Rightarrow> write_offer f s
      | Some previous \<Rightarrow>
          if previous = f then Inr s
          else if offer_position f = offer_position previous then Inl (Store OfferVersionConflict)
          else write_offer f s)"

definition pg_upsert :: "offer \<Rightarrow> pg_domain \<Rightarrow> domain_error + pg_domain" where
  "pg_upsert f s =
     (case dict_get (o_resource_id f) (dm_sources s) of
        None \<Rightarrow> bind_res (write_source f s) (pg_store_offer f)
      | Some row \<Rightarrow>
          if so_disconnected row \<and> offer_position f \<le> so_position row then Inl (Store StaleOfferError)
          else if offer_position f < so_position row then Inl (Store StaleOfferError)
          else bind_res (write_source f (if so_position row < offer_position f then pg_drop_obsolete f s else s))
            (pg_store_offer f))"

definition owned_by :: "string \<Rightarrow> string \<Rightarrow> offer \<Rightarrow> bool" where
  "owned_by resource_id tenant_id f \<longleftrightarrow> o_resource_id f = resource_id \<and> o_tenant_id f = tenant_id"

definition pg_remove_resource :: "string \<Rightarrow> string \<Rightarrow> pg_domain \<Rightarrow> pg_domain \<times> nat" where
  "pg_remove_resource resource_id tenant_id s =
     (pg_withdraw resource_id (owned_by resource_id tenant_id) s,
      length (pg_select (owned_by resource_id tenant_id) s))"

section \<open>Reading\<close>

definition zone_rows :: "string \<Rightarrow> instant \<Rightarrow> pg_domain \<Rightarrow> offer list" where
  "zone_rows tenant_id now s = pg_select (\<lambda>f. o_tenant_id f = tenant_id \<and> o_expires_at f \<ge> now) s"

definition zone_count :: "string \<Rightarrow> offer list \<Rightarrow> int" where
  "zone_count z rows = int (card (set (List.map o_resource_id (filter (\<lambda>f. o_zone_id f = z) rows))))"

definition pg_zones :: "(string \<Rightarrow> string) \<Rightarrow> int \<Rightarrow> string \<Rightarrow> instant \<Rightarrow> pg_domain \<Rightarrow> string list" where
  "pg_zones collation min_participants tenant_id now s =
     (let rows = zone_rows tenant_id now s
      in sort_key collation (filter (\<lambda>z. zone_count z rows \<ge> min_participants)
           (remdups (List.map o_zone_id rows))))"

definition pg_eligible_offers ::
    "(string \<Rightarrow> string) \<Rightarrow> string \<Rightarrow> string \<Rightarrow> instant \<Rightarrow> instant \<Rightarrow> consequence \<Rightarrow> instant \<Rightarrow> pg_domain \<Rightarrow> offer list" where
  "pg_eligible_offers collation tenant_id zone_id start finish consequence_type now s =
     sort_key (collation \<circ> o_resource_id) (pg_select (\<lambda>f. o_tenant_id f = tenant_id \<and> o_zone_id f = zone_id \<and>
       o_interval_start f = start \<and> o_interval_end f = finish \<and> o_consequence_type f = consequence_type \<and>
       o_expires_at f \<ge> now) s)"

section \<open>The aggregate query\<close>

definition pg_window_groups ::
    "(string \<Rightarrow> string) \<Rightarrow> string \<Rightarrow> string \<Rightarrow> instant \<Rightarrow> instant \<Rightarrow> instant \<Rightarrow> pg_domain
     \<Rightarrow> (group_key, offer list) dict" where
  "pg_window_groups collation tenant_id zone_id start finish now s =
     sort_key fst (foldl add_to_group []
       (sort_key (\<lambda>f. (offer_group f, collation (o_resource_id f)))
         (pg_select (in_window tenant_id zone_id start finish now) s)))"

definition published_rows :: "string \<Rightarrow> string \<Rightarrow> pg_domain \<Rightarrow> (cell, string set \<times> bool) dict" where
  "published_rows tenant_id zone_id s = filter (\<lambda>((t, z, g), v). t = tenant_id \<and> z = zone_id) (dm_cohorts s)"

definition write_cohort :: "cell \<Rightarrow> string set \<Rightarrow> pg_domain \<Rightarrow> pg_domain" where
  "write_cohort c cohort s = s\<lparr>dm_cohorts := dict_set c (cohort,
     case dict_get c (dm_cohorts s) of None \<Rightarrow> False | Some v \<Rightarrow> snd v) (dm_cohorts s)\<rparr>"

text \<open>
  One group, against the cohorts as they were read before the loop. \<open>None\<close> is \<open>continue\<close>.
\<close>

definition pg_query_group ::
    "int \<Rightarrow> string \<Rightarrow> string \<Rightarrow> instant \<Rightarrow> (cell, string set \<times> bool) dict \<Rightarrow> group_key \<times> offer list \<Rightarrow> pg_domain
     \<Rightarrow> model_error + pg_domain \<times> aggregate option" where
  "pg_query_group min_participants tenant_id zone_id now published grp s =
     (let c = (tenant_id, zone_id, fst grp); cohort = cohort_of (snd grp); previous = dict_get c published;
          changed = (case previous of None \<Rightarrow> False | Some v \<Rightarrow> fst v \<noteq> cohort);
          adjacent = adjacent_change c cohort (List.map (\<lambda>(c', v). (c', fst v)) published);
          s1 = (if changed then pg_suppress s c else s);
          s2 = (if adjacent then pg_suppress s1 c else s1);
          suppressed = (case previous of None \<Rightarrow> False | Some v \<Rightarrow> changed \<or> snd v) \<or> adjacent
      in if suppressed \<or> int (card cohort) < min_participants then Inr (s2, None)
         else case mk_aggregate (aggregate_offers c now (snd grp)) of
                Inl e \<Rightarrow> Inl e
              | Inr g \<Rightarrow> Inr (write_cohort c cohort s2, Some g))"

fun pg_query_groups ::
    "int \<Rightarrow> string \<Rightarrow> string \<Rightarrow> instant \<Rightarrow> (cell, string set \<times> bool) dict \<Rightarrow> (group_key \<times> offer list) list \<Rightarrow> pg_domain
     \<Rightarrow> model_error + pg_domain \<times> aggregate list" where
  "pg_query_groups k tenant_id zone_id now published [] s = Inr (s, [])"
| "pg_query_groups k tenant_id zone_id now published (grp # groups) s =
     bind_res (pg_query_group k tenant_id zone_id now published grp s) (\<lambda>(s1, r).
       bind_res (pg_query_groups k tenant_id zone_id now published groups s1) (\<lambda>(s2, gs).
         Inr (s2, (case r of None \<Rightarrow> [] | Some g \<Rightarrow> [g]) @ gs)))"

definition pg_query ::
    "(string \<Rightarrow> string) \<Rightarrow> int \<Rightarrow> string \<Rightarrow> instant \<Rightarrow> instant \<Rightarrow> string \<Rightarrow> instant \<Rightarrow> pg_domain
     \<Rightarrow> model_error + pg_domain \<times> aggregate list" where
  "pg_query collation min_participants zone_id start finish tenant_id now s =
     pg_query_groups min_participants tenant_id zone_id now (published_rows tenant_id zone_id s)
       (pg_window_groups collation tenant_id zone_id start finish now s) s"

section \<open>Tables after a step\<close>

lemma pg_suppress_frame [frame_simps, simp]:
  "dm_resources (pg_suppress s c) = dm_resources s" "dm_sources (pg_suppress s c) = dm_sources s"
  "dm_offers (pg_suppress s c) = dm_offers s" "dm_query_budgets (pg_suppress s c) = dm_query_budgets s"
  "dm_snapshots (pg_suppress s c) = dm_snapshots s"
  by (simp_all add: pg_suppress_def)

text \<open>Marking the rows of a set of cells.\<close>

definition mark_cells :: "cell set \<Rightarrow> (cell, string set \<times> bool) dict \<Rightarrow> (cell, string set \<times> bool) dict" where
  "mark_cells M d = List.map (\<lambda>(c, v). (c, if c \<in> M then (fst v, True) else v)) d"

lemma mark_cells_get:
  "dict_get c (mark_cells M d) = map_option (\<lambda>v. if c \<in> M then (fst v, True) else v) (dict_get c d)"
  unfolding mark_cells_def by (rule dict_get_map_values)

lemma mark_cells_ok: "dict_ok d \<Longrightarrow> dict_ok (mark_cells M d)"
  unfolding mark_cells_def by (rule dict_ok_map_values)

lemma mark_cells_empty [simp]: "mark_cells {} d = d"
  by (simp add: mark_cells_def)

lemma mark_cells_mark_cells: "mark_cells M (mark_cells N d) = mark_cells (M \<union> N) d"
  by (auto simp: mark_cells_def)

lemma pg_suppress_cohorts: "dm_cohorts (pg_suppress s c) = mark_cells {c} (dm_cohorts s)"
  by (simp add: pg_suppress_def mark_cells_def)

lemma pg_suppress_offers_frame [frame_simps, simp]:
  "dm_resources (pg_suppress_offers fs s) = dm_resources s" "dm_sources (pg_suppress_offers fs s) = dm_sources s"
  "dm_offers (pg_suppress_offers fs s) = dm_offers s"
  "dm_query_budgets (pg_suppress_offers fs s) = dm_query_budgets s"
  "dm_snapshots (pg_suppress_offers fs s) = dm_snapshots s"
  unfolding pg_suppress_offers_def by (induction fs arbitrary: s) simp_all

lemma pg_suppress_offers_cohorts:
  "dm_cohorts (pg_suppress_offers fs s) = mark_cells (offer_cell ` set fs) (dm_cohorts s)"
  unfolding pg_suppress_offers_def
proof (induction fs arbitrary: s)
  case (Cons f fs)
  show ?case by (simp add: Cons.IH pg_suppress_cohorts mark_cells_mark_cells)
qed simp

lemma pg_delete_offers_frame [frame_simps, simp]:
  "dm_resources (pg_delete_offers P s) = dm_resources s" "dm_sources (pg_delete_offers P s) = dm_sources s"
  "dm_cohorts (pg_delete_offers P s) = dm_cohorts s" "dm_query_budgets (pg_delete_offers P s) = dm_query_budgets s"
  "dm_snapshots (pg_delete_offers P s) = dm_snapshots s"
  by (simp_all add: pg_delete_offers_def)

text \<open>Deleting offers with the suppression of their cells.\<close>

definition pg_drop :: "(offer \<Rightarrow> bool) \<Rightarrow> pg_domain \<Rightarrow> pg_domain" where
  "pg_drop P s = pg_delete_offers P (pg_suppress_offers (pg_select P s) s)"

lemma pg_drop_simps [simp]:
  "dm_resources (pg_drop P s) = dm_resources s" "dm_sources (pg_drop P s) = dm_sources s"
  "dm_offers (pg_drop P s) = filter (\<lambda>(k, f). \<not> P f) (dm_offers s)"
  "dm_cohorts (pg_drop P s) = mark_cells (offer_cell ` set (pg_select P s)) (dm_cohorts s)"
  "dm_query_budgets (pg_drop P s) = dm_query_budgets s" "dm_snapshots (pg_drop P s) = dm_snapshots s"
  by (simp_all add: pg_drop_def pg_delete_offers_def pg_suppress_offers_cohorts)

lemma pg_drop_obsolete_drop: "pg_drop_obsolete f s = pg_drop (obsolete_row f) s"
  by (simp add: pg_drop_obsolete_def pg_drop_def)

lemma pg_withdraw_drop:
  "pg_withdraw rid P s = (if pg_select P s \<noteq> [] then pg_disconnect rid (pg_drop P s) else pg_drop P s)"
  by (simp add: pg_withdraw_def pg_drop_def Let_def)

lemma pg_select_empty: "pg_select P s = [] \<longleftrightarrow> (\<forall>(k, f) \<in> set (dm_offers s). \<not> P f)"
  by (auto simp: pg_select_def dict_values_def filter_empty_conv)

lemma pg_drop_none:
  assumes "pg_select P s = []"
  shows "pg_drop P s = s"
proof -
  have "filter (\<lambda>(k, f). \<not> P f) (dm_offers s) = dm_offers s"
    using assms unfolding pg_select_empty filter_id_conv by blast
  then show ?thesis using assms by (simp add: pg_drop_def pg_suppress_offers_def pg_delete_offers_def)
qed

section \<open>The invariant of the tables\<close>

definition dm_inv :: "pg_domain \<Rightarrow> bool" where
  "dm_inv s \<longleftrightarrow> dict_ok (dm_offers s) \<and> dict_ok (dm_cohorts s) \<and>
     (\<forall>(k, f) \<in> set (dm_offers s). k = row_key f \<and> offer_ok f \<and>
        map_option so_position (dict_get (o_resource_id f) (dm_sources s)) = Some (offer_position f))"

lemma dm_inv_new [simp]: "dm_inv pg_domain_new"
  by (simp add: dm_inv_def pg_domain_new_def)

lemma dm_invD:
  assumes "dm_inv s"
  shows "dict_ok (dm_offers s)" "dict_ok (dm_cohorts s)"
    "(k, f) \<in> set (dm_offers s) \<Longrightarrow> k = row_key f"
    "(k, f) \<in> set (dm_offers s) \<Longrightarrow> offer_ok f"
    "(k, f) \<in> set (dm_offers s) \<Longrightarrow>
       map_option so_position (dict_get (o_resource_id f) (dm_sources s)) = Some (offer_position f)"
  using assms by (auto simp: dm_inv_def)

lemma dm_invI:
  assumes "dict_ok (dm_offers s)" "dict_ok (dm_cohorts s)"
    and "\<And>k f. (k, f) \<in> set (dm_offers s) \<Longrightarrow> k = row_key f \<and> offer_ok f \<and>
      map_option so_position (dict_get (o_resource_id f) (dm_sources s)) = Some (offer_position f)"
  shows "dm_inv s"
  unfolding dm_inv_def by (intro conjI ballI case_prodI2) (use assms in blast)+

lemma offer_check_ok: "offer_check f \<Longrightarrow> offer_ok f"
  by (simp add: offer_check_def offer_ok_def source_check_def offer_position_def)

lemma pg_drop_inv: "dm_inv s \<Longrightarrow> dm_inv (pg_drop P s)"
  by (rule dm_invI) (auto simp: mark_cells_ok dest: dm_invD)

lemma pg_disconnect_simps [simp]:
  "dm_resources (pg_disconnect rid s) = dm_resources s" "dm_offers (pg_disconnect rid s) = dm_offers s"
  "dm_cohorts (pg_disconnect rid s) = dm_cohorts s" "dm_query_budgets (pg_disconnect rid s) = dm_query_budgets s"
  "dm_snapshots (pg_disconnect rid s) = dm_snapshots s"
  "dict_get r (dm_sources (pg_disconnect rid s)) =
     map_option (\<lambda>row. if r = rid then row\<lparr>so_disconnected := True\<rparr> else row) (dict_get r (dm_sources s))"
  unfolding pg_disconnect_def by (simp_all add: dict_get_map_values)

lemma pg_disconnect_inv: "dm_inv s \<Longrightarrow> dm_inv (pg_disconnect rid s)"
  by (rule dm_invI) (auto simp: option.map_comp comp_def if_distrib cong: if_cong option.map_cong dest: dm_invD)

lemma pg_withdraw_inv: "dm_inv s \<Longrightarrow> dm_inv (pg_withdraw rid P s)"
  by (simp add: pg_withdraw_drop pg_drop_inv pg_disconnect_inv)

lemma pg_register_inv: "dm_inv s \<Longrightarrow> pg_register p s = Inr s' \<Longrightarrow> dm_inv s'"
proof -
  have w: "write_resource p s1 = Inr s' \<Longrightarrow> dm_inv s1 \<Longrightarrow> dm_inv s'" for s1
    by (auto simp: write_resource_def dm_inv_def split: if_splits)
  show "dm_inv s \<Longrightarrow> pg_register p s = Inr s' \<Longrightarrow> dm_inv s'"
    unfolding pg_register_def by (auto split: option.splits if_splits intro: w pg_withdraw_inv)
qed

text \<open>
  The outcome of an upsert: a refusal that is stale or a conflict or a constraint, a replay that
  changes nothing, or a new row beside the rows that are not obsolete.
\<close>

definition pg_stale :: "offer \<Rightarrow> pg_domain \<Rightarrow> bool" where
  "pg_stale f s = (case dict_get (o_resource_id f) (dm_sources s) of None \<Rightarrow> False
     | Some row \<Rightarrow> so_disconnected row \<and> offer_position f \<le> so_position row \<or> offer_position f < so_position row)"

lemma no_obsolete_rows:
  assumes "dm_inv s" "\<And>row. dict_get (o_resource_id f) (dm_sources s) = Some row \<Longrightarrow> \<not> so_position row < offer_position f"
  shows "pg_drop (obsolete_row f) s = s"
proof (rule pg_drop_none)
  show "pg_select (obsolete_row f) s = []"
    unfolding pg_select_empty using assms dm_invD(5) [OF assms(1)] by (fastforce simp: obsolete_row_def)
qed

lemma pg_upsert_eq:
  assumes inv: "dm_inv s"
  shows "pg_upsert f s = (if pg_stale f s then Inl (Store StaleOfferError)
    else bind_res (write_source f (pg_drop (obsolete_row f) s)) (pg_store_offer f))"
proof (cases "dict_get (o_resource_id f) (dm_sources s)")
  case None
  then show ?thesis using no_obsolete_rows [OF inv, of f] by (simp add: pg_upsert_def pg_stale_def)
next
  case (Some row)
  show ?thesis
  proof (cases "so_position row < offer_position f")
    case True
    then have "\<not> offer_position f < so_position row" "\<not> offer_position f \<le> so_position row" by auto
    then show ?thesis using Some True by (simp add: pg_upsert_def pg_stale_def pg_drop_obsolete_drop)
  next
    case False
    have "pg_drop (obsolete_row f) s = s" by (rule no_obsolete_rows [OF inv]) (use Some False in auto)
    then show ?thesis using Some False by (auto simp: pg_upsert_def pg_stale_def)
  qed
qed

lemma not_stale_position:
  assumes "dm_inv s" "\<not> pg_stale f s" "(k, e) \<in> set (dm_offers (pg_drop (obsolete_row f) s))"
    "o_resource_id e = o_resource_id f"
  shows "offer_position e = offer_position f"
proof -
  from assms(3) have e: "(k, e) \<in> set (dm_offers s)" "\<not> obsolete_row f e" by auto
  have "\<not> offer_position f < offer_position e"
    using assms(2,4) dm_invD(5) [OF assms(1) e(1)] by (auto simp: pg_stale_def split: option.splits)
  moreover have "\<not> offer_position e < offer_position f" using e(2) assms(4) by (simp add: obsolete_row_def)
  ultimately show ?thesis by simp
qed

definition pg_stored :: "offer \<Rightarrow> pg_domain \<Rightarrow> pg_domain \<Rightarrow> bool" where
  "pg_stored f s s' \<longleftrightarrow>
     dm_resources s' = dm_resources s \<and>
     dm_sources s' = dict_set (o_resource_id f) \<lparr> so_position = offer_position f, so_disconnected = False \<rparr> (dm_sources s) \<and>
     dm_offers s' = dm_offers (pg_drop (obsolete_row f) s) @ [(row_key f, f)] \<and>
     dict_get (row_key f) (dm_offers (pg_drop (obsolete_row f) s)) = None \<and>
     dm_cohorts s' = mark_cells ({offer_cell f} \<union> offer_cell ` set (pg_select (obsolete_row f) s)) (dm_cohorts s) \<and>
     dm_query_budgets s' = dm_query_budgets s \<and> dm_snapshots s' = dm_snapshots s \<and> offer_check f \<and> \<not> pg_stale f s"

lemma write_source_Inr:
  "write_source f s = Inr s' \<longleftrightarrow> source_check (offer_position f) \<and> dict_get (o_resource_id f) (dm_resources s) \<noteq> None \<and>
     s' = s\<lparr>dm_sources := dict_set (o_resource_id f) \<lparr> so_position = offer_position f, so_disconnected = False \<rparr> (dm_sources s)\<rparr>"
  by (auto simp: write_source_def)

lemma pg_upsert_Inr:
  assumes inv: "dm_inv s" and up: "pg_upsert f s = Inr s'"
  shows "(s' = s \<and> dict_get (row_key f) (dm_offers s) = Some f) \<or> pg_stored f s s'"
proof -
  let ?s1 = "pg_drop (obsolete_row f) s"
  let ?src = "dict_set (o_resource_id f) \<lparr> so_position = offer_position f, so_disconnected = False \<rparr> (dm_sources s)"
  have ns: "\<not> pg_stale f s" using up unfolding pg_upsert_eq [OF inv] by (auto split: if_splits)
  then obtain s2 where ws: "write_source f ?s1 = Inr s2" and st: "pg_store_offer f s2 = Inr s'"
    using up unfolding pg_upsert_eq [OF inv] by (auto simp: bind_res_Inr)
  from ws have s2: "s2 = ?s1\<lparr>dm_sources := ?src\<rparr>" by (simp add: write_source_Inr)
  have inv1: "dm_inv ?s1" using inv by (rule pg_drop_inv)
  show ?thesis
  proof (cases "dict_get (row_key f) (dm_offers ?s1)")
    case None
    then have w: "write_offer f s2 = Inr s'" using st s2 by (simp add: pg_store_offer_def)
    then have "offer_check f" by (simp add: write_offer_def split: if_splits)
    moreover from this have "s' = (pg_suppress s2 (offer_cell f))\<lparr>dm_offers := dm_offers ?s1 @ [(row_key f, f)]\<rparr>"
      using w None s2 by (simp add: write_offer_def dict_set_new)
    ultimately have "pg_stored f s s'"
      using ns None s2 by (simp add: pg_stored_def pg_suppress_cohorts mark_cells_mark_cells)
    then show ?thesis ..
  next
    case (Some e)
    then have e: "(row_key f, e) \<in> set (dm_offers ?s1)" by (rule dict_get_Some_in)
    have key: "row_key f = row_key e" by (rule dm_invD(3) [OF inv1 e])
    then have rid: "o_resource_id e = o_resource_id f" by (simp add: row_key_def)
    have pos: "offer_position e = offer_position f" by (rule not_stale_position [OF inv ns e rid])
    have ef: "e = f" using st Some s2 pos by (auto simp: pg_store_offer_def split: if_splits)
    have src: "dict_get (o_resource_id f) (dm_sources s) = Some \<lparr> so_position = offer_position f, so_disconnected = False \<rparr>"
    proof -
      from dm_invD(5) [OF inv1 e] ef obtain row where
        row: "dict_get (o_resource_id f) (dm_sources s) = Some row" "so_position row = offer_position f" by auto
      then show ?thesis using ns by (cases row) (simp add: pg_stale_def)
    qed
    then have s1: "?s1 = s" using no_obsolete_rows [OF inv, of f] by simp
    have "s2 = s" using s2 s1 src by (simp add: dict_set_same)
    then have "s' = s" using st Some s1 ef by (simp add: pg_store_offer_def)
    then show ?thesis using Some s1 ef by simp
  qed
qed

lemma pg_stored_inv:
  assumes inv: "dm_inv s" and st: "pg_stored f s s'"
  shows "dm_inv s'"
proof (rule dm_invI)
  let ?s1 = "pg_drop (obsolete_row f) s"
  have inv1: "dm_inv ?s1" using inv by (rule pg_drop_inv)
  have "dm_offers s' = dict_set (row_key f) f (dm_offers ?s1)" using st by (simp add: pg_stored_def dict_set_new)
  then show "dict_ok (dm_offers s')" using dm_invD(1) [OF inv1] by (metis dict_ok_set)
  show "dict_ok (dm_cohorts s')" using st dm_invD(2) [OF inv] by (simp add: pg_stored_def mark_cells_ok)
  fix k e assume "(k, e) \<in> set (dm_offers s')"
  then consider (old) "(k, e) \<in> set (dm_offers ?s1)" | (new) "k = row_key f" "e = f"
    using st by (auto simp: pg_stored_def)
  then show "k = row_key e \<and> offer_ok e \<and>
      map_option so_position (dict_get (o_resource_id e) (dm_sources s')) = Some (offer_position e)"
  proof cases
    case old
    have "offer_position e = offer_position f" if "o_resource_id e = o_resource_id f"
      using not_stale_position [OF inv _ old that] st by (simp add: pg_stored_def)
    then show ?thesis using dm_invD(3-5) [OF inv1 old] st by (simp add: pg_stored_def dict_get_set)
  next
    case new
    then show ?thesis using st offer_check_ok by (simp add: pg_stored_def)
  qed
qed

lemma pg_upsert_inv: "dm_inv s \<Longrightarrow> pg_upsert f s = Inr s' \<Longrightarrow> dm_inv s'"
  using pg_upsert_Inr pg_stored_inv by blast

section \<open>The query\<close>

text \<open>A published row may only be marked, or keep its cohort.\<close>

definition row_keeps :: "(string set \<times> bool) option \<Rightarrow> (string set \<times> bool) option \<Rightarrow> bool" where
  "row_keeps v v' \<longleftrightarrow> (\<forall>C b. v = Some (C, b) \<longrightarrow> (\<exists>C' b'. v' = Some (C', b') \<and> (b' \<or> \<not> b \<and> C' = C)))"

lemma row_keeps_refl [simp]: "row_keeps v v"
  by (simp add: row_keeps_def)

lemma row_keeps_trans: "row_keeps u v \<Longrightarrow> row_keeps v w \<Longrightarrow> row_keeps u w"
  by (fastforce simp: row_keeps_def)

lemma row_keeps_mark [simp]: "row_keeps v (map_option (\<lambda>v. if m then (fst v, True) else v) v)"
  by (cases v) (auto simp: row_keeps_def)

lemma write_cohort_frame [simp]:
  "dm_resources (write_cohort c C s) = dm_resources s" "dm_sources (write_cohort c C s) = dm_sources s"
  "dm_offers (write_cohort c C s) = dm_offers s" "dm_query_budgets (write_cohort c C s) = dm_query_budgets s"
  "dm_snapshots (write_cohort c C s) = dm_snapshots s"
  by (simp_all add: write_cohort_def)

text \<open>What is known of the row of a cell when its group is published.\<close>

definition pg_published ::
    "int \<Rightarrow> cell \<Rightarrow> instant \<Rightarrow> offer list \<Rightarrow> (cell, string set \<times> bool) dict \<Rightarrow> (cell, string set \<times> bool) dict \<Rightarrow> bool" where
  "pg_published k c now fs d d' \<longleftrightarrow> aggregate_ok (aggregate_offers c now fs) \<and> k \<le> int (card (cohort_of fs)) \<and>
     dict_get c d' = Some (cohort_of fs, False) \<and> (dict_get c d = None \<or> dict_get c d = Some (cohort_of fs, False))"

lemma pg_query_group_outcome:
  assumes q: "pg_query_group k t z now pub (g, fs) s = Inr (s', r)"
    and pub: "dict_get (t, z, g) pub = dict_get (t, z, g) (dm_cohorts s)"
  shows "dm_offers s' = dm_offers s \<and> dm_sources s' = dm_sources s \<and> dm_resources s' = dm_resources s \<and>
      dm_query_budgets s' = dm_query_budgets s \<and> dm_snapshots s' = dm_snapshots s" (is ?frame)
    and "c \<noteq> (t, z, g) \<Longrightarrow> dict_get c (dm_cohorts s') = dict_get c (dm_cohorts s)"
    and "row_keeps (dict_get (t, z, g) (dm_cohorts s)) (dict_get (t, z, g) (dm_cohorts s'))"
    and "dict_ok (dm_cohorts s) \<Longrightarrow> dict_ok (dm_cohorts s')"
    and "r = Some a \<Longrightarrow> a = aggregate_offers (t, z, g) now fs \<and>
      pg_published k (t, z, g) now fs (dm_cohorts s) (dm_cohorts s')"
proof -
  let ?c = "(t, z, g)" and ?C = "cohort_of fs"
  define changed where "changed = (case dict_get ?c pub of None \<Rightarrow> False | Some v \<Rightarrow> fst v \<noteq> ?C)"
  define adjacent where "adjacent = adjacent_change ?c ?C (List.map (\<lambda>(c', v). (c', fst v)) pub)"
  define s1 where "s1 = (if changed then pg_suppress s ?c else s)"
  define s2 where "s2 = (if adjacent then pg_suppress s1 ?c else s1)"
  have d2: "dm_cohorts s2 = mark_cells (if changed \<or> adjacent then {?c} else {}) (dm_cohorts s)"
    by (simp add: s1_def s2_def pg_suppress_cohorts mark_cells_mark_cells)
  have f2: "dm_offers s2 = dm_offers s" "dm_sources s2 = dm_sources s" "dm_resources s2 = dm_resources s"
    "dm_query_budgets s2 = dm_query_budgets s" "dm_snapshots s2 = dm_snapshots s"
    by (simp_all add: s1_def s2_def)
  have fresh: "dict_get ?c pub = None \<Longrightarrow> \<not> changed" by (simp add: changed_def)
  consider (skip) "s' = s2" "r = None"
    | (publish) "s' = write_cohort ?c ?C s2" "r = Some (aggregate_offers ?c now fs)" "\<not> changed" "\<not> adjacent"
        "\<not> (case dict_get ?c pub of None \<Rightarrow> False | Some v \<Rightarrow> snd v)" "k \<le> int (card ?C)"
        "aggregate_ok (aggregate_offers ?c now fs)"
    using q unfolding pg_query_group_def Let_def fst_conv snd_conv
      changed_def [symmetric] adjacent_def [symmetric] s1_def [symmetric] s2_def [symmetric] mk_aggregate_def
    using fresh by (auto split: if_splits option.splits)
  then have "?frame \<and> (c \<noteq> ?c \<longrightarrow> dict_get c (dm_cohorts s') = dict_get c (dm_cohorts s)) \<and>
    row_keeps (dict_get ?c (dm_cohorts s)) (dict_get ?c (dm_cohorts s')) \<and>
    (dict_ok (dm_cohorts s) \<longrightarrow> dict_ok (dm_cohorts s')) \<and>
    (r = Some a \<longrightarrow> a = aggregate_offers ?c now fs \<and> pg_published k ?c now fs (dm_cohorts s) (dm_cohorts s'))"
  proof cases
    case skip
    define M where "M = (if changed \<or> adjacent then {?c} else {})"
    have d: "dm_cohorts s' = mark_cells M (dm_cohorts s)" using d2 skip(1) by (simp add: M_def)
    have "c \<noteq> ?c \<Longrightarrow> c \<notin> M" by (simp add: M_def)
    then have "c \<noteq> ?c \<longrightarrow> dict_get c (dm_cohorts s') = dict_get c (dm_cohorts s)"
      unfolding d mark_cells_get by (simp add: option.map_ident)
    moreover have "row_keeps (dict_get ?c (dm_cohorts s)) (dict_get ?c (dm_cohorts s'))"
      unfolding d mark_cells_get by (rule row_keeps_mark)
    ultimately show ?thesis using f2 skip mark_cells_ok d by simp
  next
    case publish
    then have d: "dm_cohorts s2 = dm_cohorts s" using d2 by simp
    have old: "dict_get ?c (dm_cohorts s) = None \<or> dict_get ?c (dm_cohorts s) = Some (?C, False)"
    proof (cases "dict_get ?c (dm_cohorts s)")
      case (Some v)
      then have "fst v = ?C" "\<not> snd v" using publish(3,5) pub by (simp_all add: changed_def)
      then show ?thesis using Some by (cases v) simp
    qed simp
    then have d': "dm_cohorts s' = dict_set ?c (?C, False) (dm_cohorts s)"
      using publish(1) d by (elim disjE) (simp_all add: write_cohort_def)
    have new: "dict_get ?c (dm_cohorts s') = Some (?C, False)" unfolding d' by simp
    have "row_keeps (dict_get ?c (dm_cohorts s)) (dict_get ?c (dm_cohorts s'))"
      using old new by (elim disjE) (simp_all add: row_keeps_def)
    moreover have "pg_published k ?c now fs (dm_cohorts s) (dm_cohorts s')"
      unfolding pg_published_def using publish(6,7) old new by blast
    moreover have "c \<noteq> ?c \<longrightarrow> dict_get c (dm_cohorts s') = dict_get c (dm_cohorts s)"
      unfolding d' by (intro impI dict_get_set_other)
    moreover have "?frame" "dict_ok (dm_cohorts s) \<longrightarrow> dict_ok (dm_cohorts s')"
      using publish(1) f2 d' by simp_all
    ultimately show ?thesis using publish(2) by blast
  qed
  then show ?frame "c \<noteq> ?c \<Longrightarrow> dict_get c (dm_cohorts s') = dict_get c (dm_cohorts s)"
    "row_keeps (dict_get ?c (dm_cohorts s)) (dict_get ?c (dm_cohorts s'))"
    "dict_ok (dm_cohorts s) \<Longrightarrow> dict_ok (dm_cohorts s')"
    "r = Some a \<Longrightarrow> a = aggregate_offers ?c now fs \<and> pg_published k ?c now fs (dm_cohorts s) (dm_cohorts s')"
    by blast+
qed

definition same_but_cohorts :: "pg_domain \<Rightarrow> pg_domain \<Rightarrow> bool" where
  "same_but_cohorts s s' \<longleftrightarrow> dm_offers s' = dm_offers s \<and> dm_sources s' = dm_sources s \<and>
     dm_resources s' = dm_resources s \<and> dm_query_budgets s' = dm_query_budgets s \<and> dm_snapshots s' = dm_snapshots s \<and>
     (dict_ok (dm_cohorts s) \<longrightarrow> dict_ok (dm_cohorts s')) \<and>
     (\<forall>c. row_keeps (dict_get c (dm_cohorts s)) (dict_get c (dm_cohorts s')))"

lemma pg_query_groups_outcome:
  assumes "pg_query_groups k t z now pub ps s = Inr (s', gs)" "distinct (List.map fst ps)"
    and "\<And>g. g \<in> fst ` set ps \<Longrightarrow> dict_get (t, z, g) pub = dict_get (t, z, g) (dm_cohorts s)"
  shows "same_but_cohorts s s' \<and>
    (\<forall>c. c \<notin> (\<lambda>g. (t, z, g)) ` fst ` set ps \<longrightarrow> dict_get c (dm_cohorts s') = dict_get c (dm_cohorts s)) \<and>
    (\<forall>a \<in> set gs. \<exists>g fs. (g, fs) \<in> set ps \<and> a = aggregate_offers (t, z, g) now fs \<and>
       pg_published k (t, z, g) now fs (dm_cohorts s) (dm_cohorts s'))"
  using assms
proof (induction ps arbitrary: s gs)
  case Nil
  then show ?case by (simp add: same_but_cohorts_def)
next
  case (Cons p ps)
  obtain g fs where p: "p = (g, fs)" by (cases p)
  obtain s1 r gs2 where 1: "pg_query_group k t z now pub (g, fs) s = Inr (s1, r)"
    and 2: "pg_query_groups k t z now pub ps s1 = Inr (s', gs2)"
    and gs: "gs = (case r of None \<Rightarrow> [] | Some a \<Rightarrow> [a]) @ gs2"
    using Cons.prems(1) p by (auto simp: bind_res_Inr)
  have pub: "dict_get (t, z, g) pub = dict_get (t, z, g) (dm_cohorts s)" using Cons.prems(3) p by simp
  note o1 = pg_query_group_outcome [OF 1 pub]
  have fresh: "g \<notin> fst ` set ps" using Cons.prems(2) p by auto
  have IH: "same_but_cohorts s1 s' \<and>
    (\<forall>c. c \<notin> (\<lambda>g. (t, z, g)) ` fst ` set ps \<longrightarrow> dict_get c (dm_cohorts s') = dict_get c (dm_cohorts s1)) \<and>
    (\<forall>a \<in> set gs2. \<exists>g fs. (g, fs) \<in> set ps \<and> a = aggregate_offers (t, z, g) now fs \<and>
       pg_published k (t, z, g) now fs (dm_cohorts s1) (dm_cohorts s'))"
  proof (rule Cons.IH [OF 2])
    show "distinct (List.map fst ps)" using Cons.prems(2) by simp
    fix g' assume g': "g' \<in> fst ` set ps"
    then have "g' \<noteq> g" using fresh by auto
    then have "dict_get (t, z, g') (dm_cohorts s1) = dict_get (t, z, g') (dm_cohorts s)" by (intro o1(2)) simp
    then show "dict_get (t, z, g') pub = dict_get (t, z, g') (dm_cohorts s1)" using Cons.prems(3) g' p by simp
  qed
  have keeps1: "row_keeps (dict_get c (dm_cohorts s)) (dict_get c (dm_cohorts s1))" for c
    using o1(2) [of c] o1(3) by (cases "c = (t, z, g)") auto
  have keeps: "row_keeps (dict_get c (dm_cohorts s)) (dict_get c (dm_cohorts s'))" for c
    using row_keeps_trans [OF keeps1] IH unfolding same_but_cohorts_def by blast
  have "same_but_cohorts s s'" using IH o1(1,4) keeps by (simp add: same_but_cohorts_def)
  moreover have "dict_get c (dm_cohorts s') = dict_get c (dm_cohorts s)" if "c \<notin> (\<lambda>g. (t, z, g)) ` fst ` set (p # ps)" for c
    using that IH o1(2) [of c] p by auto
  moreover have "\<exists>g fs. (g, fs) \<in> set (p # ps) \<and> a = aggregate_offers (t, z, g) now fs \<and>
       pg_published k (t, z, g) now fs (dm_cohorts s) (dm_cohorts s')" if a: "a \<in> set gs" for a
  proof (cases "a \<in> set gs2")
    case True
    then obtain g' fs' where g': "(g', fs') \<in> set ps" "a = aggregate_offers (t, z, g') now fs'"
      "pg_published k (t, z, g') now fs' (dm_cohorts s1) (dm_cohorts s')" using IH by blast
    then have "g' \<noteq> g" using fresh by force
    then have "dict_get (t, z, g') (dm_cohorts s1) = dict_get (t, z, g') (dm_cohorts s)" by (intro o1(2)) simp
    then show ?thesis using g' unfolding pg_published_def by (metis list.set_intros(2))
  next
    case False
    then have r: "r = Some a" using a gs by (cases r) auto
    have "(t, z, g) \<notin> (\<lambda>g. (t, z, g)) ` fst ` set ps" using fresh by auto
    then have "dict_get (t, z, g) (dm_cohorts s') = dict_get (t, z, g) (dm_cohorts s1)" using IH by blast
    then show ?thesis using o1(5) [OF r] p unfolding pg_published_def by (metis list.set_intros(1))
  qed
  ultimately show ?case by blast
qed

text \<open>The rows of one cell, and the group a query forms of them.\<close>

definition pg_cell_rows :: "cell \<Rightarrow> pg_domain \<Rightarrow> offer list" where
  "pg_cell_rows c s = filter (\<lambda>f. offer_cell f = c) (dict_values (dm_offers s))"

definition pg_cell_group :: "(string \<Rightarrow> string) \<Rightarrow> instant \<Rightarrow> offer list \<Rightarrow> offer list" where
  "pg_cell_group collation now L =
     sort_key (\<lambda>f. (offer_group f, collation (o_resource_id f))) (filter (\<lambda>f. now \<le> o_expires_at f) L)"

lemma sorted_groups_in:
  "(g, fs) \<in> set (sort_key fst (foldl add_to_group [] xs)) \<longleftrightarrow> fs = filter (\<lambda>f. offer_group f = g) xs \<and> fs \<noteq> []"
proof -
  have "dict_ok (foldl add_to_group [] xs)" by (simp add: dict_ok_add_to_group)
  then have "(g, fs) \<in> set (sort_key fst (foldl add_to_group [] xs)) \<longleftrightarrow> dict_get g (foldl add_to_group [] xs) = Some fs"
    by (simp only: set_sort dict_get_iff_in)
  then show ?thesis unfolding dict_get_add_to_groups Let_def dict_get_Nil option.case by (simp only: nonempty_Some_iff)
qed

lemma pg_window_group:
  assumes "(g, fs) \<in> set (pg_window_groups coll t z a b now s)"
  shows "fs = pg_cell_group coll now (pg_cell_rows (t, z, g) s)" "fs \<noteq> []"
proof -
  let ?K = "\<lambda>f. (offer_group f, coll (o_resource_id f))"
  have fs: "fs = filter (\<lambda>f. offer_group f = g) (sort_key ?K (pg_select (in_window t z a b now) s))"
    and ne: "fs \<noteq> []" using assms unfolding pg_window_groups_def sorted_groups_in by blast+
  from ne obtain e where "e \<in> set fs" by (cases fs) auto
  then have e: "in_window t z a b now e" "offer_group e = g" using fs by (auto simp: pg_select_def)
  have "filter (\<lambda>f. offer_group f = g) (pg_select (in_window t z a b now) s) =
     filter (\<lambda>f. now \<le> o_expires_at f) (pg_cell_rows (t, z, g) s)"
    unfolding pg_select_def pg_cell_rows_def filter_filter
    using e by (intro filter_cong) (auto simp: in_window_def offer_group_def offer_cell_def)
  then show "fs = pg_cell_group coll now (pg_cell_rows (t, z, g) s)"
    unfolding fs filter_sort pg_cell_group_def by simp
  show "fs \<noteq> []" by (rule ne)
qed

lemma pg_query_published:
  assumes q: "pg_query coll k z a b t now s = Inr (s', gs)"
  shows "same_but_cohorts s s'"
    and "x \<in> set gs \<Longrightarrow> \<exists>g. x = aggregate_offers (t, z, g) now (pg_cell_group coll now (pg_cell_rows (t, z, g) s)) \<and>
      pg_published k (t, z, g) now (pg_cell_group coll now (pg_cell_rows (t, z, g) s)) (dm_cohorts s) (dm_cohorts s')"
proof -
  have d: "distinct (List.map fst (pg_window_groups coll t z a b now s))"
    using dict_ok_sort [OF dict_ok_add_to_group [OF dict_ok_Nil]] by (simp add: pg_window_groups_def dict_ok_def)
  have pub: "dict_get (t, z, g) (published_rows t z s) = dict_get (t, z, g) (dm_cohorts s)" for g
  proof -
    have "published_rows t z s = filter (\<lambda>(c, v). fst c = t \<and> fst (snd c) = z) (dm_cohorts s)"
      unfolding published_rows_def by (rule filter_cong) auto
    then show ?thesis by (simp add: dict_get_filter_key)
  qed
  note o = pg_query_groups_outcome [OF q [unfolded pg_query_def] d pub]
  then show "same_but_cohorts s s'" by blast
  assume "x \<in> set gs"
  then obtain g fs where "(g, fs) \<in> set (pg_window_groups coll t z a b now s)"
    "x = aggregate_offers (t, z, g) now fs" "pg_published k (t, z, g) now fs (dm_cohorts s) (dm_cohorts s')"
    using o by blast
  then show "\<exists>g. x = aggregate_offers (t, z, g) now (pg_cell_group coll now (pg_cell_rows (t, z, g) s)) \<and>
      pg_published k (t, z, g) now (pg_cell_group coll now (pg_cell_rows (t, z, g) s)) (dm_cohorts s) (dm_cohorts s')"
    using pg_window_group(1) by blast
qed

lemma same_but_cohorts_inv: "dm_inv s \<Longrightarrow> same_but_cohorts s s' \<Longrightarrow> dm_inv s'"
  by (simp add: dm_inv_def same_but_cohorts_def)

end
