(* ===== verification/PgStoreProps.thy ===== *)
theory PgStoreProps
  imports PgStore
begin

text \<open>
  What the PostgreSQL offer store keeps over any history: publication is stable, the interfaces of
  the registry and of the offer source hold, and for one tenant the tables refine the in-memory
  store. An example shows where the two stores publish differently.
\<close>

section \<open>Stability of publication\<close>

definition pg_stable :: "cell \<Rightarrow> string set \<Rightarrow> offer list \<Rightarrow> pg_domain \<Rightarrow> bool" where
  "pg_stable c C L s \<longleftrightarrow> (\<exists>D. dict_get c (dm_cohorts s) = Some (D, True)) \<or>
     (dict_get c (dm_cohorts s) = Some (C, False) \<and> pg_cell_rows c s = L)"

lemma pg_stable_cong:
  "pg_stable c C L s \<Longrightarrow> dict_get c (dm_cohorts s') = dict_get c (dm_cohorts s) \<Longrightarrow> dm_offers s' = dm_offers s \<Longrightarrow>
   pg_stable c C L s'"
  by (simp add: pg_stable_def pg_cell_rows_def)

lemma marked_stable:
  assumes "pg_stable c C L s" "dm_cohorts s' = mark_cells M (dm_cohorts s)" "c \<notin> M \<Longrightarrow> pg_cell_rows c s' = pg_cell_rows c s"
  shows "pg_stable c C L s'"
proof (cases "c \<in> M")
  case True
  then show ?thesis using assms(1) unfolding pg_stable_def assms(2) mark_cells_get by auto
next
  case False
  then show ?thesis using assms(1) assms(3) [OF False] unfolding pg_stable_def assms(2) mark_cells_get by auto
qed

lemma pg_select_in: "e \<in> set (pg_select P s) \<longleftrightarrow> P e \<and> (\<exists>k. (k, e) \<in> set (dm_offers s))"
  by (force simp: pg_select_def dict_values_def)

lemma rows_after_drop:
  assumes "c \<notin> offer_cell ` set (pg_select P s)"
  shows "filter (\<lambda>f. offer_cell f = c) (dict_values (filter (\<lambda>(k, f). \<not> P f) (dm_offers s))) = pg_cell_rows c s"
  unfolding pg_cell_rows_def
proof (rule filter_values_filter)
  fix k e assume "(k, e) \<in> set (dm_offers s)" "offer_cell e = c"
  then have "\<not> P e" using assms pg_select_in by blast
  then show "case (k, e) of (k, f) \<Rightarrow> \<not> P f" by simp
qed

lemma drop_stable: "pg_stable c C L s \<Longrightarrow> pg_stable c C L (pg_drop P s)"
  by (erule marked_stable, simp, simp add: pg_cell_rows_def [of c "pg_drop P s"] rows_after_drop)

lemma withdraw_stable: "pg_stable c C L s \<Longrightarrow> pg_stable c C L (pg_withdraw rid P s)"
  unfolding pg_withdraw_drop using drop_stable [of c C L s P]
  by (auto elim: pg_stable_cong)

lemma upsert_stable:
  assumes "dm_inv s" "pg_upsert f s = Inr s'" "pg_stable c C L s"
  shows "pg_stable c C L s'"
  using pg_upsert_Inr [OF assms(1,2)]
proof (elim disjE)
  assume st: "pg_stored f s s'"
  show ?thesis
  proof (rule marked_stable [OF assms(3)])
    show "dm_cohorts s' = mark_cells ({offer_cell f} \<union> offer_cell ` set (pg_select (obsolete_row f) s)) (dm_cohorts s)"
      using st by (simp add: pg_stored_def)
    assume c: "c \<notin> {offer_cell f} \<union> offer_cell ` set (pg_select (obsolete_row f) s)"
    then have "offer_cell f \<noteq> c" by auto
    then have "pg_cell_rows c s' = filter (\<lambda>f. offer_cell f = c) (dict_values (filter (\<lambda>(k, e). \<not> obsolete_row f e) (dm_offers s)))"
      using st by (simp add: pg_stored_def pg_cell_rows_def dict_values_def)
    then show "pg_cell_rows c s' = pg_cell_rows c s" using rows_after_drop [of c "obsolete_row f" s] c by simp
  qed
qed (use assms(3) in simp)

lemma register_stable:
  assumes "pg_register p s = Inr s'" "pg_stable c C L s"
  shows "pg_stable c C L s'"
proof -
  have w: "write_resource p s1 = Inr s' \<Longrightarrow> pg_stable c C L s1 \<Longrightarrow> pg_stable c C L s'" for s1
    by (auto simp: write_resource_def elim: pg_stable_cong split: if_splits)
  show ?thesis using assms unfolding pg_register_def
    by (auto split: option.splits if_splits intro: w withdraw_stable)
qed

lemma query_stable:
  assumes "same_but_cohorts s s'" "pg_stable c C L s"
  shows "pg_stable c C L s'"
proof -
  have rows: "pg_cell_rows c s' = pg_cell_rows c s" using assms(1) by (simp add: same_but_cohorts_def pg_cell_rows_def)
  have "row_keeps (dict_get c (dm_cohorts s)) (dict_get c (dm_cohorts s'))"
    using assms(1) by (simp add: same_but_cohorts_def)
  with assms(2) show ?thesis unfolding pg_stable_def rows
    by (elim disjE conjE exE) (auto simp: row_keeps_def)
qed

text \<open>Any history of the tables; what fails is rolled back.\<close>

datatype pg_domain_op =
    Pg_register resource
  | Pg_upsert offer
  | Pg_remove string string
  | Pg_query string instant instant string instant
  | Pg_consume string instant int
  | Pg_publish string string instant instant instant "aggregate list"

definition or_rolled_back :: "pg_domain \<Rightarrow> 'e + pg_domain \<Rightarrow> pg_domain" where
  "or_rolled_back s r = (case r of Inl e \<Rightarrow> s | Inr s' \<Rightarrow> s')"

fun pg_domain_step :: "(string \<Rightarrow> string) \<Rightarrow> int \<Rightarrow> pg_domain \<Rightarrow> pg_domain_op \<Rightarrow> pg_domain" where
  "pg_domain_step coll k s (Pg_register p) = or_rolled_back s (pg_register p s)"
| "pg_domain_step coll k s (Pg_upsert f) = or_rolled_back s (pg_upsert f s)"
| "pg_domain_step coll k s (Pg_remove rid t) = fst (pg_remove_resource rid t s)"
| "pg_domain_step coll k s (Pg_query z a b t now) =
     or_rolled_back s (map_sum id fst (pg_query coll k z a b t now s))"
| "pg_domain_step coll k s (Pg_consume t w l) = or_rolled_back s (map_sum id fst (pg_consume_privacy_query t w l s))"
| "pg_domain_step coll k s (Pg_publish t z e a b gs) =
     or_rolled_back s (map_sum id fst (pg_publish_privacy_snapshot t z e a b gs s))"

definition run_pg_domain :: "(string \<Rightarrow> string) \<Rightarrow> int \<Rightarrow> pg_domain \<Rightarrow> pg_domain_op list \<Rightarrow> pg_domain" where
  "run_pg_domain coll k s ops = foldl (pg_domain_step coll k) s ops"

lemma or_rolled_back_cases:
  assumes "P s" "\<And>s'. r = Inr s' \<Longrightarrow> P s'"
  shows "P (or_rolled_back s r)"
  using assms by (cases r) (simp_all add: or_rolled_back_def)

lemma or_rolled_back_fst:
  assumes "P s" "\<And>s' x. r = Inr (s', x) \<Longrightarrow> P s'"
  shows "P (or_rolled_back s (map_sum id fst r))"
  using assms by (cases r) (auto simp: or_rolled_back_def)

lemma budget_tables:
  "pg_consume_privacy_query t w l s = Inr (s', b) \<Longrightarrow> dm_offers s' = dm_offers s \<and> dm_sources s' = dm_sources s \<and>
     dm_cohorts s' = dm_cohorts s \<and> dm_resources s' = dm_resources s"
  "pg_publish_privacy_snapshot t z e a c gs s = Inr (s'', rows) \<Longrightarrow> dm_offers s'' = dm_offers s \<and>
     dm_sources s'' = dm_sources s \<and> dm_cohorts s'' = dm_cohorts s \<and> dm_resources s'' = dm_resources s"
  by (auto simp: pg_consume_privacy_query_def pg_publish_privacy_snapshot_def Let_def split: if_splits)

lemma same_tables_laws:
  assumes "dm_inv s" "dm_offers s' = dm_offers s \<and> dm_sources s' = dm_sources s \<and> dm_cohorts s' = dm_cohorts s \<and>
     dm_resources s' = dm_resources s"
  shows "dm_inv s' \<and> (pg_stable c C L s \<longrightarrow> pg_stable c C L s')"
  using assms by (simp add: dm_inv_def pg_stable_def pg_cell_rows_def)

lemma pg_domain_step_laws:
  assumes inv: "dm_inv s"
  shows "dm_inv (pg_domain_step coll k s p) \<and> (pg_stable c C L s \<longrightarrow> pg_stable c C L (pg_domain_step coll k s p))"
proof -
  define Q where "Q s' \<longleftrightarrow> dm_inv s' \<and> (pg_stable c C L s \<longrightarrow> pg_stable c C L s')" for s'
  have Q: "Q s" using inv by (simp add: Q_def)
  have "Q (pg_domain_step coll k s p)"
  proof (cases p)
    case (Pg_register r)
    have "Q s'" if "pg_register r s = Inr s'" for s'
      unfolding Q_def using that inv pg_register_inv register_stable by blast
    then show ?thesis unfolding Pg_register pg_domain_step.simps using Q by (intro or_rolled_back_cases [of Q])
  next
    case (Pg_upsert f)
    have "Q s'" if "pg_upsert f s = Inr s'" for s'
      unfolding Q_def using that inv pg_upsert_inv upsert_stable by blast
    then show ?thesis unfolding Pg_upsert pg_domain_step.simps using Q by (intro or_rolled_back_cases [of Q])
  next
    case (Pg_remove rid t)
    then show ?thesis using inv pg_withdraw_inv withdraw_stable by (simp add: pg_remove_resource_def Q_def)
  next
    case (Pg_query z a b t now)
    have "Q s'" if "pg_query coll k z a b t now s = Inr (s', gs)" for s' gs
      unfolding Q_def using pg_query_published(1) [OF that] same_but_cohorts_inv [OF inv] query_stable by blast
    then show ?thesis unfolding Pg_query pg_domain_step.simps using Q by (intro or_rolled_back_fst [of Q])
  next
    case (Pg_consume t w l)
    have "Q s'" if "pg_consume_privacy_query t w l s = Inr (s', x)" for s' x
      unfolding Q_def by (rule same_tables_laws [OF inv budget_tables(1) [OF that]])
    then show ?thesis unfolding Pg_consume pg_domain_step.simps using Q by (intro or_rolled_back_fst [of Q])
  next
    case (Pg_publish t z e a b gs)
    have "Q s'" if "pg_publish_privacy_snapshot t z e a b gs s = Inr (s', x)" for s' x
      unfolding Q_def by (rule same_tables_laws [OF inv budget_tables(2) [OF that]])
    then show ?thesis unfolding Pg_publish pg_domain_step.simps using Q by (intro or_rolled_back_fst [of Q])
  qed
  then show ?thesis by (simp add: Q_def)
qed

lemma run_pg_domain_laws:
  assumes "dm_inv s"
  shows "dm_inv (run_pg_domain coll k s ops)"
    and "pg_stable c C L s \<Longrightarrow> pg_stable c C L (run_pg_domain coll k s ops)"
proof -
  have "dm_inv (foldl (pg_domain_step coll k) s ops) \<and>
    (pg_stable c C L s \<longrightarrow> pg_stable c C L (foldl (pg_domain_step coll k) s ops))"
    by (rule foldl_invariant) (use assms pg_domain_step_laws in blast)+
  then show "dm_inv (run_pg_domain coll k s ops)" "pg_stable c C L s \<Longrightarrow> pg_stable c C L (run_pg_domain coll k s ops)"
    by (simp_all add: run_pg_domain_def)
qed

lemma distinct_cell_rows:
  assumes "dm_inv s"
  shows "distinct (List.map o_resource_id (pg_cell_rows c s))"
proof -
  have "List.map fst (dm_offers s) = List.map row_key (dict_values (dm_offers s))"
    using dm_invD(3) [OF assms] by (auto simp: dict_values_def)
  then have "distinct (List.map row_key (pg_cell_rows c s))"
    using dm_invD(1) [OF assms] unfolding pg_cell_rows_def by (simp add: dict_ok_def distinct_map_filter)
  moreover have "row_key e = row_key f" if "e \<in> set (pg_cell_rows c s)" "f \<in> set (pg_cell_rows c s)"
      "o_resource_id e = o_resource_id f" for e f
  proof -
    from that(1,2) have "offer_cell e = offer_cell f" by (simp add: pg_cell_rows_def)
    then show ?thesis using that(3) by (simp add: offer_cell_def row_key_def)
  qed
  ultimately show ?thesis unfolding distinct_map inj_on_def by blast
qed

lemma cohort_cell_group: "cohort_of (pg_cell_group coll now L) = o_resource_id ` set (filter (\<lambda>f. now \<le> o_expires_at f) L)"
  by (simp add: cohort_of_def pg_cell_group_def)

lemma pg_publications_equal:
  assumes inv: "dm_inv s1"
    and q1: "pg_query coll k z a b t now s1 = Inr (s2, gs)" and g: "g \<in> set gs"
    and q2: "pg_query coll k z' a' b' t' now' (run_pg_domain coll k s2 ops) = Inr (s4, gs')" and g': "g' \<in> set gs'"
    and same: "aggregate_cell g' = aggregate_cell g"
  shows "g' = g\<lparr>g_generated_at := now'\<rparr>" "k \<le> g_participant_count g"
proof -
  let ?s3 = "run_pg_domain coll k s2 ops"
  note p1 = pg_query_published [OF q1] and p2 = pg_query_published [OF q2]
  from p1(2) [OF g] obtain x where x: "g = aggregate_offers (t, z, x) now (pg_cell_group coll now (pg_cell_rows (t, z, x) s1))"
    and ok1: "pg_published k (t, z, x) now (pg_cell_group coll now (pg_cell_rows (t, z, x) s1)) (dm_cohorts s1) (dm_cohorts s2)"
    by blast
  from p2(2) [OF g'] obtain x' where x': "g' = aggregate_offers (t', z', x') now' (pg_cell_group coll now' (pg_cell_rows (t', z', x') ?s3))"
    and ok2: "pg_published k (t', z', x') now' (pg_cell_group coll now' (pg_cell_rows (t', z', x') ?s3)) (dm_cohorts ?s3) (dm_cohorts s4)"
    by blast
  define c where "c = (t, z, x)"
  have c': "(t', z', x') = c" using same x x' by (simp add: c_def)
  define L where "L = pg_cell_rows c s1"
  define C where "C = cohort_of (pg_cell_group coll now L)"
  have L2: "pg_cell_rows c s2 = L" using p1(1) by (simp add: L_def same_but_cohorts_def pg_cell_rows_def)
  have "pg_stable c C L s2" using ok1 L2 by (simp add: pg_stable_def pg_published_def C_def L_def c_def)
  then have st: "pg_stable c C L ?s3" by (rule run_pg_domain_laws(2) [OF same_but_cohorts_inv [OF inv p1(1)]])
  from ok2 have "dict_get c (dm_cohorts ?s3) = None \<or> dict_get c (dm_cohorts ?s3) = Some (cohort_of (pg_cell_group coll now' (pg_cell_rows c ?s3)), False)"
    by (simp add: pg_published_def c')
  then have L3: "pg_cell_rows c ?s3 = L" and C3: "C = cohort_of (pg_cell_group coll now' L)"
    using st by (auto simp: pg_stable_def)
  have "filter (\<lambda>f. now' \<le> o_expires_at f) L = filter (\<lambda>f. now \<le> o_expires_at f) L"
    using C3 [unfolded C_def cohort_cell_group] distinct_cell_rows [OF inv, of c] unfolding L_def
    by (intro filter_eq_of_image) (simp_all add: eq_commute)
  then have "g' = aggregate_offers c now' (pg_cell_group coll now L)"
    using x' c' L3 by (simp add: pg_cell_group_def)
  then show "g' = g\<lparr>g_generated_at := now'\<rparr>" using x by (cases c) (simp add: aggregate_offers_def c_def L_def)
  have "g_participant_count (aggregate_offers d n fs) = int (card (cohort_of fs))" for d n fs
    by (cases d) (simp add: aggregate_offers_def)
  then show "k \<le> g_participant_count g" using ok1 unfolding x pg_published_def by simp
qed

text \<open>
  C7 pg_publication_stable. In the database, too, the publication of a cell is stable: two queries
  that publish one cell, with any history of registrations, offers, removals and queries of any
  tenant in between, publish the same aggregate but for the generation time, and each counts at
  least the configured minimum of distinct resources.
\<close>

theorem pg_publication_stable:
  assumes inv: "dm_inv s1"
    and q1: "pg_query coll k z a b t now s1 = Inr (s2, gs)" and g: "g \<in> set gs"
    and q2: "pg_query coll k z' a' b' t' now' (run_pg_domain coll k s2 ops) = Inr (s4, gs')" and g': "g' \<in> set gs'"
    and same: "aggregate_cell g' = aggregate_cell g"
  shows "g' = g\<lparr>g_generated_at := now'\<rparr> \<and> k \<le> g_participant_count g"
  using pg_publications_equal [OF assms] by blast

section \<open>The interfaces\<close>

definition dm_resources_ok :: "pg_domain \<Rightarrow> bool" where
  "dm_resources_ok s \<longleftrightarrow> dict_ok (dm_resources s) \<and>
     (\<forall>(k, p) \<in> set (dm_resources s). p_resource_id p = k \<and> resource_ok p)"

lemma resource_check_ok: "resource_check p \<Longrightarrow> resource_ok p"
  by (auto simp: resource_check_def resource_ok_def)

lemma pg_withdraw_resources [simp]: "dm_resources (pg_withdraw rid P s) = dm_resources s"
  by (simp add: pg_withdraw_drop)

lemma pg_register_resources_ok: "dm_resources_ok s \<Longrightarrow> pg_register p s = Inr s' \<Longrightarrow> dm_resources_ok s'"
proof -
  have "write_resource p s1 = Inr s' \<Longrightarrow> dm_resources_ok s1 \<Longrightarrow> dm_resources_ok s'" for s1
    by (auto simp: write_resource_def dm_resources_ok_def set_dict_set resource_check_ok split: if_splits)
  moreover have "dm_resources_ok s \<Longrightarrow> dm_resources_ok (pg_withdraw rid P s)" for rid P
    by (simp add: dm_resources_ok_def)
  ultimately show "dm_resources_ok s \<Longrightarrow> pg_register p s = Inr s' \<Longrightarrow> dm_resources_ok s'"
    by (auto simp: pg_register_def split: option.splits if_splits)
qed

lemma pg_require_table: "pg_require rid z t s = require rid z t (dm_resources s)"
  by (simp add: pg_require_def require_def)

interpretation pg_registry: resource_registry pg_require dm_resources_ok
  by unfold_locales (auto simp: pg_require_table require_Inr dm_resources_ok_def dest!: dict_get_Some_in)

lemma pg_eligible_rows:
  "pg_eligible_offers coll t z a b q now s =
     sort_key (coll \<circ> o_resource_id) (filter (\<lambda>f. now \<le> o_expires_at f) (pg_cell_rows (t, z, a, b, q) s))"
  unfolding pg_eligible_offers_def pg_select_def pg_cell_rows_def filter_filter offer_cell_def
  by (rule arg_cong [where f = "sort_key (coll \<circ> o_resource_id)"], rule filter_cong) auto

lemma pg_cell_rows_ok:
  assumes "dm_inv s" "f \<in> set (pg_cell_rows c s)"
  shows "offer_ok f" "offer_cell f = c"
  using assms dm_invD(4) [OF assms(1)] by (auto simp: pg_cell_rows_def dict_values_def)

interpretation pg_store: offer_source "pg_eligible_offers id" dm_inv
proof
  fix s f t z a b q now
  assume inv: "dm_inv s"
  show "f \<in> set (pg_eligible_offers id t z a b q now s) \<Longrightarrow>
      offer_ok f \<and> offer_cell f = (t, z, a, b, q) \<and> now \<le> o_expires_at f"
    using pg_cell_rows_ok [OF inv] by (auto simp: pg_eligible_rows)
  show "distinct (List.map o_resource_id (pg_eligible_offers id t z a b q now s))"
    using distinct_cell_rows [OF inv] by (simp add: pg_eligible_rows distinct_map_sort_key distinct_map_filter)
  show "sorted (List.map o_resource_id (pg_eligible_offers id t z a b q now s))"
    by (simp add: pg_eligible_offers_def)
qed

section \<open>Refinement of the in-memory store\<close>

text \<open>The in-memory store the tables of one tenant stand for.\<close>

definition abs_offers :: "(row_key, offer) dict \<Rightarrow> (offer_key, offer) dict" where
  "abs_offers d = List.map (\<lambda>(k, f). (offer_key f, f)) d"

definition abs_sources :: "string \<Rightarrow> (string, source_row) dict \<Rightarrow> (resource_key, position) dict" where
  "abs_sources T d = List.map (\<lambda>(r, row). ((T, r), so_position row)) d"

definition abs_disconnected :: "string \<Rightarrow> (string, source_row) dict \<Rightarrow> resource_key set" where
  "abs_disconnected T d = {(T, r) | r. \<exists>row. dict_get r d = Some row \<and> so_disconnected row}"

definition abs_marked :: "(cell, string set \<times> bool) dict \<Rightarrow> cell set" where
  "abs_marked d = {c. \<exists>C. dict_get c d = Some (C, True)}"

definition dm_abs :: "string \<Rightarrow> int \<Rightarrow> pg_domain \<Rightarrow> offer_store" where
  "dm_abs T k s = \<lparr> minimum_participants = k, offers = abs_offers (dm_offers s),
     source_positions = abs_sources T (dm_sources s), disconnected_resources = abs_disconnected T (dm_sources s),
     published_cohorts = List.map (\<lambda>(c, v). (c, fst v)) (dm_cohorts s), suppressed_cells = abs_marked (dm_cohorts s),
     privacy_query_counts = dm_query_budgets s, privacy_snapshots = dm_snapshots s \<rparr>"

lemma dm_abs_simps [simp]:
  "minimum_participants (dm_abs T k s) = k" "offers (dm_abs T k s) = abs_offers (dm_offers s)"
  "source_positions (dm_abs T k s) = abs_sources T (dm_sources s)"
  "disconnected_resources (dm_abs T k s) = abs_disconnected T (dm_sources s)"
  "published_cohorts (dm_abs T k s) = List.map (\<lambda>(c, v). (c, fst v)) (dm_cohorts s)"
  "suppressed_cells (dm_abs T k s) = abs_marked (dm_cohorts s)"
  "privacy_query_counts (dm_abs T k s) = dm_query_budgets s" "privacy_snapshots (dm_abs T k s) = dm_snapshots s"
  by (simp_all add: dm_abs_def)

lemma abs_sources_get: "dict_get (T, r) (abs_sources T d) = map_option so_position (dict_get r d)"
  unfolding abs_sources_def by (induction d) (auto simp: dict_get_def)

lemma abs_sources_set: "abs_sources T (dict_set r row d) = dict_set (T, r) (so_position row) (abs_sources T d)"
  unfolding abs_sources_def dict_set_def by (induction d) auto

lemma abs_disconnected_in: "(T, r) \<in> abs_disconnected T d \<longleftrightarrow> (\<exists>row. dict_get r d = Some row \<and> so_disconnected row)"
  by (simp add: abs_disconnected_def)

lemma abs_disconnected_set:
  "\<not> so_disconnected row \<Longrightarrow> abs_disconnected T (dict_set r row d) = abs_disconnected T d - {(T, r)}"
  by (auto simp: abs_disconnected_def dict_get_set)

lemma abs_marked_mark: "abs_marked (mark_cells M d) = abs_marked d \<union> {c \<in> M. dict_get c d \<noteq> None}"
  unfolding abs_marked_def mark_cells_get by (auto split: if_splits)

lemma cohorts_mark: "List.map (\<lambda>(c, v). (c, fst v)) (mark_cells M d) = List.map (\<lambda>(c, v). (c, fst v)) d"
  by (simp add: mark_cells_def case_prod_unfold)

lemma cohorts_get: "dict_get c (List.map (\<lambda>(c, v). (c, fst v)) d) = map_option fst (dict_get c d)"
  by (rule dict_get_map_values)

text \<open>The state of one tenant's tables.\<close>

definition one_tenant :: "string \<Rightarrow> int \<Rightarrow> pg_domain \<Rightarrow> bool" where
  "one_tenant T k s \<longleftrightarrow> dm_inv s \<and> (\<forall>(i, f) \<in> set (dm_offers s). o_tenant_id f = T) \<and> store_inv (dm_abs T k s)"

lemma one_tenantD:
  assumes "one_tenant T k s"
  shows "dm_inv s" "store_inv (dm_abs T k s)" "(i, f) \<in> set (dm_offers s) \<Longrightarrow> o_tenant_id f = T"
  using assms by (auto simp: one_tenant_def)

lemma offer_key_row_key: "offer_key f = (o_tenant_id f, fst (row_key f), fst (snd (row_key f)), fst (snd (snd (row_key f))), snd (snd (snd (row_key f))))"
  by (simp add: offer_key_def row_key_def)

lemma abs_offers_get:
  assumes "\<And>i e. (i, e) \<in> set d \<Longrightarrow> i = row_key e \<and> o_tenant_id e = o_tenant_id f"
  shows "dict_get (offer_key f) (abs_offers d) = dict_get (row_key f) d"
  using assms unfolding abs_offers_def
proof (induction d)
  case (Cons p d)
  obtain i e where p: "p = (i, e)" by (cases p)
  have e: "i = row_key e" "o_tenant_id e = o_tenant_id f" using Cons.prems [of i e] p by auto
  then have "offer_key f = offer_key e \<longleftrightarrow> row_key f = i" by (auto simp: offer_key_def row_key_def)
  moreover have "dict_get (offer_key f) (List.map (\<lambda>(k, f). (offer_key f, f)) d) = dict_get (row_key f) d"
    by (rule Cons.IH, rule Cons.prems, erule list.set_intros(2))
  ultimately show ?case using p by (auto simp: dict_get_def)
qed simp

text \<open>Dropping offers with their cells suppressed, in both stores.\<close>

lemma abs_drop:
  assumes one: "one_tenant T k s"
    and ks: "ks = List.map fst (filter (\<lambda>(i, f). P f) (offers (dm_abs T k s)))"
  shows "foldl drop_offer (dm_abs T k s) ks = dm_abs T k (pg_drop P s)"
proof -
  let ?s = "dm_abs T k s"
  have ok: "dict_ok (offers ?s)" using one_tenantD(2) [OF one] by (simp only: store_inv_def)
  have mem: "i \<in> set ks \<longleftrightarrow> P f" if "(i, f) \<in> set (offers ?s)" for i f
  proof
    assume "i \<in> set ks"
    then obtain g where "(i, g) \<in> set (offers ?s)" "P g" unfolding ks by auto
    then show "P f" using that ok by (metis dict_get_iff_in option.inject)
  qed (use that ks in force)
  have "offers (foldl drop_offer ?s ks) = filter (\<lambda>(i, f). \<not> P f) (offers ?s)"
    unfolding drop_offers_offers by (rule filter_cong) (use mem in auto)
  then have 1: "offers (foldl drop_offer ?s ks) = offers (dm_abs T k (pg_drop P s))"
    by (simp add: abs_offers_def filter_map comp_def case_prod_unfold)
  have "suppressed_cells (foldl drop_offer ?s ks) = abs_marked (dm_cohorts s) \<union>
     {c. \<exists>i \<in> set ks. \<exists>f. dict_get i (offers ?s) = Some f \<and> c = offer_cell f \<and> dict_get c (published_cohorts ?s) \<noteq> None}"
    unfolding drop_offers_suppressed [OF ok] dm_abs_simps(6) ..
  also have "{c. \<exists>i \<in> set ks. \<exists>f. dict_get i (offers ?s) = Some f \<and> c = offer_cell f \<and> dict_get c (published_cohorts ?s) \<noteq> None} =
      {c \<in> offer_cell ` set (pg_select P s). dict_get c (dm_cohorts s) \<noteq> None}" (is "?A = ?B")
  proof -
    have sel: "(\<exists>i \<in> set ks. dict_get i (offers ?s) = Some f) \<longleftrightarrow> f \<in> set (pg_select P s)" for f
    proof -
      have "(\<exists>i \<in> set ks. dict_get i (offers ?s) = Some f) \<longleftrightarrow> (\<exists>i. (i, f) \<in> set (offers ?s) \<and> P f)"
        unfolding dict_get_iff_in [OF ok] using mem by blast
      also have "\<dots> \<longleftrightarrow> f \<in> set (pg_select P s)" unfolding pg_select_in by (auto simp: abs_offers_def)
      finally show ?thesis .
    qed
    have "?A = {c. \<exists>f. (\<exists>i \<in> set ks. dict_get i (offers ?s) = Some f) \<and> c = offer_cell f \<and> dict_get c (published_cohorts ?s) \<noteq> None}"
      by blast
    also have "\<dots> = ?B" unfolding sel dm_abs_simps(5) cohorts_get by auto
    finally show ?thesis .
  qed
  finally have 2: "suppressed_cells (foldl drop_offer ?s ks) = suppressed_cells (dm_abs T k (pg_drop P s))"
    by (simp add: abs_marked_mark)
  show ?thesis using 1 2 by (intro offer_store.equality) (simp_all add: cohorts_mark)
qed


lemma abs_suppress: "dm_abs T k (pg_suppress s c) = suppress_if_published c (dm_abs T k s)"
proof (cases "dict_get c (dm_cohorts s)")
  case None
  then have "abs_marked (dm_cohorts (pg_suppress s c)) = abs_marked (dm_cohorts s)"
    by (auto simp: pg_suppress_cohorts abs_marked_mark)
  then show ?thesis using None
    by (intro offer_store.equality) (simp_all add: suppress_if_published_def cohorts_get pg_suppress_cohorts cohorts_mark)
next
  case (Some v)
  then have "abs_marked (dm_cohorts (pg_suppress s c)) = insert c (abs_marked (dm_cohorts s))"
    by (auto simp: pg_suppress_cohorts abs_marked_mark)
  then show ?thesis using Some
    by (intro offer_store.equality) (simp_all add: suppress_if_published_def cohorts_get pg_suppress_cohorts cohorts_mark)
qed

lemma abs_source:
  assumes "write_source f s = Inr s'" "o_tenant_id f = T"
  shows "dm_abs T k s' = advance_source f (dm_abs T k s)"
  using assms unfolding write_source_Inr
  by (intro offer_store.equality)
    (simp_all add: advance_source_def offer_resource_key_def abs_sources_set abs_disconnected_set)

lemma abs_store_offer:
  assumes "\<And>i e. (i, e) \<in> set (dm_offers s) \<Longrightarrow> i = row_key e \<and> o_tenant_id e = o_tenant_id f"
    and pos: "\<And>e. dict_get (row_key f) (dm_offers s) = Some e \<Longrightarrow> offer_position e = offer_position f"
    and "offer_check f"
  shows "case pg_store_offer f s of
      Inr s' \<Rightarrow> store_offer f (dm_abs T k s) = (dm_abs T k s', Inr ())
    | Inl e \<Rightarrow> e = Store OfferVersionConflict \<and> store_offer f (dm_abs T k s) = (dm_abs T k s, Inl OfferVersionConflict)"
proof -
  note get = abs_offers_get [OF assms(1)]
  show ?thesis
  proof (cases "dict_get (row_key f) (dm_offers s)")
    case None
    let ?s' = "(pg_suppress s (offer_cell f))\<lparr>dm_offers := dict_set (row_key f) f (dm_offers s)\<rparr>"
    have "pg_store_offer f s = Inr ?s'" using None assms(3) by (simp add: pg_store_offer_def write_offer_def)
    moreover have "store_offer f (dm_abs T k s) = ((suppress_if_published (offer_cell f) (dm_abs T k s))
        \<lparr>offers := abs_offers (dm_offers s) @ [(offer_key f, f)]\<rparr>, Inr ())"
      using None get by (simp add: store_offer_def dict_set_new)
    moreover have "dm_abs T k ?s' = (suppress_if_published (offer_cell f) (dm_abs T k s))
        \<lparr>offers := abs_offers (dm_offers s) @ [(offer_key f, f)]\<rparr>"
      unfolding abs_suppress [symmetric] using None
      by (intro offer_store.equality) (simp_all add: abs_offers_def dict_set_new)
    ultimately show ?thesis by simp
  next
    case (Some e)
    then show ?thesis using get pos [OF Some] by (simp add: pg_store_offer_def store_offer_def)
  qed
qed

text \<open>The positions of one tenant's sources decide alike in both stores.\<close>

definition storable :: "string \<Rightarrow> pg_domain \<Rightarrow> offer \<Rightarrow> bool" where
  "storable T s f \<longleftrightarrow> o_tenant_id f = T \<and> offer_check f \<and> dict_get (o_resource_id f) (dm_resources s) \<noteq> None"

lemma abs_upsert:
  assumes one: "one_tenant T k s" and f: "storable T s f"
  shows "case pg_upsert f s of
      Inr s' \<Rightarrow> upsert f (dm_abs T k s) = (dm_abs T k s', Inr ()) \<and> one_tenant T k s' \<and> dm_resources s' = dm_resources s
    | Inl e \<Rightarrow> (\<exists>e'. e = Store e' \<and> upsert f (dm_abs T k s) = (dm_abs T k s, Inl e'))"
proof -
  let ?rid = "o_resource_id f" and ?pos = "offer_position f" and ?s1 = "pg_drop (obsolete_row f) s"
  have T: "o_tenant_id f = T" and chk: "offer_check f" and res: "dict_get ?rid (dm_resources s) \<noteq> None"
    using f by (simp_all add: storable_def)
  note inv = one_tenantD(1) [OF one] and sinv = one_tenantD(2) [OF one]
  have rk: "offer_resource_key f = (T, ?rid)" using T by (simp add: offer_resource_key_def)
  have src: "dict_get (offer_resource_key f) (source_positions (dm_abs T k s)) = map_option so_position (dict_get ?rid (dm_sources s))"
    by (simp add: rk abs_sources_get)
  have dis: "offer_resource_key f \<in> disconnected_resources (dm_abs T k s) \<longleftrightarrow>
      (\<exists>row. dict_get ?rid (dm_sources s) = Some row \<and> so_disconnected row)"
    by (simp add: rk abs_disconnected_in)
  show ?thesis
  proof (cases "pg_stale f s")
    case True
    then obtain row where "dict_get ?rid (dm_sources s) = Some row"
      "so_disconnected row \<and> ?pos \<le> so_position row \<or> ?pos < so_position row"
      by (auto simp: pg_stale_def split: option.splits)
    then have "upsert f (dm_abs T k s) = (dm_abs T k s, Inl StaleOfferError)"
      using src dis by (auto simp: upsert_def)
    then show ?thesis using True by (simp add: pg_upsert_eq [OF inv])
  next
    case False
    have ks: "obsolete_keys f (dm_abs T k s) = List.map fst (filter (\<lambda>(i, e). obsolete_row f e) (offers (dm_abs T k s)))"
      unfolding obsolete_keys_def
      by (rule arg_cong [where f = "List.map fst"], rule filter_cong)
        (use one_tenantD(3) [OF one] T in \<open>auto simp: abs_offers_def obsolete_row_def\<close>)
    note drop = abs_drop [OF one ks]
    have up: "upsert f (dm_abs T k s) = store_offer f (advance_source f (dm_abs T k ?s1))"
    proof (cases "dict_get ?rid (dm_sources s)")
      case None
      then have "?s1 = s" using no_obsolete_rows [OF inv, of f] by simp
      then show ?thesis using None src by (simp add: upsert_def)
    next
      case (Some row)
      then have ns: "\<not> (so_disconnected row \<and> ?pos \<le> so_position row)" "\<not> ?pos < so_position row"
        using False by (auto simp: pg_stale_def)
      show ?thesis
      proof (cases "so_position row < ?pos")
        case True
        then show ?thesis using Some ns src dis drop by (auto simp: upsert_def)
      next
        case not_new: False
        have "?s1 = s" by (rule no_obsolete_rows [OF inv]) (use Some not_new in auto)
        then show ?thesis using Some ns not_new src dis by (simp add: upsert_def)
      qed
    qed
    obtain s2 where s2: "write_source f ?s1 = Inr s2"
      using chk res by (simp add: write_source_def offer_check_def)
    then have s2_offers: "dm_offers s2 = dm_offers ?s1" "dm_resources s2 = dm_resources s"
      unfolding write_source_Inr by simp_all
    have pg: "pg_upsert f s = pg_store_offer f s2" using False s2 by (simp add: pg_upsert_eq [OF inv])
    have keys: "i = row_key e \<and> o_tenant_id e = o_tenant_id f" if "(i, e) \<in> set (dm_offers s2)" for i e
    proof -
      have e: "(i, e) \<in> set (dm_offers s)" using that by (simp add: s2_offers)
      show ?thesis using dm_invD(3) [OF inv e] one_tenantD(3) [OF one e] T by simp
    qed
    have pos: "offer_position e = ?pos" if e: "dict_get (row_key f) (dm_offers s2) = Some e" for e
    proof -
      have in1: "(row_key f, e) \<in> set (dm_offers ?s1)" using dict_get_Some_in [OF e] s2_offers by simp
      then have "row_key f = row_key e" using keys s2_offers by simp
      then show ?thesis using not_stale_position [OF inv False in1] by (simp add: row_key_def)
    qed
    note st = abs_store_offer [where s = s2 and f = f and T = T and k = k, OF keys pos chk]
    have mem: "upsert f (dm_abs T k s) = store_offer f (dm_abs T k s2)" unfolding up abs_source [OF s2 T] ..
    show ?thesis
    proof (cases "pg_store_offer f s2")
      case (Inl e)
      then have "e = Store OfferVersionConflict" "snd (upsert f (dm_abs T k s)) = Inl OfferVersionConflict"
        using st mem by auto
      moreover from this(2) have "upsert f (dm_abs T k s) = (dm_abs T k s, Inl OfferVersionConflict)"
        using upsert_outcome [OF sinv, of f] by auto
      ultimately show ?thesis using pg Inl by simp
    next
      case (Inr s')
      have m: "upsert f (dm_abs T k s) = (dm_abs T k s', Inr ())" using st mem Inr by simp
      have up': "pg_upsert f s = Inr s'" using pg Inr by simp
      have "store_inv (dm_abs T k s')" using upsert_inv [OF sinv offer_check_ok [OF chk]] m by simp
      moreover have "\<forall>(i, e) \<in> set (dm_offers s'). o_tenant_id e = T" "dm_resources s' = dm_resources s"
        using pg_upsert_Inr [OF inv up'] one_tenantD(3) [OF one] T by (auto simp: pg_stored_def)
      ultimately show ?thesis using m up' pg_upsert_inv [OF inv up'] by (simp add: one_tenant_def)
    qed
  qed
qed

lemma abs_disconnect:
  "dm_abs T k (pg_disconnect rid s) = (dm_abs T k s)\<lparr>disconnected_resources :=
     disconnected_resources (dm_abs T k s) \<union> (if dict_get rid (dm_sources s) = None then {} else {(T, rid)})\<rparr>"
proof (intro offer_store.equality)
  show "disconnected_resources (dm_abs T k (pg_disconnect rid s)) = disconnected_resources ((dm_abs T k s)\<lparr>disconnected_resources :=
     disconnected_resources (dm_abs T k s) \<union> (if dict_get rid (dm_sources s) = None then {} else {(T, rid)})\<rparr>)"
  proof -
    have "(\<exists>row. dict_get r (dm_sources (pg_disconnect rid s)) = Some row \<and> so_disconnected row) \<longleftrightarrow>
        (\<exists>row. dict_get r (dm_sources s) = Some row \<and> (so_disconnected row \<or> r = rid))" for r
      by (cases "dict_get r (dm_sources s)") auto
    then show ?thesis by (auto simp: abs_disconnected_def)
  qed
qed (simp_all add: pg_disconnect_def abs_sources_def comp_def case_prod_unfold if_distrib cong: if_cong)

lemma abs_remove:
  assumes one: "one_tenant T k s"
  shows "remove_resource rid T (dm_abs T k s) =
      (dm_abs T k (fst (pg_remove_resource rid T s)), snd (pg_remove_resource rid T s))"
    "one_tenant T k (fst (pg_remove_resource rid T s))"
    "dm_resources (fst (pg_remove_resource rid T s)) = dm_resources s"
proof -
  let ?P = "owned_by rid T" and ?s = "dm_abs T k s"
  let ?ks = "resource_offer_keys rid T ?s" and ?rows = "pg_select ?P s"
  have ks: "?ks = List.map fst (filter (\<lambda>(i, f). ?P f) (offers ?s))"
    by (simp add: resource_offer_keys_def owned_by_def)
  have len: "length ?ks = length ?rows"
    by (simp add: ks abs_offers_def filter_map comp_def pg_select_def dict_values_def case_prod_unfold)
  note drop = abs_drop [OF one ks]
  have src: "dict_get rid (dm_sources s) \<noteq> None" if "?rows \<noteq> []"
  proof -
    from that obtain i f where f: "(i, f) \<in> set (dm_offers s)" "?P f" unfolding pg_select_empty by auto
    then show ?thesis using dm_invD(5) [OF one_tenantD(1) [OF one] f(1)] by (auto simp: owned_by_def)
  qed
  have "remove_resource rid T ?s = (dm_abs T k (pg_withdraw rid ?P s), length ?rows)"
  proof (cases "?rows = []")
    case True
    then show ?thesis using len drop by (simp add: remove_resource_def Let_def pg_withdraw_drop)
  next
    case False
    then have "?ks \<noteq> []" using len by auto
    then show ?thesis using len drop False src by (auto simp: remove_resource_def Let_def pg_withdraw_drop abs_disconnect)
  qed
  then show m: "remove_resource rid T ?s = (dm_abs T k (fst (pg_remove_resource rid T s)), snd (pg_remove_resource rid T s))"
    by (simp add: pg_remove_resource_def)
  show "dm_resources (fst (pg_remove_resource rid T s)) = dm_resources s" by (simp add: pg_remove_resource_def)
  have "store_inv (dm_abs T k (pg_withdraw rid ?P s))"
    using remove_resource_inv [OF one_tenantD(2) [OF one] m] by (simp add: pg_remove_resource_def)
  moreover have "set (dm_offers (pg_withdraw rid ?P s)) \<subseteq> set (dm_offers s)" by (auto simp: pg_withdraw_drop)
  ultimately show "one_tenant T k (fst (pg_remove_resource rid T s))"
    using one pg_withdraw_inv by (auto simp: one_tenant_def pg_remove_resource_def)
qed

section \<open>Histories of one tenant\<close>

datatype offer_write = Put offer | Withdraw string

definition mem_put :: "string \<Rightarrow> offer_write \<Rightarrow> offer_store \<Rightarrow> offer_store \<times> (domain_error + nat)" where
  "mem_put T w s = (case w of
     Put f \<Rightarrow> (case upsert f s of (s', Inl e) \<Rightarrow> (s', Inl (Store e)) | (s', Inr _) \<Rightarrow> (s', Inr 0))
   | Withdraw rid \<Rightarrow> (case remove_resource rid T s of (s', n) \<Rightarrow> (s', Inr n)))"

definition pg_put :: "string \<Rightarrow> offer_write \<Rightarrow> pg_domain \<Rightarrow> pg_domain \<times> (domain_error + nat)" where
  "pg_put T w s = (case w of
     Put f \<Rightarrow> (case pg_upsert f s of Inl e \<Rightarrow> (s, Inl e) | Inr s' \<Rightarrow> (s', Inr 0))
   | Withdraw rid \<Rightarrow> (case pg_remove_resource rid T s of (s', n) \<Rightarrow> (s', Inr n)))"

fun put_all :: "(offer_write \<Rightarrow> 's \<Rightarrow> 's \<times> 'r) \<Rightarrow> offer_write list \<Rightarrow> 's \<Rightarrow> 's \<times> 'r list" where
  "put_all step [] s = (s, [])"
| "put_all step (w # ws) s = (case step w s of (s', r) \<Rightarrow> case put_all step ws s' of (s'', rs) \<Rightarrow> (s'', r # rs))"

fun put_ok :: "string \<Rightarrow> pg_domain \<Rightarrow> offer_write \<Rightarrow> bool" where
  "put_ok T s (Put f) = storable T s f"
| "put_ok T s (Withdraw rid) = True"

lemma put_ok_cong: "dm_resources s' = dm_resources s \<Longrightarrow> put_ok T s' w = put_ok T s w"
  by (cases w) (simp_all add: storable_def)

lemma abs_put:
  assumes one: "one_tenant T k s" and w: "put_ok T s w"
  shows "mem_put T w (dm_abs T k s) = (dm_abs T k (fst (pg_put T w s)), snd (pg_put T w s))"
    "one_tenant T k (fst (pg_put T w s))" "dm_resources (fst (pg_put T w s)) = dm_resources s"
proof -
  have "mem_put T w (dm_abs T k s) = (dm_abs T k (fst (pg_put T w s)), snd (pg_put T w s)) \<and>
    one_tenant T k (fst (pg_put T w s)) \<and> dm_resources (fst (pg_put T w s)) = dm_resources s"
  proof (cases w)
    case (Put f)
    then have "storable T s f" using w by simp
    note up = abs_upsert [OF one this]
    show ?thesis
    proof (cases "pg_upsert f s")
      case (Inl e)
      then show ?thesis using up one Put by (auto simp: mem_put_def pg_put_def)
    next
      case (Inr s')
      then show ?thesis using up one Put by (auto simp: mem_put_def pg_put_def)
    qed
  next
    case (Withdraw rid)
    then show ?thesis using abs_remove [OF one, of rid] by (simp add: mem_put_def pg_put_def case_prod_unfold)
  qed
  then show "mem_put T w (dm_abs T k s) = (dm_abs T k (fst (pg_put T w s)), snd (pg_put T w s))"
    "one_tenant T k (fst (pg_put T w s))" "dm_resources (fst (pg_put T w s)) = dm_resources s" by blast+
qed

lemma abs_put_all:
  assumes "one_tenant T k s" "\<forall>w \<in> set ws. put_ok T s w"
  shows "put_all (mem_put T) ws (dm_abs T k s) =
      (dm_abs T k (fst (put_all (pg_put T) ws s)), snd (put_all (pg_put T) ws s)) \<and>
    one_tenant T k (fst (put_all (pg_put T) ws s))"
  using assms
proof (induction ws arbitrary: s)
  case (Cons w ws)
  have w: "put_ok T s w" using Cons.prems(2) by simp
  note step = abs_put [OF Cons.prems(1) w]
  have "\<forall>v \<in> set ws. put_ok T (fst (pg_put T w s)) v"
    using Cons.prems(2) by (simp add: put_ok_cong [OF step(3)])
  note IH = Cons.IH [OF step(2) this]
  show ?case using IH step(1) by (simp add: case_prod_unfold)
qed simp

lemma provisioned_only:
  "pg_register_all ps s = Inr s' \<Longrightarrow> dm_offers s = [] \<Longrightarrow> dm_offers s' = [] \<and> dm_sources s' = dm_sources s \<and>
     dm_cohorts s' = dm_cohorts s \<and> dm_query_budgets s' = dm_query_budgets s \<and> dm_snapshots s' = dm_snapshots s"
proof (induction ps arbitrary: s)
  case (Cons p ps)
  then obtain s1 where s1: "pg_register p s = Inr s1" "pg_register_all ps s1 = Inr s'" by (auto simp: bind_res_Inr)
  have none: "pg_select P s = []" for P using Cons.prems(2) by (simp add: pg_select_def dict_values_def)
  have wd: "pg_withdraw rid P s = s" for rid P by (simp add: pg_withdraw_drop none pg_drop_none)
  have "dm_offers s1 = dm_offers s \<and> dm_sources s1 = dm_sources s \<and> dm_cohorts s1 = dm_cohorts s \<and>
      dm_query_budgets s1 = dm_query_budgets s \<and> dm_snapshots s1 = dm_snapshots s"
    using s1(1) by (auto simp: pg_register_def wd write_resource_def split: option.splits if_splits)
  then show ?case using Cons.IH [OF s1(2)] Cons.prems(2) by simp
qed simp

lemma dm_abs_provisioned:
  assumes "pg_register_all ps pg_domain_new = Inr s" "new_store k = Inr m"
  shows "dm_abs T k s = m" "one_tenant T k s"
proof -
  have new: "dm_offers s = []" "dm_sources s = []" "dm_cohorts s = []" "dm_query_budgets s = []" "dm_snapshots s = []"
    using provisioned_only [OF assms(1)] by (simp_all add: pg_domain_new_def)
  show abs: "dm_abs T k s = m"
    using assms(2) by (auto simp: new dm_abs_def new_store_def abs_offers_def abs_sources_def abs_disconnected_def
        abs_marked_def split: if_splits)
  then show "one_tenant T k s" using store_inv_new [OF assms(2)] by (simp add: one_tenant_def new dm_inv_def)
qed

lemma abs_eligible:
  "eligible_offers T z a b q now (dm_abs T k s) = pg_eligible_offers id T z a b q now s"
  unfolding eligible_offers_def pg_eligible_offers_def pg_select_def dm_abs_simps
  by (simp add: abs_offers_def dict_values_def comp_def case_prod_unfold)
    (rule arg_cong [where f = "sort_key o_resource_id"], rule filter_cong, auto)

lemma stores_agree_parts:
  assumes "pg_register_all ps pg_domain_new = Inr s" "new_store k = Inr m"
    and "\<forall>w \<in> set ws. put_ok T s w"
  shows "snd (put_all (pg_put T) ws s) = snd (put_all (mem_put T) ws m)"
    "fst (put_all (mem_put T) ws m) = dm_abs T k (fst (put_all (pg_put T) ws s))"
    "pg_eligible_offers id T z a b q now (fst (put_all (pg_put T) ws s)) =
       eligible_offers T z a b q now (fst (put_all (mem_put T) ws m))"
  using abs_put_all [OF dm_abs_provisioned(2) [OF assms(1,2)] assms(3)] dm_abs_provisioned(1) [OF assms(1,2), of T]
  by (simp_all add: abs_eligible)

text \<open>
  C6 stores_agree. PostgreSQL refines the in-memory offer store for one tenant: with the resources
  provisioned and offers the tables can hold, any history of upserts and removals gives the same
  answers, errors included, in both stores, and afterwards the tables stand for exactly the
  in-memory state; the eligible offers of every product are then the same list when the database
  orders texts by code point.
\<close>

theorem stores_agree:
  assumes "pg_register_all ps pg_domain_new = Inr s" "new_store k = Inr m"
    and "\<forall>w \<in> set ws. put_ok T s w"
  shows "snd (put_all (pg_put T) ws s) = snd (put_all (mem_put T) ws m) \<and>
    fst (put_all (mem_put T) ws m) = dm_abs T k (fst (put_all (pg_put T) ws s)) \<and>
    pg_eligible_offers id T z a b q now (fst (put_all (pg_put T) ws s)) =
      eligible_offers T z a b q now (fst (put_all (mem_put T) ws m))"
  using stores_agree_parts [OF assms] by blast

section \<open>Examples\<close>

definition ex_provision :: "string \<Rightarrow> resource" where
  "ex_provision rid = \<lparr> p_resource_id = rid, p_zone_id = ''Z'', p_resource_type = BATTERY, p_min_power_kw = -4,
     p_max_power_kw = 4, p_min_energy_kwh = 0, p_max_energy_kwh = 8, p_initial_energy_kwh = 1,
     p_ramp_rate_kw_per_min = 4, p_provisioning_version = 1, p_provisioned_at = 0, p_enabled = True,
     p_tenant_id = ''T'' \<rparr>"

definition ex_domain :: pg_domain where
  "ex_domain = pg_domain_new\<lparr>dm_resources :=
     [(''a'', ex_provision ''a''), (''b'', ex_provision ''b''), (''c'', ex_provision ''c'')]\<rparr>"

lemma ex_domain_provisioned:
  "pg_register_all [ex_provision ''a'', ex_provision ''b'', ex_provision ''c''] pg_domain_new = Inr ex_domain"
  by code_simp

definition ex_puts :: "offer_write list" where
  "ex_puts = [Put (ex_offer ''a'' 1), Put (ex_offer ''b'' 1), Put (ex_offer ''a'' 0), Withdraw ''b'', Put (ex_offer ''b'' 1)]"

lemma ex_puts_ok: "\<forall>w \<in> set ex_puts. put_ok ''T'' ex_domain w"
  by code_simp

theorem stores_agree_witness:
  "snd (put_all (pg_put ''T'') ex_puts ex_domain) =
     [Inr 0, Inr 0, Inl (Store StaleOfferError), Inr 1, Inl (Store StaleOfferError)] \<and>
   snd (put_all (mem_put ''T'') ex_puts ex_store) =
     [Inr 0, Inr 0, Inl (Store StaleOfferError), Inr 1, Inl (Store StaleOfferError)]"
proof -
  have m: "new_store 2 = Inr ex_store" by (simp add: new_store_def ex_store_def)
  have "snd (put_all (pg_put ''T'') ex_puts ex_domain) =
     [Inr 0, Inr 0, Inl (Store StaleOfferError), Inr 1, Inl (Store StaleOfferError)]" by code_simp
  then show ?thesis using stores_agree [OF ex_domain_provisioned m ex_puts_ok] by simp
qed

definition ex_tables :: pg_domain where
  "ex_tables = run_pg_domain id 2 ex_domain [Pg_upsert (ex_offer ''b'' 1), Pg_upsert (ex_offer ''a'' 1)]"

definition ex_pg_query :: "instant \<Rightarrow> pg_domain \<Rightarrow> model_error + pg_domain \<times> aggregate list" where
  "ex_pg_query now s = pg_query id 2 ''Z'' 0 (minutes 60) ''T'' now s"

definition ex_tables_published :: pg_domain where
  "ex_tables_published = fst (projr (ex_pg_query 0 ex_tables))"

definition ex_aggregate_ab :: aggregate where
  "ex_aggregate_ab = aggregate_offers (''T'', ''Z'', 0, minutes 15, DEFER) 0 [ex_offer ''a'' 1, ex_offer ''b'' 1]"

definition ex_meanwhile :: "pg_domain_op list" where
  "ex_meanwhile = [Pg_consume ''T'' 0 9, Pg_upsert ((ex_offer ''c'' 1)\<lparr>o_zone_id := ''Y''\<rparr>)]"

lemma ex_tables_inv: "dm_inv ex_tables"
  by code_simp

lemma ex_pg_query_1: "pg_query id 2 ''Z'' 0 (minutes 60) ''T'' 0 ex_tables = Inr (ex_tables_published, [ex_aggregate_ab])"
proof -
  have "is_ok (ex_pg_query 0 ex_tables)" "snd (projr (ex_pg_query 0 ex_tables)) = [ex_aggregate_ab]" by code_simp+
  then show ?thesis unfolding ex_tables_published_def ex_pg_query_def
    by (cases "pg_query id 2 ''Z'' 0 (minutes 60) ''T'' 0 ex_tables") auto
qed

theorem pg_publication_stable_witness:
  "snd (projr (ex_pg_query 5 (run_pg_domain id 2 ex_tables_published ex_meanwhile))) =
     [ex_aggregate_ab\<lparr>g_generated_at := 5\<rparr>]"
proof -
  let ?q = "ex_pg_query 5 (run_pg_domain id 2 ex_tables_published ex_meanwhile)"
  have ok: "is_ok ?q" and len: "length (snd (projr ?q)) = 1" by code_simp+
  then obtain s4 g' where q: "?q = Inr (s4, [g'])" by (cases ?q) (auto simp: length_Suc_conv)
  have "aggregate_cell (hd (snd (projr ?q))) = aggregate_cell ex_aggregate_ab" by code_simp
  then have same: "aggregate_cell g' = aggregate_cell ex_aggregate_ab" using q by simp
  have "g' = ex_aggregate_ab\<lparr>g_generated_at := 5\<rparr>"
    using pg_publication_stable [OF ex_tables_inv ex_pg_query_1 list.set_intros(1) q [unfolded ex_pg_query_def]
        list.set_intros(1) same] by (rule conjunct1)
  then show ?thesis using q by simp
qed

definition ex_third :: "offer_write list" where
  "ex_third = [Put (ex_offer ''a'' 1), Put (ex_offer ''b'' 1), Put (ex_next ''a''), Put (ex_next ''b''), Put (ex_next ''c'')]"

definition ex_counts :: "aggregate list \<Rightarrow> (instant \<times> int) list" where
  "ex_counts gs = List.map (\<lambda>g. (g_interval_start g, g_participant_count g)) gs"


end
