(* ===== verification/Security.thy ===== *)
theory Security
  imports Text
begin

text \<open>
  Identities and authorisation, \<open>security.py\<close>: principals and their scope, zone and tenant checks,
  the principal built from verified OIDC claims, the static bearer table, and the choice of the
  authenticator from the environment. Verifying a token's signature and standard claims is the work
  of a library: the authenticator is given the outcome of \<open>jwt.decode\<close>. Texts are Latin-1, which is
  what an HTTP header can carry.
\<close>

section \<open>Principals\<close>

datatype auth_error =
    AuthenticationError string
  | AuthorizationError string
  | Unhandled string

record principal =
  ap_subject :: string
  ap_tenant_id :: string
  ap_scopes :: "string set"
  ap_zone_ids :: "string set"

definition require_scope :: "principal \<Rightarrow> string \<Rightarrow> auth_error + unit" where
  "require_scope p scope =
     (if ''*'' \<notin> ap_scopes p \<and> scope \<notin> ap_scopes p then Inl (AuthorizationError ''insufficient_scope'') else Inr ())"

definition require_zone :: "principal \<Rightarrow> string \<Rightarrow> auth_error + unit" where
  "require_zone p zone_id =
     (if ''*'' \<notin> ap_zone_ids p \<and> zone_id \<notin> ap_zone_ids p then Inl (AuthorizationError ''tenant_boundary'') else Inr ())"

definition require_tenant :: "principal \<Rightarrow> string \<Rightarrow> auth_error + unit" where
  "require_tenant p tenant_id =
     (if ap_tenant_id p \<noteq> tenant_id then Inl (AuthorizationError ''tenant_boundary'') else Inr ())"

lemma access_Inr:
  "require_scope p scope = Inr u \<longleftrightarrow> ''*'' \<in> ap_scopes p \<or> scope \<in> ap_scopes p"
  "require_zone p z = Inr u \<longleftrightarrow> ''*'' \<in> ap_zone_ids p \<or> z \<in> ap_zone_ids p"
  "require_tenant p t = Inr u \<longleftrightarrow> ap_tenant_id p = t"
  by (auto simp: require_scope_def require_zone_def require_tenant_def)

section \<open>Claims\<close>

datatype json = Jnull | Jbool bool | Jnum rat | Jstr string | Jlist "json list" | Jobj "(string \<times> json) list"

definition is_space :: "char \<Rightarrow> bool" where
  "is_space c \<longleftrightarrow> (let n = of_char c :: nat in 9 \<le> n \<and> n \<le> 13 \<or> 28 \<le> n \<and> n \<le> 32 \<or> n = 133 \<or> n = 160)"

text \<open>\<open>not s.strip()\<close>\<close>

definition blank :: "string \<Rightarrow> bool" where
  "blank s \<longleftrightarrow> list_all is_space s"

text \<open>\<open>s.split()\<close>\<close>

fun split_words :: "string \<Rightarrow> string \<Rightarrow> string list" where
  "split_words w [] = (if w = [] then [] else [w])"
| "split_words w (c # cs) =
     (if is_space c then (if w = [] then split_words [] cs else w # split_words [] cs)
      else split_words (w @ [c]) cs)"

definition jstr :: "json \<Rightarrow> string option" where
  "jstr j = (case j of Jstr s \<Rightarrow> Some s | _ \<Rightarrow> None)"

fun jstrs :: "json list \<Rightarrow> string list option" where
  "jstrs [] = Some []"
| "jstrs (j # js) = (case (jstr j, jstrs js) of (Some s, Some ss) \<Rightarrow> Some (s # ss) | _ \<Rightarrow> None)"

definition claim_or :: "string \<Rightarrow> json \<Rightarrow> (string, json) dict \<Rightarrow> json" where
  "claim_or k d claims = (case dict_get k claims of None \<Rightarrow> d | Some j \<Rightarrow> j)"

definition nonblank_claim :: "json \<Rightarrow> string option" where
  "nonblank_claim j = (case jstr j of None \<Rightarrow> None | Some s \<Rightarrow> if blank s then None else Some s)"

definition scope_names :: "json \<Rightarrow> string list option" where
  "scope_names j = (case j of Jstr s \<Rightarrow> Some (split_words [] s) | Jlist js \<Rightarrow> jstrs js | _ \<Rightarrow> None)"

definition zone_names :: "json \<Rightarrow> string list option" where
  "zone_names j = (case j of
     Jlist js \<Rightarrow> (case jstrs js of None \<Rightarrow> None | Some zs \<Rightarrow> if [] \<in> set zs then None else Some zs)
   | _ \<Rightarrow> None)"

text \<open>\<open>None\<close> is the \<open>ValueError\<close>.\<close>

definition principal_from_claims :: "(string, json) dict \<Rightarrow> principal option" where
  "principal_from_claims claims =
     (case nonblank_claim (claim_or ''sub'' Jnull claims) of
        None \<Rightarrow> None
      | Some subject \<Rightarrow>
          (case nonblank_claim (claim_or ''tenant_id'' Jnull claims) of
             None \<Rightarrow> None
           | Some tenant_id \<Rightarrow>
               (case scope_names (claim_or ''scope'' (Jstr []) claims) of
                  None \<Rightarrow> None
                | Some scopes \<Rightarrow>
                    (case zone_names (claim_or ''zones'' (Jlist []) claims) of
                       None \<Rightarrow> None
                     | Some zones \<Rightarrow>
                         if ''*'' \<in> set scopes \<or> ''*'' \<in> set zones then None
                         else Some \<lparr> ap_subject = subject, ap_tenant_id = tenant_id,
                                ap_scopes = set scopes, ap_zone_ids = set zones \<rparr>))))"

section \<open>OIDC\<close>

text \<open>What verifying a token gives: its claims, a failure of the JWT library, or any other exception.\<close>

datatype jwt_outcome = Decoded "(string, json) dict" | Jwt_failure | Other_failure string

record oidc =
  oi_issuer :: string
  oi_audience :: string
  oi_jwks_url :: string
  oi_algorithms :: "string list"

definition to_lower :: "char \<Rightarrow> char" where
  "to_lower c = (let n = of_char c :: nat in if 65 \<le> n \<and> n \<le> 90 then char_of (n + 32) else c)"

definition is_alpha :: "char \<Rightarrow> bool" where
  "is_alpha c \<longleftrightarrow> (let n = of_char (to_lower c) :: nat in 97 \<le> n \<and> n \<le> 122)"

definition scheme_char :: "char \<Rightarrow> bool" where
  "scheme_char c \<longleftrightarrow> is_alpha c \<or> is_digit c \<or> c \<in> set ''+-.''"

text \<open>
  The scheme \<open>urlparse\<close> finds: control characters and spaces are stripped on the left, tabs and line
  breaks removed everywhere.
\<close>

definition url_scheme :: "string \<Rightarrow> string" where
  "url_scheme url =
     (let u = filter (\<lambda>c. c \<notin> {CHR 0x09, CHR 0x0A, CHR 0x0D}) (dropWhile (\<lambda>c. (of_char c :: nat) \<le> 32) url);
          s = takeWhile (\<lambda>c. c \<noteq> CHR '':'') u
      in if CHR '':'' \<in> set u \<and> s \<noteq> [] \<and> is_alpha (hd s) \<and> list_all scheme_char s then List.map to_lower s else [])"

text \<open>The constructor; \<open>None\<close> is its \<open>ValueError\<close>.\<close>

definition mk_oidc :: "oidc \<Rightarrow> oidc option" where
  "mk_oidc c =
     (if oi_issuer c = [] \<or> oi_audience c = [] \<or> oi_jwks_url c = [] then None
      else if url_scheme (oi_issuer c) \<noteq> ''https'' \<or> url_scheme (oi_jwks_url c) \<noteq> ''https'' then None
      else if oi_algorithms c = [] \<or> \<not> set (oi_algorithms c) \<subseteq> {''RS256'', ''RS384'', ''RS512''} then None
      else Some c)"

definition oidc_authenticate ::
    "(oidc \<Rightarrow> string \<Rightarrow> jwt_outcome) \<Rightarrow> oidc \<Rightarrow> string option \<Rightarrow> auth_error + principal" where
  "oidc_authenticate jwt c bearer_token =
     (case bearer_token of
        None \<Rightarrow> Inl (AuthenticationError ''missing_token'')
      | Some token \<Rightarrow>
          (case jwt c token of
             Decoded claims \<Rightarrow>
               (case principal_from_claims claims of
                  None \<Rightarrow> Inl (AuthenticationError ''invalid_token'') | Some p \<Rightarrow> Inr p)
           | Jwt_failure \<Rightarrow> Inl (AuthenticationError ''invalid_token'')
           | Other_failure e \<Rightarrow> Inl (Unhandled e)))"

section \<open>Development and static bearer authentication\<close>

definition development_principal :: principal where
  "development_principal = \<lparr> ap_subject = ''development'', ap_tenant_id = ''development'',
     ap_scopes = {''*''}, ap_zone_ids = {''*''} \<rparr>"

definition development_authenticate :: "string option \<Rightarrow> auth_error + principal" where
  "development_authenticate bearer_token = Inr development_principal"

datatype static_error = No_principals | Empty_token | Owns_every_zone | Zone_of_two_tenants string

text \<open>The zones of one principal, in an order of the set given by \<open>zs\<close>.\<close>

fun own_zones :: "string \<Rightarrow> string list \<Rightarrow> (string, string) dict \<Rightarrow> static_error + (string, string) dict" where
  "own_zones tenant_id [] owners = Inr owners"
| "own_zones tenant_id (z # zs) owners =
     (let owners' = dict_setdefault z tenant_id owners
      in if dict_get z owners' \<noteq> Some tenant_id then Inl (Zone_of_two_tenants z)
         else own_zones tenant_id zs owners')"

fun own_all ::
    "(string set \<Rightarrow> string list) \<Rightarrow> principal list \<Rightarrow> (string, string) dict \<Rightarrow> static_error + (string, string) dict" where
  "own_all order [] owners = Inr owners"
| "own_all order (p # ps) owners =
     (if ''*'' \<in> ap_zone_ids p then Inl Owns_every_zone
      else bind_res (own_zones (ap_tenant_id p) (order (ap_zone_ids p)) owners) (own_all order ps))"

definition mk_static ::
    "(string set \<Rightarrow> string list) \<Rightarrow> (string, principal) dict \<Rightarrow> static_error + (string, principal) dict" where
  "mk_static order entries =
     (if entries = [] then Inl No_principals
      else if [] \<in> fst ` set entries then Inl Empty_token
      else bind_res (own_all order (dict_values entries) []) (\<lambda>_. Inr entries))"

definition ascii :: "string \<Rightarrow> bool" where
  "ascii s \<longleftrightarrow> list_all (\<lambda>c. (of_char c :: nat) < 128) s"

text \<open>\<open>hmac.compare_digest\<close> of two texts: it raises when one of them is not ASCII.\<close>

definition compare_digest :: "string \<Rightarrow> string \<Rightarrow> auth_error + bool" where
  "compare_digest a b = (if ascii a \<and> ascii b then Inr (a = b) else Inl (Unhandled ''TypeError''))"

fun match_token :: "string \<Rightarrow> (string, principal) dict \<Rightarrow> principal option \<Rightarrow> auth_error + principal option" where
  "match_token token [] matched = Inr matched"
| "match_token token ((expected, p) # entries) matched =
     bind_res (compare_digest token expected) (\<lambda>same. match_token token entries (if same then Some p else matched))"

definition static_authenticate :: "(string, principal) dict \<Rightarrow> string option \<Rightarrow> auth_error + principal" where
  "static_authenticate entries bearer_token =
     (case bearer_token of
        None \<Rightarrow> Inl (AuthenticationError ''missing_token'')
      | Some token \<Rightarrow> bind_res (match_token token entries None) (\<lambda>matched. case matched of
          None \<Rightarrow> Inl (AuthenticationError ''invalid_token'') | Some p \<Rightarrow> Inr p))"

section \<open>The choice of the authenticator\<close>

datatype authenticator =
    Development
  | Oidc oidc
  | Static "(string, principal) dict"

datatype startup_error = Startup_RuntimeError | Startup_ValueError

definition authenticator_from_environment :: "bool \<Rightarrow> (string \<Rightarrow> string option) \<Rightarrow> startup_error + authenticator" where
  "authenticator_from_environment production env =
     (let mode = (case env ''DER_FLEX_AUTH_MODE'' of
            None \<Rightarrow> if production then None else Some ''development'' | Some m \<Rightarrow> Some m)
      in if mode = Some ''development'' then Inr Development
         else if mode = Some ''oidc'' then
           (case (env ''DER_FLEX_OIDC_ISSUER'', env ''DER_FLEX_OIDC_AUDIENCE'', env ''DER_FLEX_OIDC_JWKS_URL'') of
              (Some issuer, Some audience, Some jwks_url) \<Rightarrow>
                (case mk_oidc \<lparr> oi_issuer = issuer, oi_audience = audience, oi_jwks_url = jwks_url,
                    oi_algorithms = [''RS256''] \<rparr> of
                   None \<Rightarrow> Inl Startup_ValueError | Some c \<Rightarrow> Inr (Oidc c))
            | _ \<Rightarrow> Inl Startup_RuntimeError)
         else Inl Startup_RuntimeError)"

definition authenticate ::
    "(oidc \<Rightarrow> string \<Rightarrow> jwt_outcome) \<Rightarrow> authenticator \<Rightarrow> string option \<Rightarrow> auth_error + principal" where
  "authenticate jwt a bearer_token = (case a of
     Development \<Rightarrow> development_authenticate bearer_token
   | Oidc c \<Rightarrow> oidc_authenticate jwt c bearer_token
   | Static entries \<Rightarrow> static_authenticate entries bearer_token)"

section \<open>Zone ownership of a static table\<close>

lemma own_zones_owner:
  assumes "own_zones t zs owners = Inr owners'"
  shows "\<forall>z \<in> set zs. dict_get z owners' = Some t" "\<And>z u. dict_get z owners = Some u \<Longrightarrow> dict_get z owners' = Some u"
proof -
  have "(\<forall>z \<in> set zs. dict_get z owners' = Some t) \<and> (\<forall>z u. dict_get z owners = Some u \<longrightarrow> dict_get z owners' = Some u)"
    using assms
  proof (induction zs arbitrary: owners)
    case (Cons z zs)
    let ?o = "dict_setdefault z t owners"
    have z: "dict_get z ?o = Some t" and rest: "own_zones t zs ?o = Inr owners'"
      using Cons.prems by (auto simp: Let_def split: if_splits)
    have keep: "dict_get x owners = Some u \<Longrightarrow> dict_get x ?o = Some u" for x u
      by (auto simp: dict_setdefault_def dict_get_set split: option.splits)
    show ?case using Cons.IH [OF rest] z keep by auto
  qed simp
  then show "\<forall>z \<in> set zs. dict_get z owners' = Some t" "\<And>z u. dict_get z owners = Some u \<Longrightarrow> dict_get z owners' = Some u"
    by blast+
qed

lemma own_all_owner:
  assumes "\<And>Z. finite Z \<Longrightarrow> set (order Z) = Z" "own_all order ps owners = Inr owners'" "\<forall>p \<in> set ps. finite (ap_zone_ids p)"
  shows "(\<forall>p \<in> set ps. ''*'' \<notin> ap_zone_ids p \<and> (\<forall>z \<in> ap_zone_ids p. dict_get z owners' = Some (ap_tenant_id p))) \<and>
    (\<forall>z u. dict_get z owners = Some u \<longrightarrow> dict_get z owners' = Some u)"
  using assms(2,3)
proof (induction ps arbitrary: owners)
  case (Cons p ps)
  then obtain o1 where star: "''*'' \<notin> ap_zone_ids p" and z: "own_zones (ap_tenant_id p) (order (ap_zone_ids p)) owners = Inr o1"
    and rest: "own_all order ps o1 = Inr owners'" by (auto simp: bind_res_Inr split: if_splits)
  have ord: "set (order (ap_zone_ids p)) = ap_zone_ids p" using assms(1) Cons.prems(2) by simp
  note IH = Cons.IH [OF rest]
  show ?case using IH Cons.prems(2) own_zones_owner [OF z] star ord by auto
qed simp

lemma match_token_Some:
  "match_token token entries m = Inr (Some p) \<Longrightarrow> m = Some p \<or> (token, p) \<in> set entries"
proof (induction entries arbitrary: m)
  case (Cons e entries)
  obtain x q where e: "e = (x, q)" by (cases e)
  have "match_token token entries (if token = x then Some q else m) = Inr (Some p)"
    using Cons.prems e by (auto simp: bind_res_Inr compare_digest_def split: if_splits)
  from Cons.IH [OF this] show ?case using e by (auto split: if_splits)
qed simp

lemma static_authenticate_entry:
  assumes "static_authenticate entries token = Inr p"
  shows "\<exists>t. token = Some t \<and> (t, p) \<in> set entries"
  using assms match_token_Some [of _ entries None p]
  by (auto simp: static_authenticate_def bind_res_Inr split: option.splits)

lemma static_bearers_of_table:
  assumes "\<And>Z. finite Z \<Longrightarrow> set (order Z) = Z" "mk_static order entries = Inr table"
    and "\<And>t p. (t, p) \<in> set entries \<Longrightarrow> finite (ap_zone_ids p)"
    and "static_authenticate table token = Inr p" "static_authenticate table token' = Inr p'"
    and "require_zone p z = Inr u" "require_zone p' z = Inr u'"
  shows "ap_tenant_id p = ap_tenant_id p'" "\<exists>t. token = Some t \<and> (t, p) \<in> set entries"
proof -
  obtain owners where table: "table = entries" and own: "own_all order (dict_values entries) [] = Inr owners"
    using assms(2) by (auto simp: mk_static_def bind_res_Inr split: if_splits)
  have fin: "\<forall>p \<in> set (dict_values entries). finite (ap_zone_ids p)" using assms(3) by (auto simp: dict_values_def)
  note o = own_all_owner [OF assms(1) own fin]
  from static_authenticate_entry [OF assms(4)] static_authenticate_entry [OF assms(5)]
  have e: "\<exists>t. token = Some t \<and> (t, p) \<in> set entries" and "\<exists>t. (t, p') \<in> set entries" by (auto simp: table)
  then have ps: "p \<in> set (dict_values entries)" "p' \<in> set (dict_values entries)" by (force simp: dict_values_def)+
  then have "z \<in> ap_zone_ids p" "z \<in> ap_zone_ids p'" using o assms(6,7) by (auto simp: access_Inr)
  then have "dict_get z owners = Some (ap_tenant_id p)" "dict_get z owners = Some (ap_tenant_id p')"
    using o ps by blast+
  then show "ap_tenant_id p = ap_tenant_id p'" by simp
  show "\<exists>t. token = Some t \<and> (t, p) \<in> set entries" by (rule e)
qed

text \<open>
  C35 static_bearer_isolation. In a static bearer table that the constructor accepts, a request is
  only authenticated by presenting a token of the table, and two identities that may both act on
  one zone belong to the same tenant.
\<close>

theorem static_bearer_isolation:
  assumes "\<And>Z. finite Z \<Longrightarrow> set (order Z) = Z" "mk_static order entries = Inr table"
    and "\<And>t p. (t, p) \<in> set entries \<Longrightarrow> finite (ap_zone_ids p)"
    and "static_authenticate table token = Inr p" "static_authenticate table token' = Inr p'"
    and "require_zone p z = Inr u" "require_zone p' z = Inr u'"
  shows "ap_tenant_id p = ap_tenant_id p' \<and> (\<exists>t. token = Some t \<and> (t, p) \<in> set entries)"
proof
  show "ap_tenant_id p = ap_tenant_id p'"
    by (rule static_bearers_of_table(1) [OF _ assms(2) _ assms(4-7)]) (erule assms(1), erule assms(3))
  show "\<exists>t. token = Some t \<and> (t, p) \<in> set entries"
    by (rule static_bearers_of_table(2) [OF _ assms(2) _ assms(4-7)]) (erule assms(1), erule assms(3))
qed

definition ex_principal :: "string \<Rightarrow> string \<Rightarrow> string \<Rightarrow> principal" where
  "ex_principal subject tenant_id zone_id = \<lparr> ap_subject = subject, ap_tenant_id = tenant_id,
     ap_scopes = {''flexibility:read''}, ap_zone_ids = {zone_id} \<rparr>"

definition ex_bearers :: "(string, principal) dict" where
  "ex_bearers = [(''s1'', ex_principal ''a'' ''T'' ''Z''), (''s2'', ex_principal ''b'' ''T'' ''Z''),
     (''s3'', ex_principal ''c'' ''U'' ''Y'')]"

text \<open>An order of the finite sets of texts.\<close>

definition some_order :: "string set \<Rightarrow> string list" where
  "some_order Z = sorted_list_of_set Z"

theorem static_bearer_isolation_witness:
  "ap_tenant_id (ex_principal ''a'' ''T'' ''Z'') = ap_tenant_id (ex_principal ''b'' ''T'' ''Z'')"
proof -
  have order: "set (some_order Z) = Z" if "finite Z" for Z using that by (simp add: some_order_def)
  have mk: "mk_static some_order ex_bearers = Inr ex_bearers" by code_simp
  have fin: "finite (ap_zone_ids p)" if "(t, p) \<in> set ex_bearers" for t p
    using that by (auto simp: ex_bearers_def ex_principal_def)
  have a: "static_authenticate ex_bearers (Some ''s1'') = Inr (ex_principal ''a'' ''T'' ''Z'')"
    and b: "static_authenticate ex_bearers (Some ''s2'') = Inr (ex_principal ''b'' ''T'' ''Z'')"
    and z: "require_zone (ex_principal ''a'' ''T'' ''Z'') ''Z'' = Inr ()" "require_zone (ex_principal ''b'' ''T'' ''Z'') ''Z'' = Inr ()"
    by code_simp+
  show ?thesis using static_bearer_isolation [OF order mk fin a b z] by (rule conjunct1)
qed

lemma oidc_principal_claims:
  assumes "oidc_authenticate jwt c token = Inr p"
  shows "\<exists>t claims scopes zones. token = Some t \<and> jwt c t = Decoded claims \<and>
      scope_names (claim_or ''scope'' (Jstr []) claims) = Some scopes \<and> ap_scopes p = set scopes \<and>
      claim_or ''zones'' (Jlist []) claims = Jlist zones \<and> Jstr ` ap_zone_ids p = set zones \<and>
      dict_get ''tenant_id'' claims = Some (Jstr (ap_tenant_id p)) \<and> dict_get ''sub'' claims = Some (Jstr (ap_subject p))"
    "''*'' \<notin> ap_scopes p" "''*'' \<notin> ap_zone_ids p" "\<not> blank (ap_subject p)" "\<not> blank (ap_tenant_id p)"
proof -
  have strs: "js = List.map Jstr ss" if "jstrs js = Some ss" for js ss
    using that by (induction js arbitrary: ss) (auto simp: jstr_def split: option.splits json.splits)
  have named: "dict_get k claims = Some (Jstr s) \<and> \<not> blank s" if "nonblank_claim (claim_or k Jnull claims) = Some s" for k claims s
    using that by (auto simp: nonblank_claim_def claim_or_def jstr_def split: option.splits json.splits if_splits)
  obtain t claims where t: "token = Some t" "jwt c t = Decoded claims" and pc: "principal_from_claims claims = Some p"
    using assms by (auto simp: oidc_authenticate_def split: option.splits jwt_outcome.splits)
  obtain subject tenant scopes zones where q: "nonblank_claim (claim_or ''sub'' Jnull claims) = Some subject"
    "nonblank_claim (claim_or ''tenant_id'' Jnull claims) = Some tenant"
    "scope_names (claim_or ''scope'' (Jstr []) claims) = Some scopes"
    "zone_names (claim_or ''zones'' (Jlist []) claims) = Some zones"
    "''*'' \<notin> set scopes" "''*'' \<notin> set zones"
    "p = \<lparr> ap_subject = subject, ap_tenant_id = tenant, ap_scopes = set scopes, ap_zone_ids = set zones \<rparr>"
    using pc by (auto simp: principal_from_claims_def split: option.splits if_splits)
  obtain js where js: "claim_or ''zones'' (Jlist []) claims = Jlist js" "jstrs js = Some zones"
    using q(4) by (auto simp: zone_names_def split: json.splits option.splits if_splits)
  show "\<exists>t claims scopes zones. token = Some t \<and> jwt c t = Decoded claims \<and>
      scope_names (claim_or ''scope'' (Jstr []) claims) = Some scopes \<and> ap_scopes p = set scopes \<and>
      claim_or ''zones'' (Jlist []) claims = Jlist zones \<and> Jstr ` ap_zone_ids p = set zones \<and>
      dict_get ''tenant_id'' claims = Some (Jstr (ap_tenant_id p)) \<and> dict_get ''sub'' claims = Some (Jstr (ap_subject p))"
    using t q(3,7) js strs [OF js(2)] named [OF q(1)] named [OF q(2)] by auto
  show "''*'' \<notin> ap_scopes p" "''*'' \<notin> ap_zone_ids p" "\<not> blank (ap_subject p)" "\<not> blank (ap_tenant_id p)"
    using q named by auto
qed

text \<open>
  C36 oidc_principal_bounded. A principal accepted from an OIDC token carries only scopes and zones
  that the verified claims list, never a wildcard, and the claimed subject and tenant, neither blank.
\<close>

theorem oidc_principal_bounded:
  assumes "oidc_authenticate jwt c token = Inr p"
  shows "(\<exists>t claims scopes zones. token = Some t \<and> jwt c t = Decoded claims \<and>
      scope_names (claim_or ''scope'' (Jstr []) claims) = Some scopes \<and> ap_scopes p = set scopes \<and>
      claim_or ''zones'' (Jlist []) claims = Jlist zones \<and> Jstr ` ap_zone_ids p = set zones \<and>
      dict_get ''tenant_id'' claims = Some (Jstr (ap_tenant_id p)) \<and> dict_get ''sub'' claims = Some (Jstr (ap_subject p))) \<and>
    ''*'' \<notin> ap_scopes p \<and> ''*'' \<notin> ap_zone_ids p \<and> \<not> blank (ap_subject p) \<and> \<not> blank (ap_tenant_id p)"
  by (intro conjI oidc_principal_claims [OF assms])

definition ex_claims :: "(string, json) dict" where
  "ex_claims = [(''sub'', Jstr ''s''), (''tenant_id'', Jstr ''T''), (''scope'', Jstr ''flexibility:read  admin:read''),
     (''zones'', Jlist [Jstr ''Z''])]"

definition ex_oidc :: oidc where
  "ex_oidc = \<lparr> oi_issuer = ''https://i'', oi_audience = ''a'', oi_jwks_url = ''HTTPS://k'', oi_algorithms = [''RS256''] \<rparr>"

definition ex_oidc_principal :: principal where
  "ex_oidc_principal = \<lparr> ap_subject = ''s'', ap_tenant_id = ''T'', ap_scopes = {''flexibility:read'', ''admin:read''},
     ap_zone_ids = {''Z''} \<rparr>"

theorem oidc_principal_bounded_witness:
  "''*'' \<notin> ap_scopes ex_oidc_principal \<and> mk_oidc ex_oidc = Some ex_oidc"
proof -
  have "oidc_authenticate (\<lambda>c t. Decoded ex_claims) ex_oidc (Some ''t'') = Inr ex_oidc_principal" by code_simp
  from oidc_principal_bounded [OF this] have "''*'' \<notin> ap_scopes ex_oidc_principal" by blast
  moreover have "mk_oidc ex_oidc = Some ex_oidc" by code_simp
  ultimately show ?thesis ..
qed

text \<open>A token with a character above ASCII is not refused: the comparison raises.\<close>

lemma non_ascii_token_raises:
  "static_authenticate ex_bearers (Some [CHR 0xFF]) = Inl (Unhandled ''TypeError'')"
  by code_simp

end
