(* ===== verification/Observability.thy ===== *)
theory Observability
  imports Text Binary64
begin

text \<open>
  The request pipeline around the application, \<open>observability.py\<close>: the metrics registry and its
  text format, the concurrency limit, the request body limit and the logging middleware that
  observes every request. Each critical section under a lock is one step; requests interleave
  freely between the steps.
\<close>

section \<open>Metrics\<close>

type_synonym sample_key = "string \<times> int"

record metrics =
  mt_requests :: "(sample_key, nat) dict"
  mt_latency_buckets :: "(string \<times> int \<times> int, nat) dict"
  mt_latency_count :: "(sample_key, nat) dict"
  mt_latency_sum_ms :: "(sample_key, rat) dict"
  mt_in_flight :: int
  mt_shed :: nat

definition metrics_new :: metrics where
  "metrics_new = \<lparr> mt_requests = [], mt_latency_buckets = [], mt_latency_count = [], mt_latency_sum_ms = [],
     mt_in_flight = 0, mt_shed = 0 \<rparr>"

definition latency_buckets_ms :: "int list" where
  "latency_buckets_ms = [5, 10, 25, 50, 100, 250, 500, 1000, 2500, 5000]"

text \<open>A counter or a dictionary with a zero default.\<close>

definition counted :: "'k \<Rightarrow> ('k, 'n::zero) dict \<Rightarrow> 'n" where
  "counted k d = (case dict_get k d of None \<Rightarrow> 0 | Some n \<Rightarrow> n)"

definition count :: "'k \<Rightarrow> ('k, nat) dict \<Rightarrow> ('k, nat) dict" where
  "count k d = dict_set k (counted k d + 1) d"

definition request_started :: "metrics \<Rightarrow> metrics" where
  "request_started m = m\<lparr>mt_in_flight := mt_in_flight m + 1\<rparr>"

definition observe :: "string \<Rightarrow> int \<Rightarrow> rat \<Rightarrow> metrics \<Rightarrow> metrics" where
  "observe method status duration_ms m =
     (let key = (method, status)
      in m\<lparr> mt_in_flight := mt_in_flight m - 1,
            mt_requests := count key (mt_requests m),
            mt_latency_count := count key (mt_latency_count m),
            mt_latency_sum_ms := dict_set key (fadd (counted key (mt_latency_sum_ms m)) duration_ms) (mt_latency_sum_ms m),
            mt_latency_buckets := foldl (\<lambda>d bucket. if duration_ms \<le> of_int bucket then count (method, status, bucket) d else d)
              (mt_latency_buckets m) latency_buckets_ms \<rparr>)"

definition observe_shed :: "metrics \<Rightarrow> metrics" where
  "observe_shed m = m\<lparr>mt_shed := mt_shed m + 1\<rparr>"

section \<open>The text format\<close>

text \<open>\<open>f"{x:.3f}"\<close>: the exact value rounded half to even at the third decimal.\<close>

definition fixed3 :: "rat \<Rightarrow> string" where
  "fixed3 x = (let n = round_half_even (x * 1000); m = nat \<bar>n\<bar>
     in (if x < 0 then ''-'' else []) @ str_of_nat (m div 1000) @ ''.'' @ pad_zeros 3 (str_of_nat (m mod 1000)))"

definition quote :: string where
  "quote = [CHR 0x22]"

definition sample_line :: "string \<Rightarrow> sample_key \<Rightarrow> string \<Rightarrow> string \<Rightarrow> string" where
  "sample_line name key le value = name @ ''{method='' @ quote @ fst key @ quote @ '',status='' @ quote
     @ str_of_int (snd key) @ quote @ (if le = [] then [] else '',le='' @ quote @ le @ quote) @ ''} '' @ value"

definition metric_header :: "string \<Rightarrow> string \<Rightarrow> string \<Rightarrow> string list" where
  "metric_header name help kind = [''# HELP '' @ name @ '' '' @ help, ''# TYPE '' @ name @ '' '' @ kind]"

definition metric_lines :: "metrics \<Rightarrow> string list" where
  "metric_lines m =
     (let requests = ''der_flex_http_requests_total''; duration = ''der_flex_http_request_duration_milliseconds'';
          counts = sort_key fst (mt_latency_count m)
      in metric_header requests ''HTTP requests handled.'' ''counter''
         @ List.map (\<lambda>(key, n). sample_line requests key [] (str_of_nat n)) (sort_key fst (mt_requests m))
         @ metric_header duration ''HTTP request latency.'' ''histogram''
         @ List.map (\<lambda>((method, status, bucket), n).
             sample_line (duration @ ''_bucket'') (method, status) (str_of_int bucket) (str_of_nat n))
             (sort_key fst (mt_latency_buckets m))
         @ List.map (\<lambda>(key, n). sample_line (duration @ ''_bucket'') key ''+Inf'' (str_of_nat n)) counts
         @ List.map (\<lambda>(key, total). sample_line (duration @ ''_sum'') key [] (fixed3 total))
             (sort_key fst (mt_latency_sum_ms m))
         @ List.map (\<lambda>(key, n). sample_line (duration @ ''_count'') key [] (str_of_nat n)) counts
         @ metric_header ''der_flex_http_in_flight_requests'' ''Current HTTP requests.'' ''gauge''
         @ [''der_flex_http_in_flight_requests '' @ str_of_int (mt_in_flight m)]
         @ metric_header ''der_flex_http_shed_total'' ''Requests rejected by admission control.'' ''counter''
         @ [''der_flex_http_shed_total '' @ str_of_nat (mt_shed m)])"

definition render_prometheus :: "metrics \<Rightarrow> string" where
  "render_prometheus m = concat (List.map (\<lambda>l. l @ [CHR 0x0A]) (metric_lines m))"

section \<open>The body limit\<close>

datatype message = Http_request string bool | Other_message string

definition body_size :: "message list \<Rightarrow> nat" where
  "body_size ms = sum_list (List.map (\<lambda>m. case m of Http_request body more_body \<Rightarrow> length body | Other_message t \<Rightarrow> 0) ms)"

text \<open>\<open>int()\<close> of a header value: blanks around, an optional sign, digits with single underscores inside.\<close>

definition header_space :: "char \<Rightarrow> bool" where
  "header_space c \<longleftrightarrow> (let n = of_char c :: nat in 9 \<le> n \<and> n \<le> 13 \<or> n = 32)"

definition strip :: "string \<Rightarrow> string" where
  "strip s = rev (dropWhile header_space (rev (dropWhile header_space s)))"

fun digits_ok :: "bool \<Rightarrow> string \<Rightarrow> bool" where
  "digits_ok after_digit [] = after_digit"
| "digits_ok after_digit (c # cs) =
     (if is_digit c then digits_ok True cs else c = CHR ''_'' \<and> after_digit \<and> digits_ok False cs)"

definition parse_int :: "string \<Rightarrow> int option" where
  "parse_int s =
     (let t = strip s; neg = (t \<noteq> [] \<and> hd t = CHR ''-'');
          d = (if t \<noteq> [] \<and> (hd t = CHR ''-'' \<or> hd t = CHR ''+'') then tl t else t)
      in if digits_ok False d
         then let n = int (read_digits (filter is_digit d)) in Some (if neg then - n else n) else None)"

datatype body_outcome =
    Forward "message list"
  | Problem int string
  | Waiting

text \<open>The loop over \<open>receive()\<close>; when the messages run out it is still waiting.\<close>

fun buffer_body :: "nat \<Rightarrow> nat \<Rightarrow> message list \<Rightarrow> message list \<Rightarrow> body_outcome" where
  "buffer_body max_bytes received buffered [] = Waiting"
| "buffer_body max_bytes received buffered (m # ms) =
     (case m of
        Http_request body more_body \<Rightarrow>
          if received + length body > max_bytes then Problem 413 ''Request body is too large''
          else if more_body then buffer_body max_bytes (received + length body) (buffered @ [m]) ms
          else Forward (buffered @ [m])
      | Other_message t \<Rightarrow> Forward (buffered @ [m]))"

definition limit_body :: "nat \<Rightarrow> (string \<times> string) list \<Rightarrow> message list \<Rightarrow> body_outcome" where
  "limit_body max_bytes headers ms =
     (case map_option snd (find (\<lambda>(name, value). name = ''content-length'') headers) of
        None \<Rightarrow> buffer_body max_bytes 0 [] ms
      | Some content_length \<Rightarrow>
          (case parse_int content_length of
             None \<Rightarrow> Problem 400 ''Invalid Content-Length''
           | Some declared_size \<Rightarrow>
               if declared_size > int max_bytes then Problem 413 ''Request body is too large''
               else buffer_body max_bytes 0 [] ms))"

text \<open>What the application receives: the buffered messages, then empty ones.\<close>

definition empty_message :: message where
  "empty_message = Http_request [] False"

definition replay_receive :: "message list \<Rightarrow> nat \<Rightarrow> message" where
  "replay_receive buffered position = (if position < length buffered then buffered ! position else empty_message)"

lemma buffer_body_sound:
  assumes "buffer_body n received buffered ms = Forward fwd" "received \<le> n"
  shows "\<exists>k. fwd = buffered @ take k ms \<and> received + body_size (take k ms) \<le> n"
  using assms
proof (induction n received buffered ms rule: buffer_body.induct)
  case (2 n received buffered m ms)
  show ?case
  proof (cases m)
    case (Http_request body more_body)
    then have le: "received + length body \<le> n" using 2(2) by (auto split: if_splits)
    show ?thesis
    proof (cases more_body)
      case True
      from 2(1) [OF Http_request _ True] 2(2) le Http_request True obtain k where
        "fwd = (buffered @ [m]) @ take k ms" "received + length body + body_size (take k ms) \<le> n" by auto
      then show ?thesis using Http_request by (intro exI [of _ "Suc k"]) (simp add: body_size_def)
    next
      case False
      then show ?thesis using 2(2) le Http_request by (intro exI [of _ 1]) (simp add: body_size_def)
    qed
  next
    case (Other_message t)
    then show ?thesis using 2(2,3) by (intro exI [of _ 1]) (simp add: body_size_def)
  qed
qed simp

text \<open>What is forwarded is a prefix of what the client sent, within the limit.\<close>

lemma limit_body_sound:
  assumes "limit_body n headers ms = Forward fwd"
  shows "\<exists>k. fwd = take k ms" "body_size fwd \<le> n"
  using assms buffer_body_sound [of n 0 "[]" ms fwd]
  by (auto simp: limit_body_def split: option.splits if_splits)

section \<open>Concurrent requests\<close>

definition bypass_paths :: "string set" where
  "bypass_paths = {''/health/live'', ''/health/ready'', ''/metrics''}"

text \<open>
  Where a request is: observed as started, inside the application (and whether it holds a slot of
  the limit), or answered with a status and about to be observed.
\<close>

datatype phase =
    Arrived string string
  | Inside string bool
  | Answered string int

record gateway =
  gw_metrics :: metrics
  gw_active :: nat
  gw_requests :: "(nat, phase) dict"

definition gateway_new :: gateway where
  "gateway_new = \<lparr> gw_metrics = metrics_new, gw_active = 0, gw_requests = [] \<rparr>"

definition mk_limit :: "int \<Rightarrow> nat option" where
  "mk_limit max_in_flight = (if max_in_flight < 1 then None else Some (nat max_in_flight))"

definition start_request :: "nat \<Rightarrow> string \<Rightarrow> string \<Rightarrow> gateway \<Rightarrow> gateway" where
  "start_request i method path s =
     s\<lparr> gw_metrics := request_started (gw_metrics s), gw_requests := dict_set i (Arrived method path) (gw_requests s) \<rparr>"

definition admit_request :: "nat \<Rightarrow> nat \<Rightarrow> string \<Rightarrow> string \<Rightarrow> gateway \<Rightarrow> gateway" where
  "admit_request limit i method path s =
     (if path \<in> bypass_paths then s\<lparr>gw_requests := dict_set i (Inside method False) (gw_requests s)\<rparr>
      else if gw_active s < limit
        then s\<lparr>gw_active := gw_active s + 1, gw_requests := dict_set i (Inside method True) (gw_requests s)\<rparr>
      else s\<lparr>gw_metrics := observe_shed (gw_metrics s), gw_requests := dict_set i (Answered method 503) (gw_requests s)\<rparr>)"

definition leave_request :: "nat \<Rightarrow> string \<Rightarrow> bool \<Rightarrow> int \<Rightarrow> gateway \<Rightarrow> gateway" where
  "leave_request i method admitted status s =
     s\<lparr> gw_active := (if admitted then gw_active s - 1 else gw_active s),
        gw_requests := dict_set i (Answered method status) (gw_requests s) \<rparr>"

definition finish_request :: "nat \<Rightarrow> string \<Rightarrow> int \<Rightarrow> rat \<Rightarrow> gateway \<Rightarrow> gateway" where
  "finish_request i method status duration_ms s =
     s\<lparr> gw_metrics := observe method status duration_ms (gw_metrics s), gw_requests := dict_del i (gw_requests s) \<rparr>"

inductive gateway_step :: "nat \<Rightarrow> gateway \<Rightarrow> gateway \<Rightarrow> bool" for limit where
  start: "dict_get i (gw_requests s) = None \<Longrightarrow> gateway_step limit s (start_request i method path s)"
| admit: "dict_get i (gw_requests s) = Some (Arrived method path) \<Longrightarrow>
    gateway_step limit s (admit_request limit i method path s)"
| leave: "dict_get i (gw_requests s) = Some (Inside method admitted) \<Longrightarrow>
    gateway_step limit s (leave_request i method admitted status s)"
| finish: "dict_get i (gw_requests s) = Some (Answered method status) \<Longrightarrow>
    gateway_step limit s (finish_request i method status duration_ms s)"

inductive gateway_run :: "nat \<Rightarrow> gateway \<Rightarrow> bool" for limit where
  new: "gateway_run limit gateway_new"
| step: "gateway_run limit s \<Longrightarrow> gateway_step limit s s' \<Longrightarrow> gateway_run limit s'"

definition holding :: "gateway \<Rightarrow> nat" where
  "holding s = length (filter (\<lambda>(i, p). case p of Inside m admitted \<Rightarrow> admitted | _ \<Rightarrow> False) (gw_requests s))"

definition histogram_ok :: "metrics \<Rightarrow> bool" where
  "histogram_ok m \<longleftrightarrow> (\<forall>k. counted k (mt_latency_count m) = counted k (mt_requests m)) \<and>
     (\<forall>me st a b. a \<in> set latency_buckets_ms \<and> b \<in> set latency_buckets_ms \<and> a \<le> b \<longrightarrow>
        counted (me, st, a) (mt_latency_buckets m) \<le> counted (me, st, b) (mt_latency_buckets m)) \<and>
     (\<forall>me st a. counted (me, st, a) (mt_latency_buckets m) \<le> counted (me, st) (mt_latency_count m))"

definition gateway_inv :: "nat \<Rightarrow> gateway \<Rightarrow> bool" where
  "gateway_inv limit s \<longleftrightarrow> dict_ok (gw_requests s) \<and> gw_active s = holding s \<and> gw_active s \<le> limit \<and>
     mt_in_flight (gw_metrics s) = int (length (gw_requests s)) \<and> histogram_ok (gw_metrics s)"

lemma counted_count: "counted k (count k' d) = (if k = k' then counted k d + 1 else counted k d)"
  by (simp add: counted_def count_def dict_get_set)

lemma bucket_fold:
  "distinct bs \<Longrightarrow> counted (me', st', a) (foldl (\<lambda>d b. if P b then count (me, st, b) d else d) d bs) =
     counted (me', st', a) d + (if me' = me \<and> st' = st \<and> a \<in> set bs \<and> P a then 1 else 0)"
proof (induction bs arbitrary: d)
  case (Cons b bs)
  then show ?case by (auto simp: counted_count)
qed simp

lemma observe_histogram:
  assumes "histogram_ok m"
  shows "histogram_ok (observe me st x m)"
proof -
  have bucket: "counted (me', st', a) (mt_latency_buckets (observe me st x m)) = counted (me', st', a) (mt_latency_buckets m) +
      (if me' = me \<and> st' = st \<and> a \<in> set latency_buckets_ms \<and> x \<le> of_int a then 1 else 0)" for me' st' a
  proof -
    have "distinct latency_buckets_ms" by (simp add: latency_buckets_ms_def)
    then show ?thesis unfolding observe_def Let_def by (simp add: bucket_fold)
  qed
  have cnt: "counted k (mt_latency_count (observe me st x m)) = counted k (mt_latency_count m) + (if k = (me, st) then 1 else 0)"
    "counted k (mt_requests (observe me st x m)) = counted k (mt_requests m) + (if k = (me, st) then 1 else 0)" for k
    unfolding observe_def Let_def by (simp_all add: counted_count)
  have up: "x \<le> of_int a \<Longrightarrow> a \<le> b \<Longrightarrow> x \<le> of_int b" for a b :: int
    by (meson of_int_le_iff order_trans)
  show ?thesis unfolding histogram_ok_def bucket cnt
  proof (intro conjI allI impI)
    fix k show "counted k (mt_latency_count m) + (if k = (me, st) then 1 else 0) = counted k (mt_requests m) + (if k = (me, st) then 1 else 0)"
      using assms by (simp add: histogram_ok_def)
  next
    fix me' st' a b assume ab: "a \<in> set latency_buckets_ms \<and> b \<in> set latency_buckets_ms \<and> a \<le> b"
    then have "counted (me', st', a) (mt_latency_buckets m) \<le> counted (me', st', b) (mt_latency_buckets m)"
      using assms unfolding histogram_ok_def by blast
    then show "counted (me', st', a) (mt_latency_buckets m) + (if me' = me \<and> st' = st \<and> a \<in> set latency_buckets_ms \<and> x \<le> of_int a then 1 else 0) \<le>
        counted (me', st', b) (mt_latency_buckets m) + (if me' = me \<and> st' = st \<and> b \<in> set latency_buckets_ms \<and> x \<le> of_int b then 1 else 0)"
      using ab up [of a b] by (auto intro: add_mono)
  next
    fix me' st' a
    have "counted (me', st', a) (mt_latency_buckets m) \<le> counted (me', st') (mt_latency_count m)"
      using assms unfolding histogram_ok_def by blast
    then show "counted (me', st', a) (mt_latency_buckets m) + (if me' = me \<and> st' = st \<and> a \<in> set latency_buckets_ms \<and> x \<le> of_int a then 1 else 0) \<le>
        counted (me', st') (mt_latency_count m) + (if (me', st') = (me, st) then 1 else 0)"
      by (auto intro: add_mono)
  qed
qed

lemma histogram_cong:
  "mt_latency_count m' = mt_latency_count m \<Longrightarrow> mt_requests m' = mt_requests m \<Longrightarrow>
   mt_latency_buckets m' = mt_latency_buckets m \<Longrightarrow> histogram_ok m' = histogram_ok m"
  by (simp add: histogram_ok_def)

text \<open>Changing the phase of one request changes the number of held slots by that request only.\<close>

lemma length_dict_set: "length (dict_set k v d) = (if dict_get k d = None then length d + 1 else length d)"
  by (induction d) (auto simp: dict_set_def dict_get_def)

lemma length_dict_del: "dict_ok d \<Longrightarrow> dict_get k d \<noteq> None \<Longrightarrow> length (dict_del k d) + 1 = length d"
proof (induction d)
  case (Cons p d)
  obtain i v where p: "p = (i, v)" by (cases p)
  show ?case
  proof (cases "i = k")
    case True
    then have "k \<notin> fst ` set d" using Cons.prems(1) p by (auto simp: dict_ok_def)
    then have "filter (\<lambda>(k', v). k' \<noteq> k) d = d" by (force simp: filter_id_conv)
    then show ?thesis using p True by (simp add: dict_del_filter)
  next
    case False
    then show ?thesis using Cons p by (auto simp: dict_del_filter dict_ok_def dict_get_def)
  qed
qed simp

definition slot :: "phase option \<Rightarrow> nat" where
  "slot p = (case p of Some (Inside m True) \<Rightarrow> 1 | _ \<Rightarrow> 0)"

lemma holding_set:
  assumes "dict_ok d"
  shows "length (filter (\<lambda>(i, p). case p of Inside m a \<Rightarrow> a | _ \<Rightarrow> False) (dict_set k v d)) + slot (dict_get k d) =
    length (filter (\<lambda>(i, p). case p of Inside m a \<Rightarrow> a | _ \<Rightarrow> False) d) + slot (Some v)"
  using assms
proof (induction d)
  case Nil
  then show ?case by (cases v) (auto simp: dict_set_def slot_def split: bool.splits)
next
  case (Cons p d)
  obtain i w where p: "p = (i, w)" by (cases p)
  show ?case
  proof (cases "i = k")
    case True
    have "slot (Some w) = (case w of Inside m a \<Rightarrow> if a then 1 else 0 | _ \<Rightarrow> 0)" for w
      by (cases w) (auto simp: slot_def split: bool.splits)
    then show ?thesis using p True by (cases w; cases v) (auto simp: dict_set_def dict_get_def)
  next
    case False
    then have "length (filter (\<lambda>(i, p). case p of Inside m a \<Rightarrow> a | _ \<Rightarrow> False) (dict_set k v d)) + slot (dict_get k d) =
      length (filter (\<lambda>(i, p). case p of Inside m a \<Rightarrow> a | _ \<Rightarrow> False) d) + slot (Some v)"
      using Cons by (simp add: dict_ok_def)
    then show ?thesis using p False by (auto simp: dict_set_def dict_get_def)
  qed
qed

lemma holding_del:
  assumes "slot (dict_get k d) = 0" "dict_ok d"
  shows "length (filter (\<lambda>(i, p). case p of Inside m a \<Rightarrow> a | _ \<Rightarrow> False) (dict_del k d)) =
    length (filter (\<lambda>(i, p). case p of Inside m a \<Rightarrow> a | _ \<Rightarrow> False) d)"
proof -
  have "filter (\<lambda>(i, p). case p of Inside m a \<Rightarrow> a | _ \<Rightarrow> False) (dict_del k d) =
    filter (\<lambda>(i, p). case p of Inside m a \<Rightarrow> a | _ \<Rightarrow> False) d"
    unfolding dict_del_filter filter_filter
  proof (rule filter_cong [OF refl])
    fix p assume p: "p \<in> set d"
    obtain i w where [simp]: "p = (i, w)" by (cases p)
    have "i = k \<Longrightarrow> dict_get k d = Some w" using p assms(2) by (simp add: dict_get_iff_in)
    then have "i = k \<Longrightarrow> \<not> (case w of Inside m a \<Rightarrow> a | _ \<Rightarrow> False)"
      using assms(1) by (cases w) (auto simp: slot_def split: bool.splits)
    then show "((case p of (k', v) \<Rightarrow> k' \<noteq> k) \<and> (case p of (i, p) \<Rightarrow> case p of Inside m a \<Rightarrow> a | _ \<Rightarrow> False)) =
      (case p of (i, p) \<Rightarrow> case p of Inside m a \<Rightarrow> a | _ \<Rightarrow> False)" by auto
  qed
  then show ?thesis by simp
qed

lemma gateway_step_inv:
  assumes "gateway_step limit s s'" "gateway_inv limit s"
  shows "gateway_inv limit s'"
proof -
  have ok: "dict_ok (gw_requests s)" and act: "gw_active s = holding s" "gw_active s \<le> limit"
    and fl: "mt_in_flight (gw_metrics s) = int (length (gw_requests s))" and h: "histogram_ok (gw_metrics s)"
    using assms(2) by (simp_all add: gateway_inv_def)
  note set = holding_set [OF ok]
  show ?thesis using assms(1)
  proof cases
    case (start i verb path)
    have "holding s' = holding s" using set [of i "Arrived verb path"] start by (simp add: holding_def start_request_def slot_def)
    then show ?thesis using start ok act fl h histogram_cong [of "request_started (gw_metrics s)" "gw_metrics s"]
      by (simp add: gateway_inv_def start_request_def request_started_def length_dict_set)
  next
    case (admit i verb path)
    then have slot0: "slot (dict_get i (gw_requests s)) = 0" by (simp add: slot_def)
    have hold: "length (filter (\<lambda>(i, p). case p of Inside m a \<Rightarrow> a | _ \<Rightarrow> False) (dict_set i v (gw_requests s))) = holding s + slot (Some v)" for v
      using set [of i v] slot0 by (simp add: holding_def)
    have len: "length (dict_set i v (gw_requests s)) = length (gw_requests s)" for v using admit by (simp add: length_dict_set)
    have hs: "histogram_ok (observe_shed (gw_metrics s))" using h histogram_cong [of "observe_shed (gw_metrics s)" "gw_metrics s"]
      by (simp add: observe_shed_def)
    consider "path \<in> bypass_paths" | "path \<notin> bypass_paths" "gw_active s < limit" | "path \<notin> bypass_paths" "\<not> gw_active s < limit" by blast
    then show ?thesis
      by cases (use admit ok act fl h hs hold len in
        \<open>simp_all add: gateway_inv_def admit_request_def holding_def slot_def observe_shed_def\<close>)
  next
    case (leave i verb admitted status)
    have "holding s' + slot (dict_get i (gw_requests s)) = holding s"
      using set [of i "Answered verb status"] leave by (simp add: holding_def leave_request_def slot_def)
    then have "gw_active s' = holding s'" using leave act by (cases admitted) (auto simp: leave_request_def slot_def)
    then show ?thesis using leave ok act fl h by (auto simp: gateway_inv_def leave_request_def length_dict_set)
  next
    case (finish i verb status x)
    then have slot0: "slot (dict_get i (gw_requests s)) = 0" by (simp add: slot_def)
    have "holding s' = holding s" using holding_del [OF slot0 ok] finish by (simp add: holding_def finish_request_def)
    moreover have "length (dict_del i (gw_requests s)) + 1 = length (gw_requests s)"
      using length_dict_del [OF ok, of i] finish by simp
    moreover have "mt_in_flight (observe verb status x (gw_metrics s)) = mt_in_flight (gw_metrics s) - 1"
      by (simp add: observe_def Let_def)
    ultimately show ?thesis using finish ok act fl observe_histogram [OF h] by (simp add: gateway_inv_def finish_request_def)
  qed
qed

lemma gateway_run_inv: "gateway_run limit s \<Longrightarrow> gateway_inv limit s"
proof (induction rule: gateway_run.induct)
  case new
  then show ?case by (simp add: gateway_inv_def gateway_new_def metrics_new_def holding_def histogram_ok_def counted_def)
next
  case (step s s')
  show ?case by (rule gateway_step_inv [OF step(2,3)])
qed

lemma gateway_run_bounds:
  assumes "gateway_run limit s"
  shows "holding s \<le> limit" "mt_in_flight (gw_metrics s) = int (length (gw_requests s))"
    "a \<in> set latency_buckets_ms \<Longrightarrow> b \<in> set latency_buckets_ms \<Longrightarrow> a \<le> b \<Longrightarrow>
      counted (me, st, a) (mt_latency_buckets (gw_metrics s)) \<le> counted (me, st, b) (mt_latency_buckets (gw_metrics s))"
    "counted (me, st, a) (mt_latency_buckets (gw_metrics s)) \<le> counted (me, st) (mt_requests (gw_metrics s))"
proof -
  have inv: "gateway_inv limit s" by (rule gateway_run_inv [OF assms])
  then show "holding s \<le> limit" "mt_in_flight (gw_metrics s) = int (length (gw_requests s))"
    by (simp_all add: gateway_inv_def)
  have h: "histogram_ok (gw_metrics s)" using inv by (simp add: gateway_inv_def)
  then show "a \<in> set latency_buckets_ms \<Longrightarrow> b \<in> set latency_buckets_ms \<Longrightarrow> a \<le> b \<Longrightarrow>
      counted (me, st, a) (mt_latency_buckets (gw_metrics s)) \<le> counted (me, st, b) (mt_latency_buckets (gw_metrics s))"
    unfolding histogram_ok_def by blast
  have "counted (me, st, a) (mt_latency_buckets (gw_metrics s)) \<le> counted (me, st) (mt_latency_count (gw_metrics s))"
    "counted (me, st) (mt_latency_count (gw_metrics s)) = counted (me, st) (mt_requests (gw_metrics s))"
    using h unfolding histogram_ok_def by blast+
  then show "counted (me, st, a) (mt_latency_buckets (gw_metrics s)) \<le> counted (me, st) (mt_requests (gw_metrics s))" by simp
qed


text \<open>Two requests meet a limit of one: the second is shed, and a third is admitted later.\<close>

definition ex_admitted :: gateway where
  "ex_admitted = admit_request 1 0 ''GET'' ''/api'' (start_request 0 ''GET'' ''/api'' gateway_new)"

definition ex_refused :: gateway where
  "ex_refused = admit_request 1 1 ''POST'' ''/api'' (start_request 1 ''POST'' ''/api'' ex_admitted)"

definition ex_left :: gateway where
  "ex_left = finish_request 0 ''GET'' 200 7 (leave_request 0 ''GET'' True 200 ex_refused)"

definition ex_gateway :: gateway where
  "ex_gateway = admit_request 1 2 ''GET'' ''/api'' (start_request 2 ''GET'' ''/api'' ex_left)"

lemma ex_gateway_run: "gateway_run 1 ex_gateway"
proof -
  have 1: "gateway_run 1 (start_request 0 ''GET'' ''/api'' gateway_new)"
    by (rule gateway_run.step [OF gateway_run.new gateway_step.start]) code_simp
  have 2: "gateway_run 1 ex_admitted" unfolding ex_admitted_def
    by (rule gateway_run.step [OF 1 gateway_step.admit]) code_simp
  have 3: "gateway_run 1 (start_request 1 ''POST'' ''/api'' ex_admitted)"
    by (rule gateway_run.step [OF 2 gateway_step.start]) code_simp
  have 4: "gateway_run 1 ex_refused" unfolding ex_refused_def
    by (rule gateway_run.step [OF 3 gateway_step.admit]) code_simp
  have 5: "gateway_run 1 (leave_request 0 ''GET'' True 200 ex_refused)"
    by (rule gateway_run.step [OF 4 gateway_step.leave]) code_simp
  have 6: "gateway_run 1 ex_left" unfolding ex_left_def
    by (rule gateway_run.step [OF 5 gateway_step.finish]) code_simp
  have 7: "gateway_run 1 (start_request 2 ''GET'' ''/api'' ex_left)"
    by (rule gateway_run.step [OF 6 gateway_step.start]) code_simp
  show ?thesis unfolding ex_gateway_def
    by (rule gateway_run.step [OF 7 gateway_step.admit]) code_simp
qed


text \<open>Formats and header values.\<close>

lemma ex_formats: "fixed3 (7 / 2) = ''3.500''" "parse_int ''-1_0'' = Some (- 10)" "parse_int ''1__0'' = None"
  by code_simp+

end
