(* ===== verification/Api.thy ===== *)
theory Api
  imports ReservationProps Privacy Security
begin

text \<open>
  The HTTP API, \<open>api/app.py\<close>: access control in front of every handler, the handlers over the
  in-memory offer store and the reservation service, and the answer each exception becomes. Parsing
  the request line, the headers and JSON is the framework's work: a call arrives with its
  credentials and typed parameters. Clock readings are parameters.
\<close>

section \<open>The request body of a reservation\<close>

text \<open>A callback URL as the URL parser gives it.\<close>

record callback =
  cb_text :: string
  cb_scheme :: string
  cb_username :: "string option"
  cb_password :: "string option"
  cb_host :: "string option"

fun split_on :: "char \<Rightarrow> string \<Rightarrow> string \<Rightarrow> string list" where
  "split_on c w [] = [w]"
| "split_on c w (x # xs) = (if x = c then w # split_on c [] xs else split_on c (w @ [x]) xs)"

definition octet :: "string \<Rightarrow> nat option" where
  "octet s = (if s \<noteq> [] \<and> list_all is_digit s \<and> length s \<le> 3 \<and> \<not> (hd s = CHR ''0'' \<and> length s > 1) \<and> read_digits s \<le> 255
     then Some (read_digits s) else None)"

fun octets :: "string list \<Rightarrow> nat list option" where
  "octets [] = Some []"
| "octets (s # ss) = (case (octet s, octets ss) of (Some n, Some ns) \<Rightarrow> Some (n # ns) | _ \<Rightarrow> None)"

definition ipv4_address :: "string \<Rightarrow> nat option" where
  "ipv4_address host = (case octets (split_on (CHR ''.'') [] host) of
     Some [a, b, c, d] \<Rightarrow> Some (((a * 256 + b) * 256 + c) * 256 + d) | _ \<Rightarrow> None)"

definition in_net :: "nat \<Rightarrow> nat list \<Rightarrow> nat \<Rightarrow> bool" where
  "in_net address net bits = (address div 2 ^ (32 - bits) = foldl (\<lambda>n b. n * 256 + b) 0 net div 2 ^ (32 - bits))"

definition ipv4_is_private :: "nat \<Rightarrow> bool" where
  "ipv4_is_private a \<longleftrightarrow>
     list_ex (\<lambda>(net, bits). in_net a net bits)
       [([0,0,0,0], 8), ([10,0,0,0], 8), ([127,0,0,0], 8), ([169,254,0,0], 16), ([172,16,0,0], 12),
        ([192,0,0,0], 24), ([192,0,2,0], 24), ([192,168,0,0], 16), ([198,18,0,0], 15), ([198,51,100,0], 24),
        ([203,0,113,0], 24), ([240,0,0,0], 4), ([255,255,255,255], 32)] \<and>
     \<not> list_ex (\<lambda>(net, bits). in_net a net bits) [([192,0,0,9], 32), ([192,0,0,10], 32)]"

definition ipv4_is_global :: "nat \<Rightarrow> bool" where
  "ipv4_is_global a \<longleftrightarrow> \<not> in_net a [100,64,0,0] 10 \<and> \<not> ipv4_is_private a"

text \<open>
  \<open>ip_address(host).is_global\<close>; \<open>None\<close> when the text is no address. Whether a text with colons is
  an IPv6 address, and a global one, is the parameter \<open>ip6\<close>.
\<close>

definition ip_is_global :: "(string \<Rightarrow> bool option) \<Rightarrow> string \<Rightarrow> bool option" where
  "ip_is_global ip6 host = (case ipv4_address host of Some a \<Rightarrow> Some (ipv4_is_global a) | None \<Rightarrow> ip6 host)"

definition callback_ok :: "(string \<Rightarrow> bool option) \<Rightarrow> callback \<Rightarrow> bool" where
  "callback_ok ip6 u \<longleftrightarrow> cb_scheme u = ''https'' \<and> \<not> truthy (cb_username u) \<and> \<not> truthy (cb_password u) \<and>
     (case cb_host u of None \<Rightarrow> False | Some host \<Rightarrow>
        List.map to_lower host \<noteq> ''localhost'' \<and> ip_is_global ip6 host \<noteq> Some False)"

record reservation_request =
  rr_zone_id :: string
  rr_interval_start :: datetime
  rr_interval_end :: datetime
  rr_direction :: direction
  rr_power_kw :: pyfloat
  rr_consequence_type :: consequence
  rr_callback :: "callback option"

definition reservation_request_ok :: "(string \<Rightarrow> bool option) \<Rightarrow> reservation_request \<Rightarrow> bool" where
  "reservation_request_ok ip6 q \<longleftrightarrow>
     1 \<le> length (rr_zone_id q) \<and> length (rr_zone_id q) \<le> 64 \<and>
     num_between (rr_power_kw q) 0 1000000 \<and> fin_val (rr_power_kw q) > 0 \<and>
     tz_aware (rr_interval_start q) \<and> tz_aware (rr_interval_end q) \<and>
     instant_of (rr_interval_start q) < instant_of (rr_interval_end q) \<and>
     instant_of (rr_interval_end q) - instant_of (rr_interval_start q) \<le> days 1 \<and>
     (case rr_callback q of None \<Rightarrow> True | Some u \<Rightarrow> callback_ok ip6 u)"

section \<open>The application\<close>

record audit_event =
  au_outcome :: string
  au_reason :: string
  au_method :: string
  au_route :: string

record 's api_state =
  as_store :: offer_store
  as_world :: "'s world"
  as_audit :: "audit_event list"

record ('s, 'b) app =
  ap_uow :: "'s uow"
  ap_collaborators :: "'b collaborators"
  ap_fingerprint :: "request \<Rightarrow> string"
  ap_policy :: policy
  ap_jwt :: "oidc \<Rightarrow> string \<Rightarrow> jwt_outcome"
  ap_authenticator :: authenticator
  ap_ip6 :: "string \<Rightarrow> bool option"

text \<open>
  A call: the method and route template, the \<open>Authorization\<close> header and the bearer token the
  framework found in it.
\<close>

record call =
  cl_method :: string
  cl_route :: string
  cl_authorization :: "string option"
  cl_credentials :: "string option"

datatype api_error =
    Auth auth_error
  | Privacy_refused privacy_error
  | Budget_exceeded
  | Service service_error
  | Aggregate_error model_error
  | Invalid_request
  | Http_error int string

type_synonym ('s, 'a) handler = "('s api_state, api_error, 'a) action"

text \<open>Calling the collaborators.\<close>

definition on_store :: "('x \<Rightarrow> api_error) \<Rightarrow> (offer_store \<Rightarrow> offer_store \<times> ('x + 'a)) \<Rightarrow> ('s, 'a) handler" where
  "on_store err f s = (case f (as_store s) of
     (st, Inl e) \<Rightarrow> (s\<lparr>as_store := st\<rparr>, Inl (err e)) | (st, Inr v) \<Rightarrow> (s\<lparr>as_store := st\<rparr>, Inr v))"

definition on_service :: "('s, service_error, 'a) action \<Rightarrow> ('s, 'a) handler" where
  "on_service f s = (case f (w_backend (as_world s)) of
     (b, Inl e) \<Rightarrow> (s\<lparr>as_world := (as_world s)\<lparr>w_backend := b\<rparr>\<rparr>, Inl (Service e))
   | (b, Inr v) \<Rightarrow> (s\<lparr>as_world := (as_world s)\<lparr>w_backend := b\<rparr>\<rparr>, Inr v))"

definition on_world :: "('s world, service_error, 'a) action \<Rightarrow> ('s, 'a) handler" where
  "on_world f s = (case f (as_world s) of
     (w, Inl e) \<Rightarrow> (s\<lparr>as_world := w\<rparr>, Inl (Service e)) | (w, Inr v) \<Rightarrow> (s\<lparr>as_world := w\<rparr>, Inr v))"

definition guard :: "auth_error + unit \<Rightarrow> ('s, unit) handler" where
  "guard r = act_lift (map_sum Auth id r)"

definition check_access :: "('s, 'b) app \<Rightarrow> string \<Rightarrow> call \<Rightarrow> auth_error + principal" where
  "check_access A scope c =
     (if cl_authorization c \<noteq> None \<and> cl_credentials c = None \<and> ap_authenticator A \<noteq> Development
        then Inl (AuthenticationError ''invalid_authorization_scheme'')
      else bind_res (authenticate (ap_jwt A) (ap_authenticator A) (cl_credentials c)) (\<lambda>p.
        bind_res (require_scope p scope) (\<lambda>_. Inr p)))"

definition with_access :: "('s, 'b) app \<Rightarrow> string \<Rightarrow> call \<Rightarrow> (principal \<Rightarrow> ('s, 'a) handler) \<Rightarrow> ('s, 'a) handler" where
  "with_access A scope c h = act_bind (act_lift (map_sum Auth id (check_access A scope c))) h"

definition consume_privacy_budget :: "('s, 'b) app \<Rightarrow> principal \<Rightarrow> instant \<Rightarrow> ('s, instant) handler" where
  "consume_privacy_budget A p now =
     act_bind (act_lift (map_sum Privacy_refused id (publication_epoch (ap_policy A) (Aware now 0)))) (\<lambda>epoch.
       act_bind (on_store Aggregate_error (\<lambda>st. case consume_privacy_query (ap_tenant_id p) epoch
           (pp_queries_per_interval (ap_policy A)) st of (st', ok) \<Rightarrow> (st', Inr ok))) (\<lambda>ok.
         if ok then act_return epoch else act_raise Budget_exceeded))"

section \<open>Handlers\<close>

definition health_ready :: "bool \<Rightarrow> ('s, string) handler" where
  "health_ready ready = (if ready then act_return ''ready'' else act_raise (Http_error 503 ''reservation backend is unavailable''))"

definition get_security_status :: "('s, 'b) app \<Rightarrow> call \<Rightarrow> ('s, string) handler" where
  "get_security_status A c = with_access A ''admin:read'' c (\<lambda>p. act_return (case ap_authenticator A of
     Development \<Rightarrow> ''DevelopmentAuthenticator'' | Oidc _ \<Rightarrow> ''OIDCJWTAuthenticator'' | Static _ \<Rightarrow> ''StaticBearerAuthenticator''))"

definition get_flexibility_zones :: "('s, 'b) app \<Rightarrow> call \<Rightarrow> instant \<Rightarrow> instant \<Rightarrow> ('s, string list) handler" where
  "get_flexibility_zones A c t_epoch t_zones = with_access A ''flexibility:read'' c (\<lambda>p.
     act_bind (consume_privacy_budget A p t_epoch) (\<lambda>epoch.
       act_get (\<lambda>s. if ''*'' \<in> ap_zone_ids p then zones (ap_tenant_id p) t_zones (as_store s)
         else sorted_list_of_set (ap_zone_ids p))))"

definition check_window :: "datetime \<Rightarrow> datetime \<Rightarrow> ('s, unit) handler" where
  "check_window start finish =
     (if \<not> tz_aware start \<or> \<not> tz_aware finish then act_raise (Http_error 422 ''from and to must include a timezone'')
      else if instant_of finish \<le> instant_of start then act_raise (Http_error 422 ''to must be after from'')
      else act_return ())"

definition get_flexibility ::
    "('s, 'b) app \<Rightarrow> call \<Rightarrow> string \<Rightarrow> datetime \<Rightarrow> datetime \<Rightarrow> (nat \<Rightarrow> instant) \<Rightarrow> ('s, aggregate list) handler" where
  "get_flexibility A c zone_id start finish clock = with_access A ''flexibility:read'' c (\<lambda>p.
     act_then (if 1 \<le> length zone_id \<and> length zone_id \<le> 64 then act_return () else act_raise Invalid_request)
     (act_then (guard (require_zone p zone_id))
     (act_then (check_window start finish)
     (act_then (act_lift (map_sum Privacy_refused id (validate_window (ap_policy A) start finish)))
     (act_bind (consume_privacy_budget A p (clock 0)) (\<lambda>epoch.
       act_bind (on_store Aggregate_error
           (query zone_id (instant_of start) (instant_of finish) (ap_tenant_id p) (clock 1))) (\<lambda>aggregates.
       act_bind (on_service (public_residual_capacity (ap_uow A) aggregates (clock 2))) (\<lambda>residuals.
         let public = filter (eligible (ap_policy A)) residuals;
             candidates = List.map (\<lambda>g. sanitize (ap_policy A) g epoch) public
         in on_store Aggregate_error (\<lambda>st. case publish_privacy_snapshot (ap_tenant_id p) zone_id epoch
              (instant_of start) (instant_of finish) candidates st of (st', gs) \<Rightarrow> (st', Inr gs))))))))))"

definition create_request :: "principal \<Rightarrow> reservation_request \<Rightarrow> request" where
  "create_request p q = \<lparr> rq_tenant_id = ap_tenant_id p, rq_zone_id = rr_zone_id q,
     rq_interval_start = rr_interval_start q, rq_interval_end = rr_interval_end q, rq_direction = rr_direction q,
     rq_power_kw = rr_power_kw q, rq_consequence_type = rr_consequence_type q,
     rq_callback_url = map_option cb_text (rr_callback q) \<rparr>"

definition create_reservation ::
    "('s, 'b) app \<Rightarrow> call \<Rightarrow> string \<Rightarrow> reservation_request \<Rightarrow> uuid \<Rightarrow> uuid \<Rightarrow> instant \<Rightarrow> ('s, reservation) handler" where
  "create_reservation A c idempotency_key q rid cid now = with_access A ''reservation:write'' c (\<lambda>p.
     act_then (if reservation_request_ok (ap_ip6 A) q \<and> 1 \<le> length idempotency_key \<and> length idempotency_key \<le> 128
         then act_return () else act_raise Invalid_request)
     (act_then (guard (require_zone p (rr_zone_id q)))
     (act_bind (act_get as_store) (\<lambda>st.
       on_service (create (ap_uow A) (store_env (ap_fingerprint A) st) rid cid idempotency_key (create_request p q) now)))))"

text \<open>The reservation, once it is known to be the caller's.\<close>

definition owned_reservation :: "('s, 'b) app \<Rightarrow> principal \<Rightarrow> uuid \<Rightarrow> instant \<Rightarrow> ('s, reservation) handler" where
  "owned_reservation A p i now =
     act_bind (on_service (get_reservation_at (ap_uow A) i now)) (\<lambda>r.
       act_then (guard (require_tenant p (r_tenant_id r)))
       (act_then (guard (require_zone p (r_zone_id r))) (act_return r)))"

definition get_reservation :: "('s, 'b) app \<Rightarrow> call \<Rightarrow> uuid \<Rightarrow> instant \<Rightarrow> ('s, reservation) handler" where
  "get_reservation A c i now = with_access A ''reservation:read'' c (\<lambda>p. owned_reservation A p i now)"

definition cancel_reservation :: "('s, 'b) app \<Rightarrow> call \<Rightarrow> uuid \<Rightarrow> instant \<Rightarrow> instant \<Rightarrow> ('s, reservation) handler" where
  "cancel_reservation A c i now1 now2 = with_access A ''reservation:write'' c (\<lambda>p.
     act_bind (owned_reservation A p i now1) (\<lambda>r. on_service (cancel (ap_uow A) i now2)))"

definition activate_reservation ::
    "('s, 'b) app \<Rightarrow> call \<Rightarrow> uuid \<Rightarrow> uuid \<Rightarrow> instant \<Rightarrow> instant \<Rightarrow> instant \<Rightarrow> ('s, activation) handler" where
  "activate_reservation A c aid i now1 now2 now3 = with_access A ''activation:write'' c (\<lambda>p.
     act_bind (owned_reservation A p i now1) (\<lambda>r. on_world (activate (ap_uow A) (ap_collaborators A) aid now2 now3 i)))"

definition get_activation_of :: "('s, 'b) app \<Rightarrow> call \<Rightarrow> uuid \<Rightarrow> instant \<Rightarrow> ('s, activation) handler" where
  "get_activation_of A c aid now = with_access A ''activation:read'' c (\<lambda>p.
     act_bind (on_service (get_activation (ap_uow A) aid)) (\<lambda>a.
       act_bind (owned_reservation A p (ac_reservation_id a) now) (\<lambda>r. act_return a)))"

section \<open>Answers\<close>

datatype body = Detail string | Problem_json string string | Server_error
datatype reply_header = WWW_Authenticate string | Retry_After int

record answer =
  an_status :: int
  an_headers :: "reply_header list"
  an_body :: body

definition plain :: "int \<Rightarrow> reply_header list \<Rightarrow> string \<Rightarrow> answer" where
  "plain status headers detail = \<lparr> an_status = status, an_headers = headers, an_body = Detail detail \<rparr>"

definition problem :: "int \<Rightarrow> string \<Rightarrow> string \<Rightarrow> answer" where
  "problem status title detail = \<lparr> an_status = status, an_headers = [], an_body = Problem_json title detail \<rparr>"

definition server_error :: answer where
  "server_error = \<lparr> an_status = 500, an_headers = [], an_body = Server_error \<rparr>"

text \<open>
  The exception handlers: the audited reason of a refusal, if it is audited, and its answer.
  \<open>render e\<close> is the \<open>str(error)\<close> of a reservation failure. A refused statement of the database is a
  database error; the in-memory backend's \<open>KeyError\<close>, and whatever has no handler, is the
  framework's answer 500. The details of a request that does not validate are the framework's.
\<close>

definition answer_service_error :: "(service_error \<Rightarrow> string) \<Rightarrow> service_error \<Rightarrow> answer" where
  "answer_service_error render x = (case x of
     InsufficientCapacity \<Rightarrow> problem 409 ''Reservation conflict'' (render x)
   | IdempotencyConflict \<Rightarrow> problem 409 ''Reservation conflict'' (render x)
   | ReservationStateConflict \<Rightarrow> problem 409 ''Reservation conflict'' (render x)
   | ReservationNotFound \<Rightarrow> problem 404 ''Not found'' (render x)
   | Backend_error KeyError \<Rightarrow> server_error
   | Backend_error _ \<Rightarrow> plain 503 [Retry_After 1] ''service dependency unavailable''
   | _ \<Rightarrow> server_error)"

definition answer_error ::
    "(service_error \<Rightarrow> string) \<Rightarrow> policy \<Rightarrow> api_error \<Rightarrow> string option \<times> answer" where
  "answer_error render pol e = (case e of
     Auth (AuthenticationError code) \<Rightarrow>
       (Some code, plain 401 [WWW_Authenticate ''Bearer''] ''authentication required'')
   | Auth (AuthorizationError code) \<Rightarrow> (Some code, plain 404 [] ''not found'')
   | Auth (Unhandled _) \<Rightarrow> (None, server_error)
   | Privacy_refused (PrivacyQueryRejected code) \<Rightarrow> (Some code, plain 422 [] ''invalid publication window'')
   | Privacy_refused PrivacyValueError \<Rightarrow> (None, server_error)
   | Budget_exceeded \<Rightarrow> (Some ''privacy_query_budget'',
       plain 429 [Retry_After (pp_interval_minutes pol * 60)] ''publication query budget exhausted'')
   | Service x \<Rightarrow> (None, answer_service_error render x)
   | Aggregate_error _ \<Rightarrow> (None, server_error)
   | Invalid_request \<Rightarrow> (None, plain 422 [] ''invalid request'')
   | Http_error n detail \<Rightarrow> (None, plain n [] detail))"

definition audit_of :: "call \<Rightarrow> string \<Rightarrow> audit_event" where
  "audit_of c reason = \<lparr> au_outcome = ''denied'', au_reason = reason, au_method = cl_method c, au_route = cl_route c \<rparr>"

text \<open>Running a handler, answering, and recording the refusals that are audited.\<close>

definition serve ::
    "(service_error \<Rightarrow> string) \<Rightarrow> ('s, 'b) app \<Rightarrow> call \<Rightarrow> ('s, 'a) handler \<Rightarrow> 's api_state \<Rightarrow> 's api_state \<times> (answer + 'a)" where
  "serve render A c h s = (case h s of
     (s', Inr v) \<Rightarrow> (s', Inr v)
   | (s', Inl e) \<Rightarrow> (case answer_error render (ap_policy A) e of
       (None, a) \<Rightarrow> (s', Inl a)
     | (Some reason, a) \<Rightarrow> (s'\<lparr>as_audit := as_audit s' @ [audit_of c reason]\<rparr>, Inl a)))"

section \<open>What a handler keeps of the store\<close>

text \<open>
  \<open>keeps Q R h\<close>: the handler keeps the property \<open>Q\<close> of the offer store, whether it returns or
  raises, and what it returns satisfies \<open>R\<close>.
\<close>

definition keeps :: "(offer_store \<Rightarrow> bool) \<Rightarrow> ('a \<Rightarrow> bool) \<Rightarrow> ('s, 'a) handler \<Rightarrow> bool" where
  "keeps Q R h \<longleftrightarrow> (\<forall>s. Q (as_store s) \<longrightarrow> Q (as_store (fst (h s))) \<and> (\<forall>v. snd (h s) = Inr v \<longrightarrow> R v))"

named_theorems keep_rules

lemma keepsD:
  assumes "keeps Q R h" "Q (as_store s)" "h s = (s', out)"
  shows "Q (as_store s')" "out = Inr v \<Longrightarrow> R v"
  using assms unfolding keeps_def by (metis fst_conv, metis snd_conv)

lemma keeps_plain [keep_rules]:
  "R v \<Longrightarrow> keeps Q R (act_return v)" "keeps Q R (act_raise e)"
  "(\<And>v. r = Inr v \<Longrightarrow> R v) \<Longrightarrow> keeps Q R (act_lift r)" "(\<And>s. R (g s)) \<Longrightarrow> keeps Q R (act_get g)"
  by (simp_all add: keeps_def)

lemma keeps_bind [keep_rules]:
  fixes m :: "('s, 'a) handler"
  assumes "keeps Q R m" "\<And>v. R v \<Longrightarrow> keeps Q R' (f v)"
  shows "keeps Q R' (act_bind m f)"
  unfolding keeps_def
proof (intro allI impI)
  fix s :: "'s api_state" assume q: "Q (as_store s)"
  obtain s1 out where m: "m s = (s1, out)" by (cases "m s")
  note k = keepsD [OF assms(1) q m]
  show "Q (as_store (fst (act_bind m f s))) \<and> (\<forall>v. snd (act_bind m f s) = Inr v \<longrightarrow> R' v)"
  proof (cases out)
    case (Inl e)
    then show ?thesis using k(1) m by simp
  next
    case (Inr v)
    then have "keeps Q R' (f v)" using assms(2) k(2) by blast
    then show ?thesis using k(1) m Inr by (simp add: keeps_def)
  qed
qed

lemma keeps_then [keep_rules]: "keeps Q (\<lambda>_. True) m \<Longrightarrow> keeps Q R f \<Longrightarrow> keeps Q R (act_then m f)"
  unfolding act_then_def by (rule keeps_bind)

lemma keeps_if [keep_rules]: "(b \<Longrightarrow> keeps Q R m) \<Longrightarrow> (\<not> b \<Longrightarrow> keeps Q R m') \<Longrightarrow> keeps Q R (if b then m else m')"
  by simp

lemma keeps_service [keep_rules]:
  "(\<And>b b' v. f b = (b', Inr v) \<Longrightarrow> R v) \<Longrightarrow> keeps Q R (on_service f)"
  by (auto simp: keeps_def on_service_def split: prod.splits sum.splits)

lemma keeps_world [keep_rules]:
  "(\<And>w w' v. f w = (w', Inr v) \<Longrightarrow> R v) \<Longrightarrow> keeps Q R (on_world f)"
  by (auto simp: keeps_def on_world_def split: prod.splits sum.splits)

lemma keeps_store:
  "(\<And>st st' out. Q st \<Longrightarrow> f st = (st', out) \<Longrightarrow> Q st' \<and> (\<forall>v. out = Inr v \<longrightarrow> R v)) \<Longrightarrow> keeps Q R (on_store err f)"
  by (auto simp: keeps_def on_store_def split: prod.splits sum.splits)

lemma keeps_lift: "keeps Q (\<lambda>v. r = Inr v) (act_lift (map_sum f id r))"
  by (cases r) (simp_all add: keeps_def)

lemma keeps_access [keep_rules]:
  assumes "\<And>p. check_access A scope c = Inr p \<Longrightarrow> keeps Q R (h p)"
  shows "keeps Q R (with_access A scope c h)"
  unfolding with_access_def
  by (rule keeps_bind [OF keeps_lift assms])

lemma serve_store: "as_store (fst (serve render A c h s)) = as_store (fst (h s))"
  by (auto simp: serve_def split: prod.splits sum.splits option.splits)

section \<open>Publication\<close>

text \<open>A published aggregate is the sanitised form of an eligible one, under its own tenant and zone.\<close>

definition published_from :: "policy \<Rightarrow> string \<Rightarrow> string \<Rightarrow> instant \<Rightarrow> aggregate \<Rightarrow> bool" where
  "published_from pol t z e g \<longleftrightarrow> g_tenant_id g = t \<and> g_zone_id g = z \<and>
     (\<exists>g0. eligible pol g0 \<and> g = sanitize pol g0 e)"

definition sanitised :: "policy \<Rightarrow> offer_store \<Rightarrow> bool" where
  "sanitised pol st \<longleftrightarrow> snapshots_inv st \<and>
     (\<forall>t z e k g. dict_get (t, z, e, k) (privacy_snapshots st) = Some g \<longrightarrow> published_from pol t z e g)"

lemma sanitised_cong: "privacy_snapshots st' = privacy_snapshots st \<Longrightarrow> sanitised pol st' = sanitised pol st"
  using snapshots_inv_cong [of st' st] by (simp add: sanitised_def)

lemma setdefaults_get:
  "dict_get k (foldl (\<lambda>d c. dict_setdefault (f c) c d) d gs) = Some g \<Longrightarrow>
     dict_get k d = Some g \<or> g \<in> set gs \<and> k = f g"
proof (induction gs arbitrary: d)
  case (Cons c gs)
  from Cons.IH [OF Cons.prems [unfolded foldl.simps]]
  show ?case unfolding dict_setdefault_get by (simp split: if_splits) blast+
qed simp

lemma publish_sanitised:
  assumes st: "sanitised pol st" and gs: "\<forall>g \<in> set gs. published_from pol t z e g"
    and run: "publish_privacy_snapshot t z e a b gs st = (st', out)"
  shows "sanitised pol st'"
    "\<forall>g \<in> set out. published_from pol t z e g \<and> a \<le> g_interval_start g \<and> g_interval_end g \<le> b"
proof -
  have snaps: "privacy_snapshots st' =
      foldl (\<lambda>d c. dict_setdefault (snapshot_key t z e c) c d) (privacy_snapshots st) gs"
    using run by (auto simp: publish_privacy_snapshot_def Let_def)
  have inv: "snapshots_inv st" using st by (simp add: sanitised_def)
  have "snapshots_inv st'" using publish_snapshots_inv [OF inv, of t z e a b gs] run by simp
  moreover have "published_from pol t' z' e' g"
    if "dict_get (t', z', e', k) (privacy_snapshots st') = Some g" for t' z' e' k g
    using setdefaults_get [OF that [unfolded snaps]]
  proof (elim disjE conjE)
    assume "dict_get (t', z', e', k) (privacy_snapshots st) = Some g"
    then show ?thesis using st by (simp add: sanitised_def)
  next
    assume "g \<in> set gs" "(t', z', e', k) = snapshot_key t z e g"
    then show ?thesis using gs by (simp add: snapshot_key_def)
  qed
  ultimately show new: "sanitised pol st'" by (simp add: sanitised_def)
  show "\<forall>g \<in> set out. published_from pol t z e g \<and> a \<le> g_interval_start g \<and> g_interval_end g \<le> b"
  proof
    fix g assume "g \<in> set out"
    from iffD1 [OF publish_result [OF inv run] this]
    have g: "dict_get (snapshot_key t z e g) (privacy_snapshots st') = Some g"
      "a \<le> g_interval_start g" "g_interval_end g \<le> b" by simp_all
    then have "published_from pol t z e g" using new by (simp add: sanitised_def snapshot_key_def)
    then show "published_from pol t z e g \<and> a \<le> g_interval_start g \<and> g_interval_end g \<le> b" using g by simp
  qed
qed

definition cell_of :: "string \<Rightarrow> string \<Rightarrow> aggregate \<Rightarrow> bool" where
  "cell_of t z g \<longleftrightarrow> g_tenant_id g = t \<and> g_zone_id g = z"

lemma query_cell_of: "query z a b t now st = (st', Inr gs) \<Longrightarrow> \<forall>g \<in> set gs. cell_of t z g"
proof
  fix g assume "query z a b t now st = (st', Inr gs)" "g \<in> set gs"
  from query_published [OF this] obtain k where "aggregate_cell g = (t, z, k)" by blast
  then show "cell_of t z g" by (simp add: aggregate_cell_def cell_of_def)
qed

lemma residual_cell_of: "cell_of t z (residual_aggregate rs g) = cell_of t z g"
  by (simp add: residual_aggregate_def cell_of_def Let_def split: prod.splits)

lemma residual_fields:
  "g_participant_count (residual_aggregate rs g) = g_participant_count g"
  "g_interval_start (residual_aggregate rs g) = g_interval_start g"
  "g_interval_end (residual_aggregate rs g) = g_interval_end g"
  by (simp_all add: residual_aggregate_def Let_def split: prod.splits)

lemma sanitize_cell_of: "cell_of t z (sanitize pol g e) = cell_of t z g"
  by (simp add: sanitize_def cell_of_def Let_def)

lemma publish_residual_subset: "publish_residual U g s = (s', Inr out) \<Longrightarrow> set out \<subseteq> {g}"
  by (auto simp: publish_residual_def Let_def act_bind_Inr act_then_eq split: option.splits if_splits)

lemma publish_residuals_subset: "publish_residuals U gs s = (s', Inr out) \<Longrightarrow> set out \<subseteq> set gs"
proof (induction gs arbitrary: s s' out)
  case (Cons g gs)
  then obtain s1 s2 a b where 1: "publish_residual U g s = (s1, Inr a)" "publish_residuals U gs s1 = (s2, Inr b)"
    and out: "out = a @ b"
    by (auto simp: act_bind_Inr)
  show ?case using publish_residual_subset [OF 1(1)] Cons.IH [OF 1(2)] out by auto
qed simp

lemma public_residual_cell_of:
  assumes "public_residual_capacity U gs now s = (s', Inr out)" "\<forall>g \<in> set gs. cell_of t z g"
  shows "\<forall>g \<in> set out. cell_of t z g"
proof -
  obtain s1 rs s2 where "publish_residuals U (List.map (residual_aggregate rs) gs) s1 = (s2, Inr out)"
    using assms(1) unfolding public_residual_capacity_def
    by (auto elim!: transact_cases simp: act_bind_Inr act_then_eq)
  from publish_residuals_subset [OF this] show ?thesis using assms(2) by (auto simp: residual_cell_of)
qed

section \<open>Steps of the application\<close>

text \<open>
  One call, to its answer, or one change of the offers by a resource manager. The draws of
  identifiers and clocks are free.
\<close>

inductive api_step ::
    "(service_error \<Rightarrow> string) \<Rightarrow> ('s, 'b) app \<Rightarrow> 's api_state \<Rightarrow> 's api_state \<Rightarrow> bool"
  for render A where
  step_security: "api_step render A s (fst (serve render A c (get_security_status A c) s))"
| step_zones: "api_step render A s (fst (serve render A c (get_flexibility_zones A c t1 t2) s))"
| step_flexibility: "api_step render A s (fst (serve render A c (get_flexibility A c z a b clock) s))"
| step_create: "api_step render A s (fst (serve render A c (create_reservation A c key q rid cid now) s))"
| step_get: "api_step render A s (fst (serve render A c (get_reservation A c i now) s))"
| step_cancel: "api_step render A s (fst (serve render A c (cancel_reservation A c i t1 t2) s))"
| step_activate: "api_step render A s (fst (serve render A c (activate_reservation A c aid i t1 t2 t3) s))"
| step_activation: "api_step render A s (fst (serve render A c (get_activation_of A c aid now) s))"
| step_upsert: "offer_ok f \<Longrightarrow> api_step render A s (s\<lparr>as_store := fst (upsert f (as_store s))\<rparr>)"
| step_remove: "api_step render A s (s\<lparr>as_store := fst (remove_resource rid t (as_store s))\<rparr>)"

definition published_ok :: "policy \<Rightarrow> offer_store \<Rightarrow> bool" where
  "published_ok pol st \<longleftrightarrow> store_inv st \<and> sanitised pol st"

lemma published_ok_new: "new_store k = Inr st \<Longrightarrow> published_ok pol st"
  using store_inv_new [of k st]
  by (auto simp: published_ok_def sanitised_def new_store_def snapshots_inv_def split: if_splits)

lemma published_ok_step:
  assumes "published_ok pol st" "op_ok p" "\<And>t z e a b gs. p \<noteq> Op_publish t z e a b gs"
  shows "published_ok pol (store_step st p)"
  using assms store_step_inv store_step_snapshots sanitised_cong unfolding published_ok_def by metis

lemma published_ok_query: "published_ok pol st \<Longrightarrow> query z a b t now st = (st', out) \<Longrightarrow> published_ok pol st'"
  using published_ok_step [of pol st "Op_query z a b t now"] by simp

lemma published_ok_consume: "published_ok pol st \<Longrightarrow> consume_privacy_query t w l st = (st', ok) \<Longrightarrow> published_ok pol st'"
  using published_ok_step [of pol st "Op_consume t w l"] by simp

lemma published_ok_publish:
  assumes "published_ok pol st" "\<forall>g \<in> set gs. published_from pol t z e g"
    "publish_privacy_snapshot t z e a b gs st = (st', out)"
  shows "published_ok pol st'"
    "\<forall>g \<in> set out. published_from pol t z e g \<and> a \<le> g_interval_start g \<and> g_interval_end g \<le> b"
  using publish_sanitised [OF _ assms(2,3)] assms(1,3) store_inv_cong [OF publish_frame(1-4), of t z e a b gs st]
  by (simp_all add: published_ok_def)

lemma keeps_consume:
  "keeps (published_ok pol) (\<lambda>epoch. publication_epoch (ap_policy A) (Aware now 0) = Inr epoch)
     (consume_privacy_budget A p now)"
  unfolding consume_privacy_budget_def
proof (rule keeps_bind [OF keeps_lift])
  fix epoch assume e: "publication_epoch (ap_policy A) (Aware now 0) = Inr epoch"
  have ok: "published_ok pol (fst (consume_privacy_query t w l st))" if "published_ok pol st" for t w l st
    using published_ok_consume [OF that surjective_pairing] .
  show "keeps (published_ok pol) (\<lambda>epoch. publication_epoch (ap_policy A) (Aware now 0) = Inr epoch)
      (act_bind (on_store Aggregate_error (\<lambda>st. case consume_privacy_query (ap_tenant_id p) epoch
           (pp_queries_per_interval (ap_policy A)) st of (st', ok) \<Rightarrow> (st', Inr ok))) (\<lambda>ok.
         if ok then act_return epoch else act_raise Budget_exceeded))"
    by (rule keeps_bind [OF keeps_store [where R = "\<lambda>_. True"]])
      (auto simp: keeps_def e split: prod.splits dest: published_ok_consume)
qed

definition authorised :: "('s, 'b) app \<Rightarrow> string \<Rightarrow> call \<Rightarrow> principal \<Rightarrow> bool" where
  "authorised A scope c p \<longleftrightarrow> authenticate (ap_jwt A) (ap_authenticator A) (cl_credentials c) = Inr p \<and>
     (''*'' \<in> ap_scopes p \<or> scope \<in> ap_scopes p)"

lemma check_access_authorised: "check_access A scope c = Inr p \<Longrightarrow> authorised A scope c p"
  by (auto simp: check_access_def authorised_def access_Inr bind_res_def split: if_splits sum.splits)

definition may_see :: "principal \<Rightarrow> string \<Rightarrow> bool" where
  "may_see p z \<longleftrightarrow> ''*'' \<in> ap_zone_ids p \<or> z \<in> ap_zone_ids p"

definition publication ::
    "('s, 'b) app \<Rightarrow> call \<Rightarrow> string \<Rightarrow> datetime \<Rightarrow> datetime \<Rightarrow> instant \<Rightarrow> aggregate list \<Rightarrow> bool" where
  "publication A c z start finish now gs \<longleftrightarrow>
     (\<exists>p epoch. authorised A ''flexibility:read'' c p \<and> may_see p z \<and>
        validate_window (ap_policy A) start finish = Inr () \<and>
        publication_epoch (ap_policy A) (Aware now 0) = Inr epoch \<and>
        (\<forall>g \<in> set gs. published_from (ap_policy A) (ap_tenant_id p) z epoch g \<and>
           instant_of start \<le> g_interval_start g \<and> g_interval_end g \<le> instant_of finish))"

lemma keeps_publish:
  assumes "authorised A ''flexibility:read'' c p" "may_see p z" "validate_window (ap_policy A) start finish = Inr ()"
    "publication_epoch (ap_policy A) (Aware now 0) = Inr epoch" "\<forall>g \<in> set gs. cell_of (ap_tenant_id p) z g"
  shows "keeps (published_ok (ap_policy A)) (publication A c z start finish now)
    (on_store Aggregate_error (\<lambda>st. case publish_privacy_snapshot (ap_tenant_id p) z epoch
       (instant_of start) (instant_of finish)
       (List.map (\<lambda>g. sanitize (ap_policy A) g epoch) (filter (eligible (ap_policy A)) gs)) st of (st', gs) \<Rightarrow> (st', Inr gs)))"
proof (rule keeps_store)
  fix st st' out assume st: "published_ok (ap_policy A) st"
    and run: "(case publish_privacy_snapshot (ap_tenant_id p) z epoch (instant_of start) (instant_of finish)
       (List.map (\<lambda>g. sanitize (ap_policy A) g epoch) (filter (eligible (ap_policy A)) gs)) st of (st', gs) \<Rightarrow> (st', Inr gs))
     = (st', out)"
  have from_residual: "\<forall>g \<in> set (List.map (\<lambda>g. sanitize (ap_policy A) g epoch) (filter (eligible (ap_policy A)) gs)).
      published_from (ap_policy A) (ap_tenant_id p) z epoch g"
  proof
    fix g assume "g \<in> set (List.map (\<lambda>g. sanitize (ap_policy A) g epoch) (filter (eligible (ap_policy A)) gs))"
    then obtain g0 where g0: "g0 \<in> set gs" "eligible (ap_policy A) g0" "g = sanitize (ap_policy A) g0 epoch" by auto
    moreover have "cell_of (ap_tenant_id p) z g"
      using assms(5) g0(1) unfolding g0(3) sanitize_cell_of by blast
    ultimately show "published_from (ap_policy A) (ap_tenant_id p) z epoch g"
      unfolding published_from_def cell_of_def by blast
  qed
  obtain v where v: "out = Inr v" and p: "publish_privacy_snapshot (ap_tenant_id p) z epoch (instant_of start) (instant_of finish)
       (List.map (\<lambda>g. sanitize (ap_policy A) g epoch) (filter (eligible (ap_policy A)) gs)) st = (st', v)"
    using run by (auto split: prod.splits)
  note res = published_ok_publish [OF st from_residual p]
  show "published_ok (ap_policy A) st' \<and> (\<forall>v. out = Inr v \<longrightarrow> publication A c z start finish now v)"
    using res assms(1-4) v unfolding publication_def by blast
qed

lemma keeps_flexibility:
  "keeps (published_ok (ap_policy A)) (publication A c z start finish (clock 0))
     (get_flexibility A c z start finish clock)"
  unfolding get_flexibility_def act_then_def guard_def Let_def
  apply (rule keeps_access, rule keeps_bind [where R = "\<lambda>_. True"], intro keep_rules TrueI)
  apply (rule keeps_bind [OF keeps_lift])
  apply (rule keeps_bind [where R = "\<lambda>_. True"], unfold check_window_def, intro keep_rules TrueI)
  apply (rule keeps_bind [OF keeps_lift])
  apply (rule keeps_bind [OF keeps_consume])
  apply (rule keeps_bind [OF keeps_store])
   apply (rule conjI, erule published_ok_query, assumption)
   apply (intro allI impI, rule query_cell_of, simp)
  apply (rule keeps_bind [OF keeps_service], erule public_residual_cell_of, assumption)
  apply (rule keeps_publish [OF check_access_authorised])
  apply (simp_all add: may_see_def access_Inr)
  done

lemma keeps_owned: "keeps Q (\<lambda>_. True) (owned_reservation A p i now)"
  unfolding owned_reservation_def guard_def act_then_def
  by (rule keeps_bind [OF keeps_service [where R = "\<lambda>_. True"] keeps_bind [OF keeps_lift keeps_bind [OF keeps_lift]]])
    (simp_all add: keeps_def)

lemma keeps_other:
  "keeps Q (\<lambda>_. True) (get_security_status A c)" "keeps Q (\<lambda>_. True) (get_reservation A c i now)"
  "keeps Q (\<lambda>_. True) (cancel_reservation A c i t1 t2)"
  "keeps Q (\<lambda>_. True) (activate_reservation A c aid i t1 t2 t3)"
  "keeps Q (\<lambda>_. True) (get_activation_of A c aid now)"
proof -
  show "keeps Q (\<lambda>_. True) (get_security_status A c)"
    unfolding get_security_status_def by (intro keep_rules TrueI)
  show "keeps Q (\<lambda>_. True) (get_reservation A c i now)"
    unfolding get_reservation_def by (rule keeps_access, rule keeps_owned)
  show "keeps Q (\<lambda>_. True) (cancel_reservation A c i t1 t2)"
    unfolding cancel_reservation_def
    by (rule keeps_access, rule keeps_bind [OF keeps_owned], rule keeps_service, rule TrueI)
  show "keeps Q (\<lambda>_. True) (activate_reservation A c aid i t1 t2 t3)"
    unfolding activate_reservation_def
    by (rule keeps_access, rule keeps_bind [OF keeps_owned], rule keeps_world, rule TrueI)
  show "keeps Q (\<lambda>_. True) (get_activation_of A c aid now)"
    unfolding get_activation_of_def
    by (rule keeps_access, rule keeps_bind [OF keeps_service [where R = "\<lambda>_. True"] keeps_bind [OF keeps_owned keeps_plain(1)]])
      simp_all
qed

lemma keeps_create: "keeps Q (\<lambda>_. True) (create_reservation A c key q rid cid now)"
  unfolding create_reservation_def act_then_def guard_def
  apply (rule keeps_access, rule keeps_bind [where R = "\<lambda>_. True"], intro keep_rules TrueI)
  apply (rule keeps_bind [OF keeps_lift keeps_bind [OF keeps_plain(4) keeps_service]])
   apply (rule TrueI)+
  done

lemma keeps_zones: "keeps (published_ok pol) (\<lambda>_. True) (get_flexibility_zones A c t1 t2)"
  unfolding get_flexibility_zones_def
  by (rule keeps_access, rule keeps_bind [OF keeps_consume keeps_plain(4)], rule TrueI)

lemma keeps_served:
  "keeps Q R h \<Longrightarrow> Q (as_store s) \<Longrightarrow> Q (as_store (fst (serve render A c h s)))"
  unfolding serve_store by (simp add: keeps_def)

lemma api_step_published:
  assumes "api_step render A s s'" "published_ok (ap_policy A) (as_store s)"
  shows "published_ok (ap_policy A) (as_store s')"
  using assms
proof cases
  case (step_upsert f)
  then show ?thesis using published_ok_step [OF assms(2), of "Op_upsert f"] by simp
next
  case (step_remove rid t)
  then show ?thesis using published_ok_step [OF assms(2), of "Op_remove rid t"] by simp
qed (simp_all add: keeps_served [OF keeps_other(1)] keeps_served [OF keeps_other(2)] keeps_served [OF keeps_other(3)]
    keeps_served [OF keeps_other(4)] keeps_served [OF keeps_other(5)] keeps_served [OF keeps_create]
    keeps_served [OF keeps_zones] keeps_served [OF keeps_flexibility])

lemma api_run_published:
  assumes "(api_step render A)\<^sup>*\<^sup>* s s'" "published_ok (ap_policy A) (as_store s)"
  shows "published_ok (ap_policy A) (as_store s')"
  using assms by induction (auto intro: api_step_published)

text \<open>
  C33 published_only_sanitised. Whatever calls and offers came before, the flexibility endpoint
  answers only an authenticated caller with the scope and the zone, for a valid window, and every
  aggregate it returns is the sanitised form, stamped with the current publication epoch, of an
  aggregate with at least the policy's minimum of participants, of the caller's own tenant, in
  the requested zone and window.
\<close>

theorem published_only_sanitised:
  assumes "new_store k = Inr (as_store s0)" and "(api_step render A)\<^sup>*\<^sup>* s0 s"
    and "get_flexibility A c z start finish clock s = (s', Inr gs)"
  shows "\<exists>p epoch. authorised A ''flexibility:read'' c p \<and> may_see p z \<and>
    validate_window (ap_policy A) start finish = Inr () \<and>
    publication_epoch (ap_policy A) (Aware (clock 0) 0) = Inr epoch \<and>
    (\<forall>g \<in> set gs. g_tenant_id g = ap_tenant_id p \<and> g_zone_id g = z \<and>
       instant_of start \<le> g_interval_start g \<and> g_interval_end g \<le> instant_of finish \<and>
       (\<exists>g0. pp_minimum_participants (ap_policy A) \<le> g_participant_count g0 \<and> g = sanitize (ap_policy A) g0 epoch))"
proof -
  have "published_ok (ap_policy A) (as_store s)"
    by (rule api_run_published [OF assms(2) published_ok_new [OF assms(1)]])
  from keepsD(2) [OF keeps_flexibility this assms(3)] have "publication A c z start finish (clock 0) gs" by simp
  then show ?thesis unfolding publication_def published_from_def eligible_def by blast
qed

section \<open>Isolation of tenants\<close>

definition expired :: "instant \<Rightarrow> mem_backend api_state \<Rightarrow> mem_backend api_state" where
  "expired now s = s\<lparr>as_world := (as_world s)\<lparr>w_backend := mem_expire now (w_backend (as_world s))\<rparr>\<rparr>"

text \<open>The state is untouched, up to the expiry of overdue reservations, and the caller is refused.\<close>

definition refused :: "instant \<Rightarrow> mem_backend api_state \<Rightarrow> mem_backend api_state \<times> (api_error + 'a) \<Rightarrow> bool" where
  "refused now s res \<longleftrightarrow> (fst res = s \<or> fst res = expired now s) \<and> (\<exists>e. snd res = Inl (Auth e))"

definition stored_at :: "instant \<Rightarrow> mem_backend api_state \<Rightarrow> uuid \<Rightarrow> reservation option" where
  "stored_at now s i = mem_get_reservation i (mem_expire now (w_backend (as_world s)))"

lemma get_found:
  "stored_at now s i = Some r \<Longrightarrow> on_service (get_reservation_at mem_uow i now) s = (expired now s, Inr r)"
  by (simp add: on_service_def get_reservation_at_def transact_def act_then_def act_bind_def find_reservation_def
      stored_at_def expired_def)

lemma get_missing:
  "stored_at now s i = None \<Longrightarrow>
     on_service (get_reservation_at mem_uow i now) s = (expired now s, Inl (Service ReservationNotFound))"
  by (simp add: on_service_def get_reservation_at_def transact_def act_then_def act_bind_def find_reservation_def
      stored_at_def expired_def)

definition foreign :: "principal \<Rightarrow> reservation \<Rightarrow> bool" where
  "foreign p r \<longleftrightarrow> ap_tenant_id p \<noteq> r_tenant_id r \<or> \<not> may_see p (r_zone_id r)"

lemma owned_foreign:
  assumes "ap_uow A = mem_uow" "stored_at now s i = Some r" "foreign p r"
  shows "owned_reservation A p i now s = (expired now s, Inl (Auth (AuthorizationError ''tenant_boundary'')))"
proof (cases "ap_tenant_id p = r_tenant_id r")
  case True
  then have "require_zone p (r_zone_id r) = Inl (AuthorizationError ''tenant_boundary'')"
    "require_tenant p (r_tenant_id r) = Inr ()"
    using assms(3) by (simp_all add: foreign_def may_see_def require_zone_def require_tenant_def)
  then show ?thesis
    unfolding owned_reservation_def assms(1)
    by (simp add: get_found [OF assms(2)] act_then_eq guard_def)
next
  case False
  then have "require_tenant p (r_tenant_id r) = Inl (AuthorizationError ''tenant_boundary'')"
    by (simp add: require_tenant_def)
  then show ?thesis
    unfolding owned_reservation_def assms(1)
    by (simp add: get_found [OF assms(2)] act_then_eq guard_def)
qed

lemma access_refused:
  assumes who: "authenticate (ap_jwt A) (ap_authenticator A) (cl_credentials c) = Inr p"
    and h: "refused now s (h p s)"
  shows "refused now s (with_access A scope c h s)"
proof (cases "check_access A scope c")
  case (Inl e)
  then show ?thesis by (simp add: with_access_def refused_def)
next
  case (Inr p')
  then have "p' = p" using check_access_authorised [OF Inr] who by (simp add: authorised_def)
  then show ?thesis using h Inr by (simp add: with_access_def)
qed

text \<open>
  C32 reservation_tenant_isolation. A caller whose tenant or zones do not cover a stored reservation
  can neither read, cancel nor activate it, nor read its activation: every such call is refused as
  an authorisation failure and changes nothing but expiring overdue reservations.
\<close>

theorem reservation_tenant_isolation:
  assumes "ap_uow A = mem_uow"
    and "authenticate (ap_jwt A) (ap_authenticator A) (cl_credentials c) = Inr p"
    and "stored_at now s i = Some r" and "foreign p r"
  shows "refused now s (get_reservation A c i now s) \<and> refused now s (cancel_reservation A c i now t s) \<and>
    refused now s (activate_reservation A c aid i now t t' s) \<and>
    (\<forall>xid a. mem_get_activation xid (w_backend (as_world s)) = Some a \<and> ac_reservation_id a = i \<longrightarrow>
       refused now s (get_activation_of A c xid now s))"
proof (intro conjI allI impI)
  note o = owned_foreign [OF assms(1,3,4)] and access = access_refused [OF assms(2)]
  show "refused now s (get_reservation A c i now s)"
    unfolding get_reservation_def by (rule access) (simp add: o refused_def)
  show "refused now s (cancel_reservation A c i now t s)"
    unfolding cancel_reservation_def by (rule access) (simp add: o refused_def)
  show "refused now s (activate_reservation A c aid i now t t' s)"
    unfolding activate_reservation_def by (rule access) (simp add: o refused_def)
  fix xid a assume a: "mem_get_activation xid (w_backend (as_world s)) = Some a \<and> ac_reservation_id a = i"
  then have "on_service (get_activation mem_uow xid) s = (s, Inr a)"
    by (simp add: on_service_def get_activation_def transact_def)
  then show "refused now s (get_activation_of A c xid now s)"
    unfolding get_activation_of_def using a assms(1) by (intro access) (simp add: o refused_def)
qed

text \<open>
  C34 foreign_reservation_distinguishable. The refusal does not hide a foreign reservation: a caller
  with the read scope gets one 404 body for a reservation of another tenant and a different one
  for an identifier that does not exist, so the answer tells which identifiers are in use.
\<close>

theorem foreign_reservation_distinguishable:
  assumes "ap_uow A = mem_uow" and "check_access A ''reservation:read'' c = Inr p"
    and "stored_at now s i = Some r" and "foreign p r" and "stored_at now s j = None"
  shows "\<exists>u v. snd (serve render A c (get_reservation A c i now) s) = Inl u \<and>
    snd (serve render A c (get_reservation A c j now) s) = Inl v \<and>
    an_status u = 404 \<and> an_status v = 404 \<and> an_body u = Detail ''not found'' \<and>
    an_body v = Problem_json ''Not found'' (render ReservationNotFound) \<and> an_body u \<noteq> an_body v"
proof -
  have "get_reservation A c i now s = (expired now s, Inl (Auth (AuthorizationError ''tenant_boundary'')))"
    by (simp add: get_reservation_def with_access_def assms(2) owned_foreign [OF assms(1,3,4)])
  moreover have "get_reservation A c j now s = (expired now s, Inl (Service ReservationNotFound))"
    by (simp add: get_reservation_def with_access_def assms(1,2) owned_reservation_def get_missing [OF assms(5)])
  ultimately show ?thesis
    by (simp add: serve_def answer_error_def answer_service_error_def plain_def problem_def)
qed

section \<open>Examples\<close>

definition ex_caller :: "string \<Rightarrow> principal" where
  "ex_caller tenant_id = \<lparr> ap_subject = ''s'', ap_tenant_id = tenant_id, ap_scopes = {''*''}, ap_zone_ids = {''Z''} \<rparr>"

definition ex_policy :: policy where
  "ex_policy = default_policy\<lparr>pp_minimum_participants := 2, pp_participant_bucket_size := 1\<rparr>"

definition ex_app :: "(mem_backend, string) app" where
  "ex_app = \<lparr> ap_uow = mem_uow,
     ap_collaborators = \<lparr> c_dispatcher = \<lparr> wc_encode = (\<lambda>p. ''b''), wc_hmac = (\<lambda>b. ''h''), wc_max_attempts = 1,
         wc_sender = (\<lambda>n u b h. Status 200) \<rparr>,
       c_acceptor = (\<lambda>n rid i. Accepted), c_parses = (\<lambda>i. True), c_ids = (\<lambda>n. (1, 2, 3)) \<rparr>,
     ap_fingerprint = ex_fp, ap_policy = ex_policy, ap_jwt = (\<lambda>c t. Jwt_failure),
     ap_authenticator = Static [(''t'', ex_caller ''T''), (''u'', ex_caller ''U'')], ap_ip6 = (\<lambda>h. None) \<rparr>"

definition ex_call :: "string \<Rightarrow> call" where
  "ex_call token = \<lparr> cl_method = ''GET'', cl_route = ''/'', cl_authorization = Some (''Bearer '' @ token),
     cl_credentials = Some token \<rparr>"

definition ex_api :: "offer_store \<Rightarrow> mem_backend \<Rightarrow> mem_backend api_state" where
  "ex_api st b = \<lparr> as_store = st, as_world = ex_world b, as_audit = [] \<rparr>"

definition ex_booked_api :: "mem_backend api_state" where
  "ex_booked_api = ex_api ex_store (mem_new\<lparr>mb_reservations := [(1, ex_reservation)]\<rparr>)"

theorem reservation_tenant_isolation_witness:
  "refused (- 1) ex_booked_api (cancel_reservation ex_app (ex_call ''u'') 1 (- 1) 0 ex_booked_api)"
proof -
  have who: "authenticate (ap_jwt ex_app) (ap_authenticator ex_app) (cl_credentials (ex_call ''u'')) = Inr (ex_caller ''U'')"
    by code_simp
  have "stored_at (- 1) ex_booked_api 1 = Some ex_reservation" by code_simp
  moreover have "foreign (ex_caller ''U'') ex_reservation" by code_simp
  moreover have "ap_uow ex_app = mem_uow" by (simp add: ex_app_def)
  ultimately show ?thesis using reservation_tenant_isolation [OF _ who] by blast
qed

theorem foreign_reservation_distinguishable_witness:
  "\<exists>u v. snd (serve (\<lambda>e. ''gone'') ex_app (ex_call ''u'') (get_reservation ex_app (ex_call ''u'') 1 (- 1)) ex_booked_api) = Inl u \<and>
     snd (serve (\<lambda>e. ''gone'') ex_app (ex_call ''u'') (get_reservation ex_app (ex_call ''u'') 8 (- 1)) ex_booked_api) = Inl v \<and>
     an_body u \<noteq> an_body v"
proof -
  have who: "check_access ex_app ''reservation:read'' (ex_call ''u'') = Inr (ex_caller ''U'')"
    by code_simp
  have "stored_at (- 1) ex_booked_api 1 = Some ex_reservation" "stored_at (- 1) ex_booked_api 8 = None" by code_simp+
  moreover have "foreign (ex_caller ''U'') ex_reservation" by code_simp
  moreover have "ap_uow ex_app = mem_uow" by (simp add: ex_app_def)
  ultimately show ?thesis using foreign_reservation_distinguishable [OF _ who, of "- 1" ex_booked_api 1 _ 8 "\<lambda>e. ''gone''"] by blast
qed

definition ex_empty_api :: "mem_backend api_state" where
  "ex_empty_api = ex_api ex_store mem_new"

definition ex_first_offer :: "mem_backend api_state" where
  "ex_first_offer = ex_empty_api\<lparr>as_store := fst (upsert (ex_offer ''a'' 1) (as_store ex_empty_api))\<rparr>"

definition ex_second_offer :: "mem_backend api_state" where
  "ex_second_offer = ex_first_offer\<lparr>as_store := fst (upsert (ex_offer ''b'' 1) (as_store ex_first_offer))\<rparr>"

text \<open>The publication of the cell of \<open>ex_store2\<close>, step by step.\<close>

definition ex_consumed :: offer_store where
  "ex_consumed = fst (consume_privacy_query ''T'' 0 60 (as_store ex_second_offer))"

definition ex_queried :: "offer_store \<times> (model_error + aggregate list)" where
  "ex_queried = query ''Z'' 0 (minutes 60) ''T'' 0 ex_consumed"

definition ex_residual :: aggregate where
  "ex_residual = residual_aggregate [] (hd (projr (snd ex_queried)))"

definition ex_snapshots :: "offer_store \<times> aggregate list" where
  "ex_snapshots = publish_privacy_snapshot ''T'' ''Z'' 0 0 (minutes 60) [sanitize ex_policy ex_residual 0] (fst ex_queried)"

definition ex_residual_backend :: mem_backend where
  "ex_residual_backend = fst (publish_residual mem_uow ex_residual mem_new)"

lemma publish_single:
  "privacy_snapshots st = [] \<Longrightarrow> a \<le> g_interval_start g \<Longrightarrow> g_interval_end g \<le> b \<Longrightarrow>
     snd (publish_privacy_snapshot t z e a b [g] st) \<noteq> []"
  by (simp add: publish_privacy_snapshot_def Let_def dict_setdefault_def snapshot_matches_def snapshot_key_def dict_values_def dict_set_new dict_get_def)

lemma ex_queried_one: "ex_queried = (fst ex_queried, Inr [hd (projr (snd ex_queried))])"
proof -
  have "is_ok (snd ex_queried) \<and> length (projr (snd ex_queried)) = 1" by code_simp
  then show ?thesis using pair_Inr [of ex_queried]
    by (cases "projr (snd ex_queried)") auto
qed

lemma ex_published_residual:
  "public_residual_capacity mem_uow [hd (projr (snd ex_queried))] 0 mem_new = (ex_residual_backend, Inr [ex_residual])"
proof -
  have "mem_expire 0 mem_new = mem_new" "mem_active_reservations mem_new = []" by code_simp+
  then show ?thesis
    by (simp add: public_residual_capacity_def transact_def act_then_eq act_bind_def ex_residual_def [symmetric]
        ex_residual_backend_def publish_residual_def Let_def mem_published_residual_def mem_new_def
        mem_public_cell_is_suppressed_def act_write_def mem_set_published_residual_def)
qed

lemma ex_steps: "(api_step (\<lambda>e. ''gone'') ex_app)\<^sup>*\<^sup>* ex_empty_api ex_second_offer"
proof -
  have ok: "offer_ok (ex_offer ''a'' 1)" "offer_ok (ex_offer ''b'' 1)" by code_simp+
  have "api_step (\<lambda>e. ''gone'') ex_app ex_empty_api ex_first_offer"
    unfolding ex_first_offer_def by (rule step_upsert [OF ok(1)])
  moreover have "api_step (\<lambda>e. ''gone'') ex_app ex_first_offer ex_second_offer"
    unfolding ex_second_offer_def by (rule step_upsert [OF ok(2)])
  ultimately show ?thesis by (rule converse_rtranclp_into_rtranclp [OF _ r_into_rtranclp])
qed

lemma ex_flexibility:
  "snd (get_flexibility ex_app (ex_call ''t'') ''Z'' (Aware 0 0) (Aware (minutes 60) 0) (\<lambda>n. 0) ex_second_offer)
     = Inr (snd ex_snapshots)"
proof -
  have access: "check_access ex_app ''flexibility:read'' (ex_call ''t'') = Inr (ex_caller ''T'')"
    "require_zone (ex_caller ''T'') ''Z'' = Inr ()" "ap_tenant_id (ex_caller ''T'') = ''T''"
    by code_simp+
  have window: "validate_window ex_policy (Aware 0 0) (Aware (minutes 60) 0) = Inr ()"
    "publication_epoch ex_policy (Aware 0 0) = Inr 0" "instant_of (Aware 0 0) = 0"
    "instant_of (Aware (minutes 60) 0) = minutes 60" "tz_aware (Aware 0 0)" "tz_aware (Aware (minutes 60) 0)" "\<not> minutes 60 \<le> 0"
    by code_simp+
  have consumed: "consume_privacy_query ''T'' 0 60 (as_store ex_second_offer) = (ex_consumed, True)"
  proof -
    have "snd (consume_privacy_query ''T'' 0 60 (as_store ex_second_offer))" by code_simp
    then show ?thesis unfolding ex_consumed_def by (metis prod.collapse)
  qed
  have "pp_minimum_participants ex_policy \<le> g_participant_count (hd (projr (snd ex_queried)))" by code_simp
  then have eligible: "eligible ex_policy ex_residual" by (simp add: eligible_def ex_residual_def residual_fields)
  have app: "ap_uow ex_app = mem_uow" "ap_policy ex_app = ex_policy" "pp_queries_per_interval ex_policy = 60"
    by (simp_all add: ex_app_def ex_policy_def default_policy_def)
  have state: "w_backend (as_world ex_second_offer) = mem_new"
    by (simp add: ex_second_offer_def ex_first_offer_def ex_empty_api_def ex_api_def ex_world_def)
  define q where "q = hd (projr (snd ex_queried))"
  have "ex_queried = (fst ex_queried, Inr [q])" unfolding q_def by (rule ex_queried_one)
  then have query: "query ''Z'' 0 (minutes 60) ''T'' 0 ex_consumed = (fst ex_queried, Inr [q])"
    by (simp only: ex_queried_def)
  let ?s1 = "ex_second_offer\<lparr>as_store := ex_consumed\<rparr>"
  let ?s2 = "ex_second_offer\<lparr>as_store := fst ex_queried\<rparr>"
  let ?s3 = "?s2\<lparr>as_world := (as_world ex_second_offer)\<lparr>w_backend := ex_residual_backend\<rparr>\<rparr>"
  have "consume_privacy_budget ex_app (ex_caller ''T'') 0 ex_second_offer = (?s1, Inr 0)"
    by (simp add: consume_privacy_budget_def window app access act_bind_def on_store_def consumed)
  moreover have "on_store Aggregate_error (query ''Z'' 0 (minutes 60) ''T'' 0) ?s1 = (?s2, Inr [q])"
    by (simp add: on_store_def query)
  moreover have "on_service (public_residual_capacity mem_uow [q] 0) ?s2 = (?s3, Inr [ex_residual])"
    using ex_published_residual by (simp add: on_service_def state q_def)
  moreover have "snd (on_store Aggregate_error (\<lambda>st. case publish_privacy_snapshot ''T'' ''Z'' 0 0 (minutes 60)
      [sanitize ex_policy ex_residual 0] st of (st', gs) \<Rightarrow> (st', Inr gs)) ?s3) = Inr (snd ex_snapshots)"
    by (simp add: on_store_def ex_snapshots_def split: prod.splits)
  ultimately show ?thesis
    by (simp add: get_flexibility_def with_access_def access act_then_eq guard_def check_window_def window app
        eligible Let_def)
qed

theorem published_only_sanitised_witness:
  "\<exists>p epoch. authorised ex_app ''flexibility:read'' (ex_call ''t'') p \<and>
     (\<exists>g0. 2 \<le> g_participant_count g0 \<and> hd (snd ex_snapshots) = sanitize ex_policy g0 epoch)"
proof -
  let ?run = "get_flexibility ex_app (ex_call ''t'') ''Z'' (Aware 0 0) (Aware (minutes 60) 0) (\<lambda>n. 0) ex_second_offer"
  have new: "new_store 2 = Inr (as_store ex_empty_api)" by (simp add: ex_empty_api_def ex_api_def new_store_def ex_store_def)
  have run: "?run = (fst ?run, Inr (snd ex_snapshots))" by (rule prod_eqI) (simp_all add: ex_flexibility)
  have "privacy_snapshots (as_store ex_second_offer) = []" by code_simp
  then have "privacy_snapshots (fst ex_queried) = []"
    using query_frame(6) [OF surjective_pairing, of "''Z''" 0 "minutes 60" "''T''" 0 ex_consumed]
    by (simp add: ex_queried_def ex_consumed_def consume_frame)
  moreover have "0 \<le> g_interval_start ex_residual \<and> g_interval_end ex_residual \<le> minutes 60"
    using query_published_window [of "''Z''" 0 "minutes 60" "''T''" 0 ex_consumed "fst ex_queried" "[hd (projr (snd ex_queried))]"]
      ex_queried_one by (simp add: ex_residual_def residual_fields flip: ex_queried_def)
  ultimately have "snd ex_snapshots \<noteq> []" unfolding ex_snapshots_def by (intro publish_single) (simp_all add: sanitize_def Let_def)
  then have "hd (snd ex_snapshots) \<in> set (snd ex_snapshots)" by simp
  moreover have "ap_policy ex_app = ex_policy" "pp_minimum_participants ex_policy = 2"
    by (simp_all add: ex_app_def ex_policy_def)
  ultimately show ?thesis using published_only_sanitised [OF new ex_steps run] by fastforce
qed

end
