(* ===== verification/Locking.thy ===== *)
theory Locking
  imports ReservationService Text
begin

text \<open>
  The lock identity of a reservable product, \<open>locking.py\<close>, with the \<open>datetime.isoformat()\<close> text it
  is made of, and the locks the reservation service takes by it.
\<close>

section \<open>ISO 8601 text\<close>

definition zero_pad :: "nat \<Rightarrow> int \<Rightarrow> string" where
  "zero_pad width n = pad_zeros width (str_of_nat (nat n))"

text \<open>The proleptic Gregorian date of a number of days since 1970-01-01, from the 400-year era on.\<close>

definition civil_date :: "int \<Rightarrow> int \<times> int \<times> int" where
  "civil_date n =
     (let z = n + 719468; era = z div 146097; doe = z mod 146097;
          yoe = (doe - doe div 1460 + doe div 36524 - doe div 146096) div 365;
          doy = doe - (365 * yoe + yoe div 4 - yoe div 100);
          mp = (5 * doy + 2) div 153;
          month = (if mp < 10 then mp + 3 else mp - 9)
      in (yoe + era * 400 + (if month \<le> 2 then 1 else 0), month, doy - (153 * mp + 2) div 5 + 1))"

definition iso_date :: "int \<Rightarrow> string" where
  "iso_date n = (case civil_date n of (y, m, d) \<Rightarrow>
     zero_pad 4 y @ ''-'' @ zero_pad 2 m @ ''-'' @ zero_pad 2 d)"

text \<open>A time of day or an offset below one day, its microseconds printed only when there are any.\<close>

definition iso_micro :: "int \<Rightarrow> string" where
  "iso_micro us = (if us = 0 then [] else ''.'' @ zero_pad 6 us)"

definition iso_time :: "int \<Rightarrow> string" where
  "iso_time us = zero_pad 2 (us div minutes 60) @ '':'' @ zero_pad 2 (us div minutes 1 mod 60) @ '':''
     @ zero_pad 2 (us div seconds 1 mod 60) @ iso_micro (us mod seconds 1)"

definition iso_offset :: "int \<Rightarrow> string" where
  "iso_offset off = (let a = \<bar>off\<bar> in (if off < 0 then ''-'' else ''+'') @ zero_pad 2 (a div minutes 60) @ '':''
     @ zero_pad 2 (a div minutes 1 mod 60)
     @ (if a mod minutes 1 = 0 then [] else '':'' @ zero_pad 2 (a div seconds 1 mod 60) @ iso_micro (a mod seconds 1)))"

definition iso_local :: "int \<Rightarrow> string" where
  "iso_local wall = iso_date (wall div days 1) @ ''T'' @ iso_time (wall mod days 1)"

definition isoformat :: "datetime \<Rightarrow> string" where
  "isoformat d = (case d of Naive wall \<Rightarrow> iso_local wall | Aware t off \<Rightarrow> iso_local (t + off) @ iso_offset off)"

section \<open>The lock identity\<close>

definition product_lock_key :: "string \<Rightarrow> datetime \<Rightarrow> datetime \<Rightarrow> consequence \<Rightarrow> direction \<Rightarrow> string" where
  "product_lock_key zone_id interval_start interval_end consequence_type direction =
     ''product:'' @ zone_id @ '':'' @ isoformat interval_start @ '':'' @ isoformat interval_end @ '':''
     @ consequence_str consequence_type @ '':'' @ direction_str direction"

text \<open>The locks \<open>ReservationService.create\<close> takes before it looks at the offers.\<close>

definition create_lock_keys :: "string \<Rightarrow> request \<Rightarrow> string list" where
  "create_lock_keys idempotency_key q =
     [''tenant:'' @ rq_tenant_id q @ '':'' @ product_lock_key (rq_zone_id q) (rq_interval_start q) (rq_interval_end q)
        (rq_consequence_type q) (rq_direction q),
      ''idempotency:'' @ tenant_key (rq_tenant_id q) idempotency_key]"

lemma iso_examples:
  "civil_date 20708 = (2026, 9, 12)" "civil_date 11016 = (2000, 2, 29)" "civil_date (- 1) = (1969, 12, 31)"
  "iso_date 20708 = ''2026-09-12''" "iso_time (minutes 195) = ''03:15:00''" "iso_offset (minutes 90) = ''+01:30''"
  by code_simp+

section \<open>The key depends on the offset\<close>

lemma read_pad_zeros [simp]: "read_digits (pad_zeros w s) = read_digits s"
proof -
  have "read_digits (replicate k (CHR ''0'') @ s) = read_digits s" for k
    by (induction k) (simp_all add: read_digits_def digit_value_def)
  then show ?thesis by (simp add: pad_zeros_def)
qed

lemma zero_pad_inject: "0 \<le> m \<Longrightarrow> 0 \<le> n \<Longrightarrow> zero_pad w m = zero_pad w n \<longleftrightarrow> m = n"
  by (metis int_nat_eq read_pad_zeros read_str_of_nat zero_pad_def)

lemma length_zero_pad: "0 \<le> n \<Longrightarrow> n < 100 \<Longrightarrow> length (zero_pad 2 n) = 2"
  using length_str_of_nat [of 2 "nat n"] by (simp add: zero_pad_def pad_zeros_def)

text \<open>A UTC offset of whole minutes.\<close>

definition minute_offset :: "int \<Rightarrow> bool" where
  "minute_offset off \<longleftrightarrow> off mod minutes 1 = 0 \<and> \<bar>off\<bar> < days 1"

lemma iso_offset_minutes:
  assumes "minute_offset off"
  shows "iso_offset off = (if off < 0 then CHR ''-'' else CHR ''+'') # zero_pad 2 (\<bar>off\<bar> div minutes 60) @ '':''
      @ zero_pad 2 (\<bar>off\<bar> div minutes 1 mod 60)"
    "length (zero_pad 2 (\<bar>off\<bar> div minutes 60)) = 2" "length (zero_pad 2 (\<bar>off\<bar> div minutes 1 mod 60)) = 2"
proof -
  have "\<bar>off\<bar> mod minutes 1 = 0" using assms by (simp add: minute_offset_def minutes_def) presburger
  then show "iso_offset off = (if off < 0 then CHR ''-'' else CHR ''+'') # zero_pad 2 (\<bar>off\<bar> div minutes 60) @ '':''
      @ zero_pad 2 (\<bar>off\<bar> div minutes 1 mod 60)"
    by (simp add: iso_offset_def Let_def)
  show "length (zero_pad 2 (\<bar>off\<bar> div minutes 60)) = 2"
    using assms zdiv_mono1 [of "\<bar>off\<bar>" "days 1" "minutes 60"]
    by (intro length_zero_pad) (simp_all add: minute_offset_def minutes_def days_def)
  show "length (zero_pad 2 (\<bar>off\<bar> div minutes 1 mod 60)) = 2"
    by (intro length_zero_pad) (simp_all add: minutes_def)
qed

lemma iso_offset_length: "minute_offset off \<Longrightarrow> length (iso_offset off) = 6"
  by (simp add: iso_offset_minutes)

lemma iso_offset_inject:
  assumes "minute_offset a" "minute_offset b" "iso_offset a = iso_offset b"
  shows "a = b"
proof -
  have sign: "a < 0 \<longleftrightarrow> b < 0" using assms(3) by (simp add: iso_offset_minutes assms(1,2) split: if_splits)
  have eq: "zero_pad 2 (\<bar>a\<bar> div minutes 60) = zero_pad 2 (\<bar>b\<bar> div minutes 60)"
    "zero_pad 2 (\<bar>a\<bar> div minutes 1 mod 60) = zero_pad 2 (\<bar>b\<bar> div minutes 1 mod 60)"
    using assms(3) iso_offset_minutes [OF assms(1)] iso_offset_minutes [OF assms(2)] by simp_all
  have "\<bar>a\<bar> div minutes 60 = \<bar>b\<bar> div minutes 60" "\<bar>a\<bar> div minutes 1 mod 60 = \<bar>b\<bar> div minutes 1 mod 60"
    using eq by (simp_all add: zero_pad_inject minutes_def pos_imp_zdiv_nonneg_iff)
  moreover have "\<bar>x\<bar> = minutes 60 * (\<bar>x\<bar> div minutes 60) + minutes 1 * (\<bar>x\<bar> div minutes 1 mod 60)"
    if "minute_offset x" for x
  proof -
    define k where "k = \<bar>x\<bar> div minutes 1"
    have "\<bar>x\<bar> mod minutes 1 = 0" using that by (simp add: minute_offset_def abs_if zmod_zminus1_eq_if)
    then have x: "\<bar>x\<bar> = minutes 1 * k" unfolding k_def by (metis add.right_neutral mult_div_mod_eq)
    have "\<bar>x\<bar> div minutes 60 = k div 60"
      unfolding x by (simp add: minutes_def)
    moreover have "minutes 60 = minutes 1 * 60" by (simp add: minutes_def)
    ultimately show ?thesis unfolding k_def [symmetric] x by (simp add: algebra_simps flip: distrib_left)
  qed
  ultimately have "\<bar>a\<bar> = \<bar>b\<bar>" using assms(1,2) by metis
  then show ?thesis using sign by linarith
qed

text \<open>
  C39 lock_key_depends_on_offset. The lock identity of a product is the text of its datetimes, not
  its instants: two requests for the same product and the same instants whose ends are written
  with different UTC offsets take different product locks.
\<close>

theorem lock_key_depends_on_offset:
  assumes "minute_offset a" and "minute_offset b" and "a \<noteq> b"
  shows "product_lock_key z (Aware s a) (Aware e a) c d \<noteq> product_lock_key z (Aware s b) (Aware e b) c d"
    (is "?x \<noteq> ?y")
proof
  assume "?x = ?y"
  then have "(isoformat (Aware s a) @ '':'' @ iso_local (e + a)) @ iso_offset a
      = (isoformat (Aware s b) @ '':'' @ iso_local (e + b)) @ iso_offset b"
    by (simp add: product_lock_key_def isoformat_def)
  moreover have "length (iso_offset a) = length (iso_offset b)" by (simp add: iso_offset_length assms(1,2))
  ultimately have "iso_offset a = iso_offset b" using append_eq_append_conv by blast
  then show False using iso_offset_inject [OF assms(1,2)] assms(3) by blast
qed

theorem lock_key_depends_on_offset_witness:
  "product_lock_key ''Z'' (Aware 0 0) (Aware (minutes 15) 0) DEFER UPWARD
     \<noteq> product_lock_key ''Z'' (Aware 0 (minutes 60)) (Aware (minutes 15) (minutes 60)) DEFER UPWARD"
  by (rule lock_key_depends_on_offset) (simp_all add: minute_offset_def minutes_def days_def)

end
