(* ===== verification/OpenADR.thy ===== *)
theory OpenADR
  imports ReservationProps Text Dispatch
begin

text \<open>
  The OpenADR adapter, \<open>adapters/openadr\<close>: the event and report documents, the duration grammar, and
  \<open>handle_event\<close>, which turns each interval of an event into a reservation and its activation through
  the reservation service, interval after interval, and reports them. A payload arrives as its
  parsed document; clock readings, random identifiers and the offers of the moment are drawn per
  interval.
\<close>

section \<open>Documents\<close>

datatype oa_value = Vfloat pyfloat | Vint int | Vstr string | Vbool bool

record values_map =
  vm_type :: string
  vm_values :: "oa_value list"

record interval_period =
  ip_start :: datetime
  ip_duration :: string

record event_interval =
  ei_id :: int
  ei_period :: "interval_period option"
  ei_payloads :: "values_map list"

record event_descriptor =
  ed_payload_type :: string
  ed_units :: "string option"

record openadr_event =
  oe_id :: string
  oe_program_id :: string
  oe_targets :: "string list"
  oe_period :: "interval_period option"
  oe_intervals :: "event_interval list"
  oe_descriptors :: "event_descriptor list"

definition zone_target :: "string \<Rightarrow> bool" where
  "zone_target target \<longleftrightarrow> take 3 target = ''ES-''"

text \<open>The validators: the type names of the payloads, and exactly one zone among the targets.\<close>

definition values_map_ok :: "values_map \<Rightarrow> bool" where
  "values_map_ok v \<longleftrightarrow> 1 \<le> length (vm_type v) \<and> length (vm_type v) \<le> 128"

definition event_ok :: "openadr_event \<Rightarrow> bool" where
  "event_ok e \<longleftrightarrow> (\<forall>i \<in> set (oe_intervals e). \<forall>v \<in> set (ei_payloads i). values_map_ok v) \<and>
     length (filter zone_target (oe_targets e)) = 1"

definition event_zone_id :: "openadr_event \<Rightarrow> string" where
  "event_zone_id e = hd (filter zone_target (oe_targets e))"

record report_descriptor =
  rd_payload_type :: string
  rd_units :: "string option"
  rd_confidence :: "int option"

record report_resource =
  rs_name :: string
  rs_period :: interval_period
  rs_intervals :: "event_interval list"

record openadr_report =
  rp_event_id :: string
  rp_client_name :: string
  rp_report_name :: string
  rp_descriptors :: "report_descriptor list"
  rp_resources :: "report_resource list"

section \<open>Durations\<close>

datatype openadr_error =
    Oa_validation
  | Oa_ValueError string
  | Oa_OverflowError
  | Oa_service service_error

text \<open>\<open>(?:(\d+)X)?\<close> at the start of a text: the digits, or nothing, and the rest.\<close>

definition duration_part :: "char \<Rightarrow> string \<Rightarrow> string option \<times> string" where
  "duration_part c s =
     (let digits = takeWhile is_digit s; rest = dropWhile is_digit s
      in if digits \<noteq> [] \<and> rest \<noteq> [] \<and> hd rest = c then (Some digits, tl rest) else (None, s))"

definition duration_fields :: "string \<Rightarrow> (string option \<times> string option \<times> string option) option" where
  "duration_fields s =
     (if take 2 s \<noteq> ''PT'' then None
      else case duration_part (CHR ''H'') (drop 2 s) of (h, s1) \<Rightarrow>
        case duration_part (CHR ''M'') s1 of (m, s2) \<Rightarrow>
          case duration_part (CHR ''S'') s2 of (sec, s3) \<Rightarrow> if s3 = [] then Some (h, m, sec) else None)"

text \<open>\<open>int(part or 0)\<close>; \<open>int\<close> refuses a text of more than 4300 digits.\<close>

definition int_max_str_digits :: nat where
  "int_max_str_digits = 4300"

definition int_part :: "string option \<Rightarrow> nat option" where
  "int_part part = (case part of None \<Rightarrow> Some 0
     | Some digits \<Rightarrow> if length digits > int_max_str_digits then None else Some (read_digits digits))"

definition parse_duration :: "string \<Rightarrow> openadr_error + int" where
  "parse_duration s =
     (case duration_fields s of
        None \<Rightarrow> Inl (Oa_ValueError ''unsupported ISO 8601 duration'')
      | Some (None, None, None) \<Rightarrow> Inl (Oa_ValueError ''unsupported ISO 8601 duration'')
      | Some (h, m, sec) \<Rightarrow>
          (case (int_part h, int_part m, int_part sec) of
             (Some hours, Some mins, Some secs) \<Rightarrow>
               let total = hours * 3600 + mins * 60 + secs
               in if \<not> (0 < total \<and> total \<le> 86400)
                  then Inl (Oa_ValueError ''OpenADR interval duration must be between one second and one day'')
                  else Inr (seconds (int total))
           | _ \<Rightarrow> Inl (Oa_ValueError ''Exceeds the limit for integer string conversion'')))"

text \<open>\<open>start + duration\<close>: the wall clock moves, and must stay before the year 10000.\<close>

definition datetime_limit :: int where
  "datetime_limit = seconds 253402300800"

definition add_duration :: "datetime \<Rightarrow> int \<Rightarrow> openadr_error + datetime" where
  "add_duration d duration = (case d of
     Aware t off \<Rightarrow> if t + off + duration \<ge> datetime_limit then Inl Oa_OverflowError else Inr (Aware (t + duration) off)
   | Naive w \<Rightarrow> if w + duration \<ge> datetime_limit then Inl Oa_OverflowError else Inr (Naive (w + duration)))"

section \<open>Dispatch values\<close>

definition payload_direction :: "string \<Rightarrow> direction option" where
  "payload_direction t = (if t = ''DER_FLEX_UPWARD_KW'' then Some UPWARD
     else if t = ''DER_FLEX_DOWNWARD_KW'' then Some DOWNWARD else None)"

text \<open>An integer as a float: refused beyond the largest one.\<close>

definition float_of_int :: "int \<Rightarrow> openadr_error + pyfloat" where
  "float_of_int n = (if \<bar>rnd64 (of_int n)\<bar> \<ge> 2 ^ 1024 then Inl Oa_OverflowError else Inr (Fin (rnd64 (of_int n))))"

definition dispatch_power :: "oa_value \<Rightarrow> openadr_error + pyfloat" where
  "dispatch_power v = (case v of
     Vbool _ \<Rightarrow> Inl (Oa_ValueError ''dispatch value must be numeric'')
   | Vstr _ \<Rightarrow> Inl (Oa_ValueError ''dispatch value must be numeric'')
   | Vint n \<Rightarrow> float_of_int n
   | Vfloat x \<Rightarrow> if \<not> isfinite x then Inl (Oa_ValueError ''dispatch value must be finite'') else Inr x)"

definition dispatch_of :: "event_interval \<Rightarrow> openadr_error + direction \<times> pyfloat" where
  "dispatch_of i =
     (case filter (\<lambda>v. payload_direction (vm_type v) \<noteq> None) (ei_payloads i) of
        [v] \<Rightarrow> (case vm_values v of
                  [x] \<Rightarrow> map_sum id (\<lambda>p. (the (payload_direction (vm_type v)), p)) (dispatch_power x)
                | _ \<Rightarrow> Inl (Oa_ValueError ''interval must contain exactly one DER Flex dispatch value''))
      | _ \<Rightarrow> Inl (Oa_ValueError ''interval must contain exactly one DER Flex dispatch value''))"

section \<open>Reports\<close>

record event_result =
  er_reservation :: reservation
  er_activation :: activation
  er_report :: openadr_report

definition iso_duration :: "int \<Rightarrow> string" where
  "iso_duration duration = ''PT'' @ str_of_int (py_int (total_seconds duration)) @ ''S''"

text \<open>The datetimes of a stored reservation are aware; \<open>off\<close> is the offset its start is written with.\<close>

definition build_report ::
    "(uuid \<Rightarrow> string) \<Rightarrow> string \<Rightarrow> int \<Rightarrow> openadr_event \<Rightarrow> int \<Rightarrow> reservation \<Rightarrow> activation \<Rightarrow> openadr_report" where
  "build_report uuid_str client_name off e interval_id r a =
     \<lparr> rp_event_id = oe_id e, rp_client_name = client_name,
       rp_report_name = ''DER Flex activation '' @ uuid_str (ac_activation_id a),
       rp_descriptors =
         [\<lparr> rd_payload_type = ''DER_FLEX_ACCEPTED_KW'', rd_units = Some ''KW'',
            rd_confidence = Some (if ac_status a = ACT_COMPLETED then 100 else 0) \<rparr>,
          \<lparr> rd_payload_type = ''DER_FLEX_ACTIVATION_STATUS'', rd_units = None, rd_confidence = None \<rparr>],
       rp_resources =
         [\<lparr> rs_name = ''aggregate:'' @ r_zone_id r,
            rs_period = \<lparr> ip_start = Aware (r_interval_start r) off,
              ip_duration = iso_duration (r_interval_end r - r_interval_start r) \<rparr>,
            rs_intervals =
              [\<lparr> ei_id = interval_id, ei_period = None,
                 ei_payloads =
                   [\<lparr> vm_type = ''DER_FLEX_ACCEPTED_KW'', vm_values = [Vfloat (Fin (r_allocated_power_kw r))] \<rparr>,
                    \<lparr> vm_type = ''DER_FLEX_ACTIVATION_STATUS'', vm_values = [Vstr (activation_status_str (ac_status a))] \<rparr>] \<rparr>] \<rparr>] \<rparr>"

section \<open>Handling an event\<close>

text \<open>What the handling of the \<open>n\<close>-th interval draws from outside.\<close>

record draws =
  dr_env :: "nat \<Rightarrow> service_env"
  dr_ids :: "nat \<Rightarrow> uuid \<times> uuid \<times> uuid"
  dr_clock :: "nat \<Rightarrow> instant \<times> instant \<times> instant"
  dr_offset :: "nat \<Rightarrow> int"

definition idempotency_key_of :: "openadr_event \<Rightarrow> int \<Rightarrow> string" where
  "idempotency_key_of e interval_id = ''openadr:'' @ oe_id e @ '':'' @ str_of_int interval_id"

definition event_request :: "openadr_event \<Rightarrow> datetime \<Rightarrow> datetime \<Rightarrow> direction \<Rightarrow> pyfloat \<Rightarrow> request" where
  "event_request e start finish d p = \<lparr> rq_tenant_id = ''development'', rq_zone_id = event_zone_id e,
     rq_interval_start = start, rq_interval_end = finish, rq_direction = d, rq_power_kw = p,
     rq_consequence_type = DEFER, rq_callback_url = None \<rparr>"

text \<open>One iteration up to the calls of the service: the request, or the refusal of the interval.\<close>

definition interval_request ::
    "openadr_event \<Rightarrow> int option \<Rightarrow> datetime option \<Rightarrow> event_interval \<Rightarrow> openadr_error + request" where
  "interval_request e default_duration cursor i =
     (let start = (case ei_period i of Some p \<Rightarrow> Some (ip_start p) | None \<Rightarrow> cursor) in
      bind_res (case ei_period i of Some p \<Rightarrow> map_sum id Some (parse_duration (ip_duration p)) | None \<Rightarrow> Inr default_duration)
        (\<lambda>duration. case (start, duration) of
           (Some s, Some d) \<Rightarrow>
             bind_res (dispatch_of i) (\<lambda>dp.
               bind_res (add_duration s d) (\<lambda>finish.
                 Inr (event_request e s finish (fst dp) (snd dp))))
         | _ \<Rightarrow> Inl (Oa_ValueError ''each interval needs an effective start and duration'')))"

definition oa_backend :: "('s, service_error, 'a) action \<Rightarrow> ('s world, openadr_error, 'a) action" where
  "oa_backend m w = (case m (w_backend w) of (s, r) \<Rightarrow> (w\<lparr>w_backend := s\<rparr>, map_sum Oa_service id r))"

definition oa_world :: "('s world, service_error, 'a) action \<Rightarrow> ('s world, openadr_error, 'a) action" where
  "oa_world m w = (case m w of (w', r) \<Rightarrow> (w', map_sum Oa_service id r))"

fun handle_intervals ::
    "'s uow \<Rightarrow> 'b collaborators \<Rightarrow> draws \<Rightarrow> (uuid \<Rightarrow> string) \<Rightarrow> string \<Rightarrow> openadr_event \<Rightarrow> int option \<Rightarrow> nat
     \<Rightarrow> datetime option \<Rightarrow> event_interval list \<Rightarrow> ('s world, openadr_error, event_result list) action" where
  "handle_intervals U C D ut cn e dd n cursor [] = act_return []"
| "handle_intervals U C D ut cn e dd n cursor (i # is) =
     act_bind (act_lift (interval_request e dd cursor i)) (\<lambda>q.
       act_bind (oa_backend (create U (dr_env D n) (fst (dr_ids D n)) (fst (snd (dr_ids D n)))
           (idempotency_key_of e (ei_id i)) q (fst (dr_clock D n)))) (\<lambda>r.
         act_bind (oa_world (activate U C (snd (snd (dr_ids D n))) (fst (snd (dr_clock D n))) (snd (snd (dr_clock D n)))
             (r_reservation_id r))) (\<lambda>a.
           act_bind (handle_intervals U C D ut cn e dd (Suc n) (Some (rq_interval_end q)) is) (\<lambda>results.
             act_return (\<lparr> er_reservation = r, er_activation = a,
               er_report = build_report ut cn (dr_offset D n) e (ei_id i) r a \<rparr> # results)))))"

definition handle_event ::
    "'s uow \<Rightarrow> 'b collaborators \<Rightarrow> draws \<Rightarrow> (uuid \<Rightarrow> string) \<Rightarrow> string \<Rightarrow> openadr_event
     \<Rightarrow> ('s world, openadr_error, event_result list) action" where
  "handle_event U C D ut cn e =
     (if \<not> event_ok e then act_raise Oa_validation
      else act_bind (act_lift (case oe_period e of
          None \<Rightarrow> Inr None | Some p \<Rightarrow> map_sum id Some (parse_duration (ip_duration p)))) (\<lambda>dd.
        handle_intervals U C D ut cn e dd 0 (map_option ip_start (oe_period e)) (oe_intervals e)))"

section \<open>Durations round trip\<close>

lemma duration_part_digits:
  "\<not> is_digit c \<Longrightarrow> duration_part c (str_of_nat n @ c # s) = (Some (str_of_nat n), s)"
proof -
  assume c: "\<not> is_digit c"
  have all: "\<And>x. x \<in> set (str_of_nat n) \<Longrightarrow> is_digit x" using str_of_nat_digits by blast
  have "takeWhile is_digit (str_of_nat n @ c # s) = str_of_nat n"
    using c all by (simp add: takeWhile_append2)
  moreover have "dropWhile is_digit (str_of_nat n @ c # s) = c # s"
    using c all by (simp add: dropWhile_append2)
  ultimately show ?thesis by (simp add: duration_part_def Let_def)
qed

lemma duration_part_other:
  "\<not> is_digit c \<Longrightarrow> c \<noteq> c' \<Longrightarrow> duration_part c' (str_of_nat n @ c # s) = (None, str_of_nat n @ c # s)"
proof -
  assume c: "\<not> is_digit c" "c \<noteq> c'"
  have all: "\<And>x. x \<in> set (str_of_nat n) \<Longrightarrow> is_digit x" using str_of_nat_digits by blast
  have "dropWhile is_digit (str_of_nat n @ c # s) = c # s" using c all by (simp add: dropWhile_append2)
  then show ?thesis using c(2) by (simp add: duration_part_def Let_def)
qed

lemma duration_part_nil [simp]: "duration_part c [] = (None, [])"
  by (simp add: duration_part_def Let_def)

lemma duration_letters: "\<not> is_digit (CHR ''H'')" "\<not> is_digit (CHR ''M'')" "\<not> is_digit (CHR ''S'')"
  by code_simp+

lemma int_part_nat: "n \<le> 86400 \<Longrightarrow> int_part (Some (str_of_nat n)) = Some n"
  using length_str_of_nat [of 5 n] by (simp add: int_part_def int_max_str_digits_def)

text \<open>Every way to write a duration parses to it.\<close>

lemma parse_duration_hms:
  assumes "0 < h * 3600 + m * 60 + s" "h * 3600 + m * 60 + s \<le> 86400"
  shows "parse_duration (''PT'' @ str_of_nat h @ ''H'' @ str_of_nat m @ ''M'' @ str_of_nat s @ ''S'')
    = Inr (seconds (int (h * 3600 + m * 60 + s)))"
  using assms
  by (simp add: parse_duration_def duration_fields_def duration_part_digits duration_letters int_part_nat Let_def)

lemma parse_duration_s:
  assumes "0 < n" "n \<le> 86400"
  shows "parse_duration (''PT'' @ str_of_nat n @ ''S'') = Inr (seconds (int n))"
proof -
  have "int_part None = Some 0" by (simp add: int_part_def)
  then show ?thesis using assms
    by (simp add: parse_duration_def duration_fields_def duration_part_digits duration_part_other duration_letters
        int_part_nat Let_def)
qed

lemma iso_duration_seconds:
  assumes "0 < n" "n \<le> 86400"
  shows "iso_duration (seconds n) = ''PT'' @ str_of_nat (nat n) @ ''S''"
proof -
  have "is_f64 (of_int n)" using assms by (intro is_f64_of_int) simp
  then have "total_seconds (seconds n) = of_int n"
    by (simp add: total_seconds_def fdiv_def seconds_def rnd64_exact)
  then show ?thesis using assms by (simp add: iso_duration_def py_int_def str_of_int_def)
qed

section \<open>Results\<close>

text \<open>An event that is handled gives one result per interval, in order.\<close>

lemma handle_intervals_results:
  "handle_intervals U C D ut cn e dd n cursor is w = (w', Inr results) \<Longrightarrow>
     List.map (\<lambda>x. ei_id (hd (rs_intervals (hd (rp_resources (er_report x)))))) results = List.map ei_id is"
proof (induction "is" arbitrary: n cursor w results)
  case (Cons i "is")
  then show ?case by (auto simp: act_bind_Inr build_report_def)
qed simp

text \<open>A handled event asked for each interval what \<open>interval_request\<close> says, the default start moving along.\<close>

lemma handle_intervals_requests:
  "handle_intervals U C D ut cn e dd n cursor (i # is) w = (w', Inr results) \<Longrightarrow>
     \<exists>q w1 more_results. interval_request e dd cursor i = Inr q \<and>
       handle_intervals U C D ut cn e dd (Suc n) (Some (rq_interval_end q)) is w1 = (w', Inr more_results) \<and>
       tl results = more_results"
  by (auto simp: act_bind_Inr)

section \<open>Idempotency keys\<close>

lemma str_of_int_no_colon: "CHR '':'' \<notin> set (str_of_int k)"
proof -
  have "\<not> is_digit (CHR '':'')" by code_simp
  then have "CHR '':'' \<notin> set (str_of_nat n)" for n using str_of_nat_digits by blast
  then show ?thesis by (simp add: str_of_int_def)
qed

lemma str_of_int_inject [simp]: "str_of_int j = str_of_int k \<longleftrightarrow> j = k"
proof -
  have "\<not> is_digit (CHR ''-'')" by code_simp
  then have "hd (str_of_nat n) \<noteq> CHR ''-''" for n
    using str_of_nat_digits [of n] by (metis hd_in_set str_of_nat_nonempty)
  then have "str_of_nat n \<noteq> CHR ''-'' # s" for n s by (metis list.sel(1))
  then show ?thesis by (auto simp: str_of_int_def dest: sym)
qed

text \<open>The keys of different intervals, of one event or of two, are different.\<close>

lemma idempotency_key_inject:
  "idempotency_key_of e j = idempotency_key_of e' k \<longleftrightarrow> oe_id e = oe_id e' \<and> j = k"
proof -
  have "takeWhile (\<lambda>c. c \<noteq> CHR '':'') (rev (xs @ '':'' @ str_of_int k)) = rev (str_of_int k)" for xs k
    using str_of_int_no_colon [of k] by (simp, subst takeWhile_append2) auto
  then have "xs @ '':'' @ str_of_int j = ys @ '':'' @ str_of_int k \<Longrightarrow> str_of_int j = str_of_int k" for xs ys
    by (metis rev_rev_ident)
  then show ?thesis by (auto simp: idempotency_key_of_def)
qed

text \<open>
  C38 openadr_report_roundtrip. The interval a report states is the reservation's, in the grammar the
  adapter reads: for a reservation of a whole number of seconds up to a day, every period of the
  report parses back to the reservation's start and, added to it, its end.
\<close>

theorem openadr_report_roundtrip:
  assumes "r_interval_end r - r_interval_start r = seconds n" and "0 < n" and "n \<le> 86400"
    and "rs \<in> set (rp_resources (build_report ut cn off e k r a))"
  shows "parse_duration (ip_duration (rs_period rs)) = Inr (r_interval_end r - r_interval_start r) \<and>
    instant_of (ip_start (rs_period rs)) = r_interval_start r \<and>
    (r_interval_end r + off < datetime_limit \<longrightarrow>
       add_duration (ip_start (rs_period rs)) (r_interval_end r - r_interval_start r) = Inr (Aware (r_interval_end r) off))"
proof -
  have "parse_duration (iso_duration (seconds n)) = Inr (seconds n)"
    unfolding iso_duration_seconds [OF assms(2,3)] using assms(2,3) by (subst parse_duration_s) auto
  then show ?thesis
    using assms(1,4) by (simp add: build_report_def instant_of_def add_duration_def algebra_simps)
qed

definition ex_event :: openadr_event where
  "ex_event = \<lparr> oe_id = ''e1'', oe_program_id = ''p'', oe_targets = [''ES-MA-29700''], oe_period = None,
     oe_intervals = [], oe_descriptors = [] \<rparr>"

definition ex_done :: activation where
  "ex_done = \<lparr> ac_activation_id = 1, ac_reservation_id = 1, ac_correlation_id = 2, ac_status = ACT_COMPLETED,
     ac_instruction_count = 1, ac_accepted_instruction_count = 1, ac_rejected_instruction_count = 0,
     ac_created_at = 0, ac_completed_at = Some 1 \<rparr>"

theorem openadr_report_roundtrip_witness:
  "parse_duration (ip_duration (rs_period (hd (rp_resources
      (build_report (\<lambda>i. ''1'') ''ven'' 0 ex_event 3 ex_reservation ex_done))))) = Inr (minutes 15)"
proof -
  have d: "r_interval_end ex_reservation - r_interval_start ex_reservation = seconds 900"
    by (simp add: ex_reservation_def minutes_def seconds_def)
  have m: "hd (rp_resources (build_report (\<lambda>i. ''1'') ''ven'' 0 ex_event 3 ex_reservation ex_done))
      \<in> set (rp_resources (build_report (\<lambda>i. ''1'') ''ven'' 0 ex_event 3 ex_reservation ex_done))"
    by (simp add: build_report_def)
  show ?thesis using openadr_report_roundtrip [OF d _ _ m] by (simp add: ex_reservation_def minutes_def)
qed

end
