(* ===== verification/Simulators.thy ===== *)
theory Simulators
  imports Locking Pebc
begin

text \<open>
  The device simulators of the demo, \<open>simulators/\<close>: the battery profile and its two variants, their
  operations, the S2 messages they emit, the demo fleet, its scenarios and its provisioning.
  Quantities are finite floats; \<open>uuid5\<close> stands for the text of \<open>uuid.uuid5(NAMESPACE_URL, name)\<close>.
\<close>

section \<open>BatterySimulator\<close>

record battery =
  b_class :: resource_type
  b_resource_id :: string
  b_zone_id :: string
  b_capacity_kwh :: rat
  b_state_of_charge :: rat
  b_power_kw :: rat
  b_max_charge_kw :: rat
  b_max_discharge_kw :: rat
  b_min_state_of_charge :: rat
  b_max_state_of_charge :: rat
  b_max_ramp_kw_per_min :: rat
  b_consequence_type :: consequence
  b_source_epoch :: int
  b_source_sequence :: int

definition within_limits :: "battery \<Rightarrow> rat \<Rightarrow> bool" where
  "within_limits b p \<longleftrightarrow> - b_max_discharge_kw b \<le> p \<and> p \<le> b_max_charge_kw b"

definition post_init :: "battery \<Rightarrow> string + battery" where
  "post_init b =
     (if b_capacity_kwh b \<le> 0 then Inl ''battery capacity must be positive''
      else if \<not> (0 \<le> b_state_of_charge b \<and> b_state_of_charge b \<le> 1)
        then Inl ''state of charge must be between zero and one''
      else if \<not> (0 \<le> b_min_state_of_charge b \<and> b_min_state_of_charge b < b_max_state_of_charge b \<and> b_max_state_of_charge b \<le> 1)
        then Inl ''operating state-of-charge limits are invalid''
      else if \<not> (b_min_state_of_charge b \<le> b_state_of_charge b \<and> b_state_of_charge b \<le> b_max_state_of_charge b)
        then Inl ''state of charge is outside operating limits''
      else if b_max_charge_kw b < 0 \<or> b_max_discharge_kw b < 0 then Inl ''physical power limits cannot be negative''
      else if b_max_ramp_kw_per_min b < 0 then Inl ''physical ramp rate cannot be negative''
      else if \<not> within_limits b (b_power_kw b) then Inl ''initial power is outside physical limits''
      else Inr b)"

definition set_power :: "rat \<Rightarrow> battery \<Rightarrow> string + battery" where
  "set_power p b =
     (if \<not> within_limits b p then Inl ''power is outside battery limits''
      else let b' = (if p \<noteq> b_power_kw b then b\<lparr>b_source_sequence := b_source_sequence b + 1\<rparr> else b)
           in Inr (b'\<lparr>b_power_kw := p\<rparr>))"

definition restart_session :: "rat option \<Rightarrow> battery \<Rightarrow> string + battery" where
  "restart_session p b =
     (if (case p of None \<Rightarrow> False | Some x \<Rightarrow> \<not> within_limits b x) then Inl ''power is outside battery limits''
      else let b' = b\<lparr>b_source_epoch := b_source_epoch b + 1, b_source_sequence := 0\<rparr>
           in Inr (case p of None \<Rightarrow> b' | Some x \<Rightarrow> b'\<lparr>b_power_kw := x\<rparr>))"

definition stored_energy_kwh :: "battery \<Rightarrow> rat" where
  "stored_energy_kwh b = fmul (b_state_of_charge b) (b_capacity_kwh b)"

definition minimum_energy_kwh :: "battery \<Rightarrow> rat" where
  "minimum_energy_kwh b = fmul (b_min_state_of_charge b) (b_capacity_kwh b)"

definition maximum_energy_kwh :: "battery \<Rightarrow> rat" where
  "maximum_energy_kwh b = fmul (b_max_state_of_charge b) (b_capacity_kwh b)"

definition advance :: "int \<Rightarrow> battery \<Rightarrow> battery" where
  "advance mins b =
     (let energy_delta = fmul (b_power_kw b) (fdiv (of_int mins) 60);
          next_soc = fadd (b_state_of_charge b) (fdiv energy_delta (b_capacity_kwh b));
          bounded_soc = max (b_min_state_of_charge b) (min (b_max_state_of_charge b) next_soc);
          b' = (if bounded_soc \<noteq> b_state_of_charge b then b\<lparr>b_source_sequence := b_source_sequence b + 1\<rparr> else b)
      in b'\<lparr>b_state_of_charge := bounded_soc\<rparr>)"

section \<open>S2 messages\<close>

record range_message =
  rm_commodity_quantity :: string
  rm_limit_type :: limit_type
  rm_start_of_range :: rat
  rm_end_of_range :: rat
  rm_abnormal_condition_only :: bool

record constraints_message =
  cm_message_id :: string
  cm_id :: string
  cm_valid_from :: string
  cm_valid_until :: string
  cm_consequence_type :: consequence
  cm_allowed_limit_ranges :: "range_message list"

record value_message =
  vl_value_expected :: rat
  vl_value_lower_95 :: rat
  vl_value_upper_95 :: rat
  vl_commodity_quantity :: string

record element_message =
  em_duration :: int
  em_power_values :: "value_message list"

record forecast_message =
  fm_message_id :: string
  fm_start_time :: string
  fm_elements :: "element_message list"

text \<open>\<open>text.replace("+00:00", "Z")\<close>\<close>

fun replace_utc :: "string \<Rightarrow> string" where
  "replace_utc [] = []"
| "replace_utc (c # cs) = (if take 6 (c # cs) = ''+00:00'' then CHR ''Z'' # replace_utc (drop 5 cs) else c # replace_utc cs)"

definition s2_time :: "datetime \<Rightarrow> string" where
  "s2_time d = replace_utc (isoformat d)"

definition commodity :: string where
  "commodity = ''ELECTRIC.POWER.L1''"

definition constraint_id :: "(string \<Rightarrow> string) \<Rightarrow> battery \<Rightarrow> datetime \<Rightarrow> string" where
  "constraint_id uuid5 b start = uuid5 (b_resource_id b @ '':'' @ isoformat start @ '':'' @ str_of_int (b_source_epoch b)
     @ '':'' @ str_of_int (b_source_sequence b))"

definition constraints_of :: "(string \<Rightarrow> string) \<Rightarrow> battery \<Rightarrow> datetime \<Rightarrow> datetime \<Rightarrow> constraints_message" where
  "constraints_of uuid5 b start finish =
     (let charge_limit = (if b_state_of_charge b < b_max_state_of_charge b then b_max_charge_kw b else 0);
          discharge_limit = (if b_state_of_charge b > b_min_state_of_charge b then b_max_discharge_kw b else 0);
          range = (\<lambda>t. \<lparr> rm_commodity_quantity = commodity, rm_limit_type = t,
            rm_start_of_range = fmul (- discharge_limit) 1000, rm_end_of_range = fmul charge_limit 1000,
            rm_abnormal_condition_only = False \<rparr>)
      in \<lparr> cm_message_id = uuid5 (''constraint-message:'' @ constraint_id uuid5 b start), cm_id = constraint_id uuid5 b start,
           cm_valid_from = s2_time start, cm_valid_until = s2_time finish, cm_consequence_type = b_consequence_type b,
           cm_allowed_limit_ranges = [range UPPER_LIMIT, range LOWER_LIMIT] \<rparr>)"

text \<open>The power of one forecast interval from the energy at its start.\<close>

definition forecast_power_kw :: "battery \<Rightarrow> rat \<Rightarrow> rat" where
  "forecast_power_kw b energy =
     (let minimum_power = max (- b_max_discharge_kw b) (fdiv (fsub (minimum_energy_kwh b) energy) (1/4));
          maximum_power = min (b_max_charge_kw b) (fdiv (fsub (maximum_energy_kwh b) energy) (1/4))
      in max minimum_power (min maximum_power (b_power_kw b)))"

definition element_of_power :: "rat \<Rightarrow> element_message" where
  "element_of_power p = \<lparr> em_duration = 900000, em_power_values =
     [\<lparr> vl_value_expected = fmul p 1000, vl_value_lower_95 = fmul (fsub p (rnd64 (1/5))) 1000,
        vl_value_upper_95 = fmul (fadd p (rnd64 (1/5))) 1000, vl_commodity_quantity = commodity \<rparr>] \<rparr>"

fun forecast_elements :: "battery \<Rightarrow> nat \<Rightarrow> rat \<Rightarrow> element_message list" where
  "forecast_elements b 0 energy = []"
| "forecast_elements b (Suc n) energy =
     (let p = forecast_power_kw b energy
      in element_of_power p # forecast_elements b n (fadd energy (fmul p (1/4))))"

definition s2_offer_messages ::
    "(string \<Rightarrow> string) \<Rightarrow> instant \<Rightarrow> datetime option \<Rightarrow> int \<Rightarrow> battery \<Rightarrow> string + constraints_message \<times> forecast_message" where
  "s2_offer_messages uuid5 now start interval_count b =
     (if interval_count < 1 \<or> interval_count > 96 then Inl ''interval_count must be between 1 and 96''
      else let start = (case start of Some s \<Rightarrow> s | None \<Rightarrow> Aware (now - now mod minutes 1) 0) in
        case start of
          Naive _ \<Rightarrow> Inl ''start must be timezone-aware''
        | Aware t off \<Rightarrow>
            let constraints = constraints_of uuid5 b start (Aware (t + minutes (15 * interval_count)) off)
            in Inr (constraints, \<lparr> fm_message_id = uuid5 (''forecast:'' @ cm_id constraints),
                 fm_start_time = cm_valid_from constraints,
                 fm_elements = forecast_elements b (nat interval_count) (stored_energy_kwh b) \<rparr>))"

section \<open>Profiles and the demo fleet\<close>

definition mk_battery :: "string \<Rightarrow> string \<Rightarrow> rat \<Rightarrow> string + battery" where
  "mk_battery resource_id zone_id p = post_init
     \<lparr> b_class = BATTERY, b_resource_id = resource_id, b_zone_id = zone_id, b_capacity_kwh = 10,
       b_state_of_charge = rnd64 (3/5), b_power_kw = p, b_max_charge_kw = 5, b_max_discharge_kw = 5,
       b_min_state_of_charge = rnd64 (1/10), b_max_state_of_charge = rnd64 (9/10), b_max_ramp_kw_per_min = 10,
       b_consequence_type = DEFER, b_source_epoch = 0, b_source_sequence = 0 \<rparr>"

definition mk_evse :: "string \<Rightarrow> string \<Rightarrow> rat \<Rightarrow> string + battery" where
  "mk_evse resource_id zone_id p = post_init
     \<lparr> b_class = EVSE, b_resource_id = resource_id, b_zone_id = zone_id, b_capacity_kwh = 60,
       b_state_of_charge = rnd64 (9/20), b_power_kw = p, b_max_charge_kw = rnd64 (37/5), b_max_discharge_kw = 0,
       b_min_state_of_charge = rnd64 (1/10), b_max_state_of_charge = rnd64 (9/10), b_max_ramp_kw_per_min = 10,
       b_consequence_type = DEFER, b_source_epoch = 0, b_source_sequence = 0 \<rparr>"

definition mk_heat_pump :: "string \<Rightarrow> string \<Rightarrow> rat \<Rightarrow> string + battery" where
  "mk_heat_pump resource_id zone_id p = post_init
     \<lparr> b_class = HEAT_PUMP, b_resource_id = resource_id, b_zone_id = zone_id, b_capacity_kwh = 8,
       b_state_of_charge = rnd64 (11/20), b_power_kw = p, b_max_charge_kw = 2, b_max_discharge_kw = 0,
       b_min_state_of_charge = rnd64 (1/10), b_max_state_of_charge = rnd64 (9/10), b_max_ramp_kw_per_min = 10,
       b_consequence_type = DEFER, b_source_epoch = 0, b_source_sequence = 0 \<rparr>"

definition demo_zones :: "string list" where
  "demo_zones = [''ES-MA-29700'', ''ES-MA-29001'', ''ES-GR-18001'']"

definition resource_id_of :: "(string \<Rightarrow> string) \<Rightarrow> string \<Rightarrow> string \<Rightarrow> nat \<Rightarrow> string" where
  "resource_id_of uuid5 kind zone index = uuid5 (''der-flex:'' @ kind @ '':'' @ zone @ '':'' @ str_of_nat index)"

fun all_or_error :: "('e + 'a) list \<Rightarrow> 'e + 'a list" where
  "all_or_error [] = Inr []"
| "all_or_error (r # rs) = bind_res r (\<lambda>x. bind_res (all_or_error rs) (\<lambda>xs. Inr (x # xs)))"

definition demo_resources :: "(string \<Rightarrow> string) \<Rightarrow> string \<Rightarrow> nat \<Rightarrow> (string + battery) list" where
  "demo_resources uuid5 zone i =
     [mk_battery (resource_id_of uuid5 ''battery'' zone i) zone (fadd (3/2) (fmul (of_nat (i mod 8)) (rnd64 (1/5)))),
      mk_evse (resource_id_of uuid5 ''evse'' zone i) zone (fadd 3 (fmul (of_nat (i mod 12)) (rnd64 (3/10)))),
      mk_heat_pump (resource_id_of uuid5 ''heat-pump'' zone i) zone (fadd (rnd64 (4/5)) (fmul (of_nat (i mod 6)) (rnd64 (1/5))))]"

definition build_demo_fleet :: "(string \<Rightarrow> string) \<Rightarrow> int \<Rightarrow> string + battery list" where
  "build_demo_fleet uuid5 per_profile_per_zone =
     (if per_profile_per_zone < 1 then Inl ''per_profile_per_zone must be positive''
      else all_or_error (concat (List.map (\<lambda>zone. concat (List.map (demo_resources uuid5 zone) [0..<nat per_profile_per_zone])) demo_zones)))"

section \<open>Scenarios\<close>

record scenario =
  sc_name :: string
  sc_connected_resources :: "battery list"
  sc_disconnected_resource_ids :: "string list"

definition peak_power :: "battery \<Rightarrow> rat" where
  "peak_power b = (case b_class b of EVSE \<Rightarrow> 7 | HEAT_PUMP \<Rightarrow> rnd64 (9/5) | BATTERY \<Rightarrow> 4)"

fun every_fourth :: "'a list \<Rightarrow> 'a list" where
  "every_fourth (w # x # y # z # rest) = w # every_fourth rest"
| "every_fourth [] = []"
| "every_fourth (w # rest) = [w]"

definition disconnecting :: "string \<Rightarrow> string list \<Rightarrow> battery list \<Rightarrow> scenario" where
  "disconnecting name ids fleet = \<lparr> sc_name = name,
     sc_connected_resources = filter (\<lambda>b. b_resource_id b \<notin> set ids) fleet, sc_disconnected_resource_ids = ids \<rparr>"

definition build_scenario :: "(string \<Rightarrow> string) \<Rightarrow> string \<Rightarrow> string + scenario" where
  "build_scenario uuid5 name = bind_res (build_demo_fleet uuid5 4) (\<lambda>fleet.
     if name = ''normal_afternoon'' then Inr \<lparr> sc_name = name, sc_connected_resources = fleet, sc_disconnected_resource_ids = [] \<rparr>
     else if name = ''demand_peak'' then bind_res (all_or_error (List.map (\<lambda>b. set_power (peak_power b) b) fleet)) (\<lambda>fleet.
       Inr \<lparr> sc_name = name, sc_connected_resources = fleet, sc_disconnected_resource_ids = [] \<rparr>)
     else if name = ''ev_departure''
       then Inr (disconnecting name (List.map b_resource_id (filter (\<lambda>b. b_class b = EVSE) fleet)) fleet)
     else if name = ''connectivity_loss''
       then Inr (disconnecting name (List.map b_resource_id (every_fourth fleet)) fleet)
     else Inl (''unknown scenario: '' @ name))"

section \<open>Provisioning the simulators\<close>

definition demo_provisioned_at :: datetime where
  "demo_provisioned_at = Aware (days 20708) 0"

definition simulator_record :: "battery \<Rightarrow> resource_input" where
  "simulator_record b = \<lparr> p_resource_id = b_resource_id b, p_zone_id = b_zone_id b, p_resource_type = b_class b,
     p_min_power_kw = Fin (- b_max_discharge_kw b), p_max_power_kw = Fin (b_max_charge_kw b),
     p_min_energy_kwh = Fin (minimum_energy_kwh b), p_max_energy_kwh = Fin (maximum_energy_kwh b),
     p_initial_energy_kwh = Fin (stored_energy_kwh b), p_ramp_rate_kw_per_min = Fin (b_max_ramp_kw_per_min b),
     p_provisioning_version = 1, p_provisioned_at = demo_provisioned_at, p_enabled = True, p_tenant_id = ''development'' \<rparr>"

definition build_simulator_registry :: "battery list \<Rightarrow> (model_error + registry_error) + registry" where
  "build_simulator_registry bs = bind_res (map_sum Inl id (all_or_error (List.map (\<lambda>b. mk_resource (simulator_record b)) bs)))
     (\<lambda>records. map_sum Inr id (register_all records []))"

section \<open>What the operations keep\<close>

definition battery_ok :: "battery \<Rightarrow> bool" where
  "battery_ok b \<longleftrightarrow> 0 < b_capacity_kwh b \<and> 0 \<le> b_min_state_of_charge b \<and>
     b_min_state_of_charge b < b_max_state_of_charge b \<and> b_max_state_of_charge b \<le> 1 \<and>
     b_min_state_of_charge b \<le> b_state_of_charge b \<and> b_state_of_charge b \<le> b_max_state_of_charge b \<and>
     0 \<le> b_max_charge_kw b \<and> 0 \<le> b_max_discharge_kw b \<and> 0 \<le> b_max_ramp_kw_per_min b \<and> within_limits b (b_power_kw b)"

lemma post_init_ok: "post_init b = Inr b' \<longleftrightarrow> battery_ok b \<and> b' = b"
  by (auto simp: post_init_def battery_ok_def)

inductive battery_step :: "battery \<Rightarrow> battery \<Rightarrow> bool" where
  step_set_power: "set_power p b = Inr b' \<Longrightarrow> battery_step b b'"
| step_restart: "restart_session p b = Inr b' \<Longrightarrow> battery_step b b'"
| step_advance: "battery_step b (advance mins b)"

lemma battery_step_ok: "battery_step b b' \<Longrightarrow> battery_ok b \<Longrightarrow> battery_ok b'"
proof (induction rule: battery_step.induct)
  case (step_set_power p b b')
  then show ?case by (auto simp: set_power_def battery_ok_def within_limits_def Let_def split: if_splits)
next
  case (step_restart p b b')
  then show ?case by (auto simp: restart_session_def battery_ok_def within_limits_def Let_def split: if_splits option.splits)
next
  case (step_advance b mins)
  then show ?case by (auto simp: advance_def battery_ok_def within_limits_def Let_def)
qed

lemma battery_run_ok: "battery_step\<^sup>*\<^sup>* b b' \<Longrightarrow> battery_ok b \<Longrightarrow> battery_ok b'"
  by (induction rule: rtranclp_induct) (auto intro: battery_step_ok)

section \<open>Forecasts\<close>

lemma forecast_power_lower: "0 \<le> b_max_discharge_kw b \<Longrightarrow> - b_max_discharge_kw b \<le> forecast_power_kw b energy"
  by (simp add: forecast_power_kw_def Let_def le_max_iff_disj)

lemma forecast_power_upper:
  assumes "battery_ok b" "minimum_energy_kwh b \<le> energy"
  shows "forecast_power_kw b energy \<le> b_max_charge_kw b"
proof -
  have "fdiv (fsub (minimum_energy_kwh b) energy) (1/4) \<le> 0"
    using fsub_nonpos [OF assms(2)] rnd64_mono [of "fsub (minimum_energy_kwh b) energy * 4" 0] by (simp add: fdiv_def)
  then show ?thesis using assms(1) by (auto simp: forecast_power_kw_def Let_def battery_ok_def)
qed

lemma forecast_elements_length [simp]: "length (forecast_elements b n energy) = n"
  by (induction n arbitrary: energy) (simp_all add: Let_def)

text \<open>A device that cannot discharge never loses energy in its forecast.\<close>

lemma forecast_elements_from:
  assumes "battery_ok b" "is_f64 energy" "minimum_energy_kwh b \<le> energy" "e \<in> set (forecast_elements b n energy)"
  shows "\<exists>p. e = element_of_power p \<and> - b_max_discharge_kw b \<le> p \<and>
    (b_max_discharge_kw b = 0 \<longrightarrow> p \<le> b_max_charge_kw b)"
  using assms
proof (induction n arbitrary: energy)
  case (Suc n)
  define p where "p = forecast_power_kw b energy"
  have lower: "- b_max_discharge_kw b \<le> p" using forecast_power_lower Suc.prems(1) by (simp add: p_def battery_ok_def)
  consider "e = element_of_power p" | "e \<in> set (forecast_elements b n (fadd energy (fmul p (1/4))))"
    using Suc.prems(4) by (auto simp: Let_def p_def)
  then show ?case
  proof cases
    case 1
    then show ?thesis using lower forecast_power_upper [OF Suc.prems(1,3)] p_def by blast
  next
    case 2
    show ?thesis
    proof (cases "b_max_discharge_kw b = 0")
      case True
      then have "0 \<le> fmul p (1/4)" using lower by (intro fmul_nonneg) simp_all
      then have "energy \<le> fadd energy (fmul p (1/4))" by (rule fadd_grows [OF Suc.prems(2)])
      then show ?thesis using Suc.IH [OF Suc.prems(1) _ _ 2] Suc.prems(3) by simp
    next
      case False
      have "\<exists>q. e = element_of_power q \<and> - b_max_discharge_kw b \<le> q" if "e \<in> set (forecast_elements b n x)" for n x
        using that Suc.prems(1)
        by (induction n arbitrary: x) (auto simp: Let_def battery_ok_def intro: forecast_power_lower)
      then show ?thesis using 2 False by blast
    qed
  qed
qed simp

lemma stored_at_least_minimum: "battery_ok b \<Longrightarrow> minimum_energy_kwh b \<le> stored_energy_kwh b"
  unfolding minimum_energy_kwh_def stored_energy_kwh_def fmul_def battery_ok_def
  by (intro rnd64_mono mult_right_mono) simp_all

lemma s2_offer_messages_Inr:
  "s2_offer_messages uuid5 now start n b = Inr (c, f) \<Longrightarrow>
     1 \<le> n \<and> n \<le> 96 \<and> fm_elements f = forecast_elements b (nat n) (stored_energy_kwh b)"
  by (auto simp: s2_offer_messages_def Let_def split: if_splits option.splits datetime.splits)

section \<open>The demo fleet builds\<close>

lemma all_or_error_ok: "\<forall>r \<in> set rs. is_ok r \<Longrightarrow> \<exists>xs. all_or_error rs = Inr xs \<and> List.map Inr xs = rs"
proof (induction rs)
  case (Cons r rs)
  then obtain x xs where "r = Inr x" "all_or_error rs = Inr xs" "List.map Inr xs = rs" by (cases r) auto
  then show ?case by simp
qed simp

text \<open>A profile builds for every power within its limits, since it builds for none.\<close>

lemma profile_ok:
  "- 5 \<le> p \<Longrightarrow> p \<le> 5 \<Longrightarrow> is_ok (mk_battery r z p)"
  "0 \<le> p \<Longrightarrow> p \<le> rnd64 (37/5) \<Longrightarrow> is_ok (mk_evse r z p)"
  "0 \<le> p \<Longrightarrow> p \<le> 2 \<Longrightarrow> is_ok (mk_heat_pump r z p)"
proof -
  have "is_ok (mk_battery [] [] 0)" "is_ok (mk_evse [] [] 0)" "is_ok (mk_heat_pump [] [] 0)" by code_simp+
  then show "- 5 \<le> p \<Longrightarrow> p \<le> 5 \<Longrightarrow> is_ok (mk_battery r z p)"
    "0 \<le> p \<Longrightarrow> p \<le> rnd64 (37/5) \<Longrightarrow> is_ok (mk_evse r z p)"
    "0 \<le> p \<Longrightarrow> p \<le> 2 \<Longrightarrow> is_ok (mk_heat_pump r z p)"
    by (auto simp: mk_battery_def mk_evse_def mk_heat_pump_def post_init_def within_limits_def split: if_splits)
qed

text \<open>The powers of a profile grow with the index.\<close>

lemma graded_power:
  assumes "0 \<le> base" "0 \<le> step" "k \<le> n"
  shows "0 \<le> fadd base (fmul (of_nat k) step)" "fadd base (fmul (of_nat k) step) \<le> fadd base (fmul (of_nat n) step)"
proof -
  show "0 \<le> fadd base (fmul (of_nat k) step)" using assms by (intro fadd_nonneg fmul_nonneg) simp_all
  have "fmul (of_nat k) step \<le> fmul (of_nat n) step"
    unfolding fmul_def using assms by (intro rnd64_mono mult_right_mono) simp_all
  then show "fadd base (fmul (of_nat k) step) \<le> fadd base (fmul (of_nat n) step)" by (intro fadd_mono) simp_all
qed

lemma demo_resources_ok: "r \<in> set (demo_resources uuid5 z i) \<Longrightarrow> is_ok r"
proof -
  have top: "fadd (3/2) (fmul (of_nat 7) (rnd64 (1/5))) \<le> 5" "fadd 3 (fmul (of_nat 11) (rnd64 (3/10))) \<le> rnd64 (37/5)"
    "fadd (rnd64 (4/5)) (fmul (of_nat 5) (rnd64 (1/5))) \<le> 2"
    by code_simp+
  have steps: "0 \<le> rnd64 (1/5)" "0 \<le> rnd64 (3/10)" "0 \<le> rnd64 (4/5)" by (simp_all add: rnd64_nonneg)
  have "i mod 8 < 8" "i mod 12 < 12" "i mod 6 < 6" by simp_all
  then have k: "i mod 8 \<le> 7" "i mod 12 \<le> 11" "i mod 6 \<le> 5" by linarith+
  have "is_ok (mk_battery a z (fadd (3/2) (fmul (of_nat (i mod 8)) (rnd64 (1/5)))))" for a
    using graded_power [OF _ steps(1) k(1), of "3/2"] top(1) by (intro profile_ok(1)) simp_all
  moreover have "is_ok (mk_evse a z (fadd 3 (fmul (of_nat (i mod 12)) (rnd64 (3/10)))))" for a
    using graded_power [OF _ steps(2) k(2), of 3] top(2) by (intro profile_ok(2)) simp_all
  moreover have "is_ok (mk_heat_pump a z (fadd (rnd64 (4/5)) (fmul (of_nat (i mod 6)) (rnd64 (1/5)))))" for a
    using graded_power [OF steps(3,1) k(3)] top(3) by (intro profile_ok(3)) simp_all
  ultimately show "r \<in> set (demo_resources uuid5 z i) \<Longrightarrow> is_ok r"
    unfolding demo_resources_def by (simp only: list.set insert_iff empty_iff simp_thms, elim disjE) simp_all
qed

text \<open>The fleet builds for every positive size, three resources per index in each zone.\<close>

lemma demo_fleet_builds:
  assumes "1 \<le> n"
  shows "\<exists>fleet. build_demo_fleet uuid5 n = Inr fleet \<and> int (length fleet) = 9 * n"
proof -
  let ?rs = "concat (List.map (\<lambda>zone. concat (List.map (demo_resources uuid5 zone) [0..<nat n])) demo_zones)"
  have "\<forall>r \<in> set ?rs. is_ok r" using demo_resources_ok by fastforce
  then obtain fleet where f: "all_or_error ?rs = Inr fleet" "List.map Inr fleet = ?rs"
    using all_or_error_ok by blast
  have "length (concat (List.map (demo_resources uuid5 z) is)) = 3 * length is" for z "is"
    by (induction "is") (simp_all add: demo_resources_def)
  then have "length ?rs = 9 * nat n" by (simp add: demo_zones_def)
  then have "length fleet = 9 * nat n" using f(2) by (metis length_map)
  then show ?thesis using assms f(1) by (simp add: build_demo_fleet_def)
qed


definition ex_evse :: battery where
  "ex_evse = projr (mk_evse ''e'' ''Z'' 7)"

definition ex_evse_later :: battery where
  "ex_evse_later = advance 15 ex_evse"

definition ex_evse_messages :: "string + constraints_message \<times> forecast_message" where
  "ex_evse_messages = s2_offer_messages (\<lambda>s. s) 0 (Some (Aware 0 0)) 2 ex_evse_later"

definition ex_element :: element_message where
  "ex_element = hd (fm_elements (snd (projr ex_evse_messages)))"


end
