(* ===== verification/Demo.thy ===== *)
theory Demo
  imports Simulators ReservationService
begin

text \<open>
  The demo application, \<open>demo.py\<close>, without a database: the simulated fleet is provisioned, every device's
  messages go through the S2 adapter, and the offers into the in-memory store. The lemmas say that
  the store the service and the API are then built on satisfies what their properties assume.
\<close>

datatype s2_dict = Constraints_dict constraints_message | Forecast_dict forecast_message

datatype demo_error =
    Fleet_refused string
  | Provisioning_refused "model_error + registry_error"
  | Messages_refused string
  | Adapter_refused pebc_error
  | Store_refused store_error

definition lift_error :: "('e \<Rightarrow> demo_error) \<Rightarrow> 'e + 'a \<Rightarrow> demo_error + 'a" where
  "lift_error f r = map_sum f id r"

definition demo_now :: "instant \<Rightarrow> instant" where
  "demo_now clock = clock - clock mod minutes 1"

definition demo_start :: "instant \<Rightarrow> instant" where
  "demo_start now = now + minutes (15 - now div minutes 1 mod 60 mod 15)"

definition demo_request :: "instant \<Rightarrow> battery \<Rightarrow> constraints_message \<times> forecast_message \<Rightarrow> s2_dict pebc_request" where
  "demo_request now b messages = \<lparr> pr_resource_id = b_resource_id b, pr_zone_id = b_zone_id b,
     pr_constraints = Constraints_dict (fst messages), pr_forecast = Forecast_dict (snd messages),
     pr_source_epoch = b_source_epoch b, pr_source_sequence = b_source_sequence b,
     pr_observed_at = Aware now 0, pr_received_at = Aware now 0, pr_resolution = minutes 15,
     pr_response_time = minutes 1, pr_maximum_age = minutes 15, pr_future_skew = minutes 2 \<rparr>"

fun upsert_all :: "offer list \<Rightarrow> offer_store \<Rightarrow> demo_error + offer_store" where
  "upsert_all [] st = Inr st"
| "upsert_all (f # fs) st = (case upsert f st of
     (st', Inl e) \<Rightarrow> Inl (Store_refused e) | (st', Inr u) \<Rightarrow> upsert_all fs st')"

definition seed_resource ::
    "(string \<Rightarrow> string) \<Rightarrow> (s2_dict \<Rightarrow> s2_message option) \<Rightarrow> registry \<Rightarrow> instant \<Rightarrow> battery \<Rightarrow> offer_store
     \<Rightarrow> demo_error + offer_store" where
  "seed_resource uuid5 s2_parser registry now b st =
     (let b = b\<lparr>b_source_epoch := now div seconds 1\<rparr> in
      bind_res (lift_error Messages_refused (s2_offer_messages uuid5 now (Some (Aware (demo_start now) 0)) 4 b)) (\<lambda>messages.
      bind_res (lift_error Adapter_refused (normalize_pebc_offer s2_parser registry (demo_request now b messages))) (\<lambda>fs.
        upsert_all fs st)))"

fun seed_all ::
    "(string \<Rightarrow> string) \<Rightarrow> (s2_dict \<Rightarrow> s2_message option) \<Rightarrow> registry \<Rightarrow> instant \<Rightarrow> battery list \<Rightarrow> offer_store
     \<Rightarrow> demo_error + offer_store" where
  "seed_all uuid5 s2_parser registry now [] st = Inr st"
| "seed_all uuid5 s2_parser registry now (b # bs) st =
     bind_res (seed_resource uuid5 s2_parser registry now b st) (seed_all uuid5 s2_parser registry now bs)"

definition build_demo_store ::
    "(string \<Rightarrow> string) \<Rightarrow> (s2_dict \<Rightarrow> s2_message option) \<Rightarrow> instant \<Rightarrow> demo_error + registry \<times> offer_store \<times> instant \<times> instant" where
  "build_demo_store uuid5 s2_parser clock =
     (let now = demo_now clock; start = demo_start now in
      bind_res (lift_error Fleet_refused (build_demo_fleet uuid5 12)) (\<lambda>fleet.
      bind_res (lift_error Provisioning_refused (build_simulator_registry fleet)) (\<lambda>registry.
      bind_res (lift_error Store_refused (new_store 10)) (\<lambda>st.
      bind_res (seed_all uuid5 s2_parser registry now fleet st) (\<lambda>st.
        Inr (registry, st, start, start + minutes 60))))))"

section \<open>The store it builds\<close>

lemma lift_error_Inr [simp]: "lift_error f r = Inr v \<longleftrightarrow> r = Inr v"
  by (cases r) (simp_all add: lift_error_def)

lemma normalized_offers_ok:
  assumes "normalize_pebc_offer s2_parser registry q = Inr fs" "f \<in> set fs"
  shows "offer_ok f"
proof -
  obtain p c g where m: "normalize_messages p q c g = Inr fs"
    using assms(1) by (auto simp: normalize_pebc_offer_def bind_res_Inr split: sum.splits)
  have "fs \<noteq> []" using assms(2) by auto
  then obtain vu raw where "offers_of_segments p q c vu raw = Inr fs"
    using m by (auto simp: normalize_messages_def bind_res_Inr split: option.splits if_splits)
  from conjunct1 [OF offers_of_segments_ok [OF this]] show ?thesis using assms(2) by blast
qed

definition demo_ok :: "offer_store \<Rightarrow> bool" where
  "demo_ok st \<longleftrightarrow> store_inv st \<and> minimum_participants st = 10"

lemma upsert_demo_ok: "demo_ok st \<Longrightarrow> offer_ok f \<Longrightarrow> upsert f st = (st', r) \<Longrightarrow> demo_ok st'"
  using upsert_inv [of st f] upsert_outcome [of st f] by (auto simp: demo_ok_def upsert_stored_def)

lemma upsert_all_ok: "upsert_all fs st = Inr st' \<Longrightarrow> demo_ok st \<Longrightarrow> \<forall>f \<in> set fs. offer_ok f \<Longrightarrow> demo_ok st'"
proof (induction fs arbitrary: st)
  case (Cons f fs)
  then obtain st1 u where u: "upsert f st = (st1, Inr u)" and rest: "upsert_all fs st1 = Inr st'"
    by (auto split: prod.splits sum.splits)
  show ?case using Cons.IH [OF rest] upsert_demo_ok [OF Cons.prems(2) _ u] Cons.prems(3) by simp
qed simp

lemma seed_all_ok: "seed_all uuid5 s2_parser registry now bs st = Inr st' \<Longrightarrow> demo_ok st \<Longrightarrow> demo_ok st'"
proof (induction bs arbitrary: st)
  case (Cons b bs)
  then obtain st1 where 1: "seed_resource uuid5 s2_parser registry now b st = Inr st1"
    and rest: "seed_all uuid5 s2_parser registry now bs st1 = Inr st'" by (auto simp: bind_res_Inr)
  obtain q fs where "normalize_pebc_offer s2_parser registry q = Inr fs" "upsert_all fs st = Inr st1"
    using 1 by (auto simp: seed_resource_def Let_def bind_res_Inr)
  then have "demo_ok st1" using upsert_all_ok Cons.prems(2) normalized_offers_ok by blast
  then show ?case by (rule Cons.IH [OF rest])
qed simp

lemma all_or_error_Inr: "all_or_error rs = Inr xs \<Longrightarrow> x \<in> set xs \<Longrightarrow> Inr x \<in> set rs"
  by (induction rs arbitrary: xs) (auto simp: bind_res_Inr)

lemma simulator_registry_inv:
  assumes "build_simulator_registry bs = Inr registry"
  shows "registry_inv registry"
proof -
  obtain records where r: "all_or_error (List.map (\<lambda>b. mk_resource (simulator_record b)) bs) = Inr records"
    "register_all records [] = Inr registry"
    using assms unfolding build_simulator_registry_def
    by (cases "all_or_error (List.map (\<lambda>b. mk_resource (simulator_record b)) bs)"; simp)
      (cases "register_all (projr (all_or_error (List.map (\<lambda>b. mk_resource (simulator_record b)) bs))) []"; simp)
  have "\<forall>p \<in> set records. resource_ok p"
    using all_or_error_Inr [OF r(1)] mk_resource_envelope by fastforce
  then show ?thesis by (rule register_all_inv [OF registry_inv_Nil _ r(2)])
qed

text \<open>Whatever the parser makes of the messages, a demo that starts has a sound store and registry.\<close>

lemma demo_store_ok:
  assumes "build_demo_store uuid5 s2_parser clock = Inr (registry, st, start, finish)"
  shows "demo_ok st" "registry_inv registry" "env_ok (store_env fp st)" "finish = start + minutes 60"
proof -
  obtain fleet st0 where b: "build_simulator_registry fleet = Inr registry" "new_store 10 = Inr st0"
    "seed_all uuid5 s2_parser registry (demo_now clock) fleet st0 = Inr st" "finish = start + minutes 60"
    using assms by (auto simp: build_demo_store_def Let_def bind_res_Inr)
  have "demo_ok st0" using b(2) store_inv_new [OF b(2)] by (auto simp: demo_ok_def new_store_def split: if_splits)
  then show ok: "demo_ok st" by (rule seed_all_ok [OF b(3)])
  then show "env_ok (store_env fp st)" by (simp add: demo_ok_def store_env_ok)
  show "finish = start + minutes 60" by (rule b(4))
  show "registry_inv registry" by (rule simulator_registry_inv [OF b(1)])
qed

end
